(* ===== verification/Camera_Prelude.thy ===== *)
theory Camera_Prelude
  imports Main Complex_Main "HOL-Library.Word" "HOL-Library.Log_Nat"
begin

text \<open>
  Shared vocabulary of the development: machine integers and byte orders, the C arithmetic
  whose rounding differs from HOL's, the C string functions the daemons call
  (\<^verbatim>\<open>isspace\<close>, \<^verbatim>\<open>strtol\<close>, \<^verbatim>\<open>strchr\<close>, \<^verbatim>\<open>strtok\<close>, \<^verbatim>\<open>sprintf\<close> of an integer) and the rounding
  of binary floating point.  A C string is the \<^typ>\<open>string\<close> of its characters up to the
  terminating NUL.  The C library is modelled as the code uses it, on the camera's 32-bit ARM
  (\<^verbatim>\<open>int\<close>, \<^verbatim>\<open>long\<close> and \<^verbatim>\<open>time_t\<close> have 32 bits, little endian).
\<close>

unbundle bit_operations_syntax

section \<open>Collections of rewrite rules\<close>

named_theorems c_string \<open>rewriting C string functions\<close>
named_theorems c_arith \<open>C arithmetic reduced to HOL arithmetic\<close>
named_theorems layout \<open>sizes and offsets of packed structures\<close>

section \<open>Machine integers\<close>

type_synonym byte = "8 word"
type_synonym u16 = "16 word"
type_synonym u32 = "32 word"

definition INT_MAX :: int where "INT_MAX = 2147483647"

definition to_int32 :: "int \<Rightarrow> int" where
  "to_int32 x = (x + 2147483648) mod 4294967296 - 2147483648"

lemma to_int32_id [c_arith]: "- 2147483648 \<le> x \<Longrightarrow> x \<le> 2147483647 \<Longrightarrow> to_int32 x = x"
  by (simp add: to_int32_def)

lemma to_int32_bounds: "- 2147483648 \<le> to_int32 x" "to_int32 x \<le> 2147483647"
proof -
  have "0 \<le> (x + 2147483648) mod 4294967296" "(x + 2147483648) mod 4294967296 < 4294967296"
    by simp_all
  then show "- 2147483648 \<le> to_int32 x" "to_int32 x \<le> 2147483647"
    by (simp_all add: to_int32_def)
qed

text \<open>C's integer division and remainder truncate towards zero.\<close>

definition cdiv :: "int \<Rightarrow> int \<Rightarrow> int" where
  "cdiv a b = sgn a * sgn b * (\<bar>a\<bar> div \<bar>b\<bar>)"

definition crem :: "int \<Rightarrow> int \<Rightarrow> int" where
  "crem a b = a - b * cdiv a b"

lemma cdiv_pos [c_arith]: "0 \<le> a \<Longrightarrow> 0 < b \<Longrightarrow> cdiv a b = a div b"
  by (cases "a = 0") (simp_all add: cdiv_def sgn_if)

lemma crem_pos [c_arith]: "0 \<le> a \<Longrightarrow> 0 < b \<Longrightarrow> crem a b = a mod b"
  by (simp add: crem_def cdiv_pos minus_mult_div_eq_mod)

lemma cdiv_neg: "a < 0 \<Longrightarrow> 0 < b \<Longrightarrow> cdiv a b = - ((- a) div b)"
  by (simp add: cdiv_def)

lemma crem_neg: "a < 0 \<Longrightarrow> 0 < b \<Longrightarrow> crem a b = - ((- a) mod b)"
  by (simp add: crem_def cdiv_neg minus_mult_div_eq_mod [symmetric])

lemma cdiv_crem: "b * cdiv a b + crem a b = a"
  by (simp add: crem_def)

lemma crem_abs_less: "0 < b \<Longrightarrow> \<bar>crem a b\<bar> < b"
  by (cases "0 \<le> a") (simp_all add: crem_pos crem_neg)

text \<open>Conversion of a real value to an integer type drops the fraction.\<close>

definition trunc :: "rat \<Rightarrow> int" where
  "trunc x = (if 0 \<le> x then \<lfloor>x\<rfloor> else - \<lfloor>- x\<rfloor>)"

lemma trunc_of_int [simp]: "trunc (of_int n) = n"
  by (simp add: trunc_def floor_minus)

lemma trunc_nonneg: "0 \<le> x \<Longrightarrow> trunc x = \<lfloor>x\<rfloor>"
  by (simp add: trunc_def)

lemma trunc_abs_le: "\<bar>of_int (trunc x) - x\<bar> < 1"
proof (cases "0 \<le> x")
  case True
  then show ?thesis using floor_correct [of x] by (simp add: trunc_def)
next
  case False
  then show ?thesis using floor_correct [of "- x"] of_int_floor_le [of "- x"]
    by (simp add: trunc_def) linarith
qed

section \<open>Time values\<close>

text \<open>\<^verbatim>\<open>struct timeval\<close>.\<close>

record timeval =
  tv_sec :: int
  tv_usec :: int

section \<open>Byte order\<close>

text \<open>Little-endian layout of an unsigned value in \<open>n\<close> bytes, and its big-endian reverse.\<close>

fun le_bytes :: "nat \<Rightarrow> nat \<Rightarrow> byte list" where
  "le_bytes 0 x = []"
| "le_bytes (Suc n) x = of_nat x # le_bytes n (x div 256)"

fun le_val :: "byte list \<Rightarrow> nat" where
  "le_val [] = 0"
| "le_val (b # bs) = unat b + 256 * le_val bs"

definition be_bytes :: "nat \<Rightarrow> nat \<Rightarrow> byte list" where
  "be_bytes n x = rev (le_bytes n x)"

definition be_val :: "byte list \<Rightarrow> nat" where
  "be_val bs = le_val (rev bs)"

lemma length_le_bytes [simp]: "length (le_bytes n x) = n"
  by (induction n arbitrary: x) auto

lemma length_be_bytes [simp]: "length (be_bytes n x) = n"
  by (simp add: be_bytes_def)

lemma unat_of_nat_byte: "unat (of_nat x :: byte) = x mod 256"
  by (simp add: unat_of_nat)

lemma unat_byte_less: "unat (b :: byte) < 256"
  using unsigned_less [of b] by simp

lemma unat_u32_less: "unat (w :: u32) < 4294967296"
  using unsigned_less [of w] by simp

lemma le_val_le_bytes: "le_val (le_bytes n x) = x mod 256 ^ n"
proof (induction n arbitrary: x)
  case 0
  then show ?case by simp
next
  case (Suc n)
  then show ?case
    by (simp add: unat_of_nat_byte mod_mult2_eq algebra_simps)
qed

lemma le_val_less: "le_val bs < 256 ^ length bs"
proof (induction bs)
  case Nil
  then show ?case by simp
next
  case (Cons b bs)
  have "unat b < 256" by (rule unat_byte_less)
  with Cons show ?case by simp
qed

lemma le_bytes_le_val: "length bs = n \<Longrightarrow> le_bytes n (le_val bs) = bs"
proof (induction n arbitrary: bs)
  case 0
  then show ?case by simp
next
  case (Suc n)
  then obtain b cs where bs: "bs = b # cs" "length cs = n" by (cases bs) auto
  have b: "unat b < 256" by (rule unat_byte_less)
  have "of_nat (unat b + 256 * le_val cs) = b"
  proof (rule word_unat_eq_iff [THEN iffD2])
    show "unat (of_nat (unat b + 256 * le_val cs) :: byte) = unat b"
      unfolding unat_of_nat_byte using b by simp
  qed
  with b Suc.IH [OF bs(2)] show ?case by (simp add: bs)
qed

lemma le_val_inj: "length xs = length ys \<Longrightarrow> le_val xs = le_val ys \<Longrightarrow> xs = ys"
  by (metis le_bytes_le_val)

lemma le_bytes_inj: "x < 256 ^ n \<Longrightarrow> y < 256 ^ n \<Longrightarrow> le_bytes n x = le_bytes n y \<Longrightarrow> x = y"
  by (metis le_val_le_bytes mod_less)

lemma be_val_be_bytes: "be_val (be_bytes n x) = x mod 256 ^ n"
  by (simp add: be_val_def be_bytes_def le_val_le_bytes)

lemma be_val_less: "be_val bs < 256 ^ length bs"
  using le_val_less [of "rev bs"] by (simp add: be_val_def)

lemma be_bytes_be_val: "length bs = n \<Longrightarrow> be_bytes n (be_val bs) = bs"
  by (simp add: be_val_def be_bytes_def le_bytes_le_val)

abbreviation le32 :: "u32 \<Rightarrow> byte list" where "le32 w \<equiv> le_bytes 4 (unat w)"
abbreviation be32 :: "u32 \<Rightarrow> byte list" where "be32 w \<equiv> be_bytes 4 (unat w)"
abbreviation of_le32 :: "byte list \<Rightarrow> u32" where "of_le32 bs \<equiv> of_nat (le_val bs)"
abbreviation of_be32 :: "byte list \<Rightarrow> u32" where "of_be32 bs \<equiv> of_nat (be_val bs)"

text \<open>Overwriting the bytes of an array from an offset on, as \<^verbatim>\<open>memcpy\<close> does.\<close>

definition write_at :: "nat \<Rightarrow> 'a list \<Rightarrow> 'a list \<Rightarrow> 'a list" where
  "write_at k xs buf = take k buf @ xs @ drop (k + length xs) buf"

definition read_at :: "nat \<Rightarrow> nat \<Rightarrow> 'a list \<Rightarrow> 'a list" where
  "read_at k n buf = take n (drop k buf)"

lemma length_write_at [simp]:
  "k + length xs \<le> length buf \<Longrightarrow> length (write_at k xs buf) = length buf"
  by (simp add: write_at_def)

lemma length_read_at [simp]: "k + n \<le> length buf \<Longrightarrow> length (read_at k n buf) = n"
  by (simp add: read_at_def)

lemma read_at_write_at:
  "k + length xs \<le> length buf \<Longrightarrow> n = length xs \<Longrightarrow> read_at k n (write_at k xs buf) = xs"
  by (simp add: read_at_def write_at_def)

lemma nth_write_at:
  assumes "k + length xs \<le> length buf" "i < length buf"
  shows "write_at k xs buf ! i =
    (if i < k then buf ! i else if i < k + length xs then xs ! (i - k) else buf ! i)"
proof -
  have "length (take k buf) = k" using assms(1) by simp
  with assms show ?thesis
    by (cases "i < k"; cases "i < k + length xs")
      (auto simp: write_at_def nth_append less_diff_conv2)
qed

lemma nth_read_at: "k + n \<le> length buf \<Longrightarrow> i < n \<Longrightarrow> read_at k n buf ! i = buf ! (k + i)"
  by (simp add: read_at_def)

lemma read_at_write_other:
  assumes "k + length xs \<le> length buf" "j + n \<le> length buf"
    and "j + n \<le> k \<or> k + length xs \<le> j"
  shows "read_at j n (write_at k xs buf) = read_at j n buf"
  using assms by (intro nth_equalityI) (auto simp: nth_read_at nth_write_at)

section \<open>Characters and strings\<close>

abbreviation NL :: char where "NL \<equiv> CHR 0x0A"
abbreviation TAB :: char where "TAB \<equiv> CHR 0x09"
abbreviation SP :: char where "SP \<equiv> CHR 0x20"
abbreviation NUL :: char where "NUL \<equiv> CHR 0x00"

definition isspace :: "char \<Rightarrow> bool" where
  "isspace c \<longleftrightarrow> c = SP \<or> ((9::nat) \<le> of_char c \<and> of_char c \<le> (13::nat))"

definition isdigit :: "char \<Rightarrow> bool" where
  "isdigit c \<longleftrightarrow> (48::nat) \<le> of_char c \<and> of_char c \<le> (57::nat)"

definition digit_val :: "char \<Rightarrow> int" where
  "digit_val c = int (of_char c) - 48"

definition tolower :: "char \<Rightarrow> char" where
  "tolower c = (if (65::nat) \<le> of_char c \<and> of_char c \<le> (90::nat)
                then char_of (of_char c + (32::nat)) else c)"

text \<open>The value of a run of decimal digits, most significant first.\<close>

fun digits_val :: "int \<Rightarrow> string \<Rightarrow> int" where
  "digits_val acc [] = acc"
| "digits_val acc (c # cs) = digits_val (10 * acc + digit_val c) cs"

text \<open>
  \<^verbatim>\<open>strtol(s, &rest, 10)\<close> on a string that starts with a digit: the digits are converted and
  the value is cut off at \<^verbatim>\<open>LONG_MAX\<close>.
\<close>

definition strtol10 :: "string \<Rightarrow> int \<times> string" where
  "strtol10 s = (min (digits_val 0 (takeWhile isdigit s)) INT_MAX, dropWhile isdigit s)"

text \<open>\<^verbatim>\<open>atoi\<close>: leading white space, an optional sign, then digits.\<close>

definition atoi :: "string \<Rightarrow> int" where
  "atoi s = (let t = dropWhile isspace s in
     if t \<noteq> [] \<and> hd t = CHR ''-''
     then max (- digits_val 0 (takeWhile isdigit (tl t))) (- INT_MAX - 1)
     else if t \<noteq> [] \<and> hd t = CHR ''+''
     then min (digits_val 0 (takeWhile isdigit (tl t))) INT_MAX
     else min (digits_val 0 (takeWhile isdigit t)) INT_MAX)"

text \<open>Decimal printing, \<^verbatim>\<open>sprintf(buf, "%d", n)\<close>.\<close>

fun show_nat :: "nat \<Rightarrow> string" where
  "show_nat n = (if n < 10 then [char_of (48 + n)]
                 else show_nat (n div 10) @ [char_of (48 + n mod 10)])"

declare show_nat.simps [simp del]

definition show_int :: "int \<Rightarrow> string" where
  "show_int n = (if n < 0 then CHR ''-'' # show_nat (nat (- n)) else show_nat (nat n))"

lemma isdigit_char_of [simp]: "n < 10 \<Longrightarrow> isdigit (char_of (48 + n :: nat))"
  by (simp add: isdigit_def)

lemma digit_val_char_of [simp]: "n < 10 \<Longrightarrow> digit_val (char_of (48 + n :: nat)) = int n"
  by (simp add: digit_val_def)

lemma digits_val_append: "digits_val a (xs @ ys) = digits_val (digits_val a xs) ys"
  by (induction xs arbitrary: a) auto

lemma show_nat_digits: "list_all isdigit (show_nat n)"
proof (induction n rule: show_nat.induct)
  case (1 n)
  show ?case
    using 1 by (cases "n < 10") (simp_all add: show_nat.simps [of n])
qed

lemma show_nat_not_Nil [simp]: "show_nat n \<noteq> []"
  by (simp add: show_nat.simps [of n])

lemma digits_val_show_nat: "digits_val 0 (show_nat n) = int n"
proof (induction n rule: show_nat.induct)
  case (1 n)
  have "int n = 10 * int (n div 10) + int (n mod 10)"
    by (metis mult_div_mod_eq of_nat_add of_nat_mult of_nat_numeral)
  then show ?case
    using 1 by (cases "n < 10") (simp_all add: show_nat.simps [of n] digits_val_append)
qed

lemma strtol10_show_nat:
  assumes "rest = [] \<or> \<not> isdigit (hd rest)" and "int n \<le> INT_MAX"
  shows "strtol10 (show_nat n @ rest) = (int n, rest)"
proof -
  have all: "\<forall>c\<in>set (show_nat n). isdigit c"
    using show_nat_digits [of n] by (simp add: list_all_iff)
  have "takeWhile isdigit rest = []" "dropWhile isdigit rest = rest"
    using assms(1) by (cases rest; simp)+
  with all assms(2) show ?thesis
    by (simp add: strtol10_def digits_val_show_nat takeWhile_append2 dropWhile_append2)
qed

lemma hd_show_nat_digit: "isdigit (hd (show_nat n))"
  using show_nat_digits [of n] show_nat_not_Nil [of n]
  by (cases "show_nat n") auto

text \<open>
  \<^verbatim>\<open>strtok\<close> keeps a pointer to what follows the last token; here that rest is passed
  explicitly.  Leading delimiters are skipped, the delimiter that ends the token is consumed.
\<close>

definition strtok :: "(char \<Rightarrow> bool) \<Rightarrow> string \<Rightarrow> (string \<times> string) option" where
  "strtok delim s = (let t = dropWhile delim s in
     if t = [] then None
     else Some (takeWhile (\<lambda>c. \<not> delim c) t, drop 1 (dropWhile (\<lambda>c. \<not> delim c) t)))"

definition blank :: "char \<Rightarrow> bool" where
  "blank c \<longleftrightarrow> c = SP \<or> c = TAB"

lemma strtok_token:
  assumes "tok \<noteq> []" and "list_all (\<lambda>c. \<not> delim c) tok" and "delim d"
  shows "strtok delim (tok @ d # rest) = Some (tok, rest)"
proof -
  have "\<not> delim (hd tok)" using assms by (cases tok) auto
  then have "dropWhile delim (tok @ d # rest) = tok @ d # rest"
    using assms(1) by (cases tok) auto
  with assms show ?thesis
    by (simp add: strtok_def list_all_iff takeWhile_append2 dropWhile_append2)
qed

lemma strtok_shorter: "strtok delim s = Some (tok, rest) \<Longrightarrow> length rest < length s"
proof -
  assume a: "strtok delim s = Some (tok, rest)"
  let ?t = "dropWhile delim s"
  from a have t: "?t \<noteq> []" "tok = takeWhile (\<lambda>c. \<not> delim c) ?t"
      "rest = drop 1 (dropWhile (\<lambda>c. \<not> delim c) ?t)"
    by (auto simp: strtok_def Let_def split: if_splits)
  from t(1) have "\<not> delim (hd ?t)" by (rule hd_dropWhile)
  with t(1) have "length (drop 1 (dropWhile (\<lambda>c. \<not> delim c) ?t)) < length ?t"
    by (cases ?t) (auto simp: length_dropWhile_le less_Suc_eq_le intro: le_trans [OF diff_le_self])
  also have "length ?t \<le> length s" by (rule length_dropWhile_le)
  finally show ?thesis using t(3) by simp
qed

lemma strtok_no_delim: "strtok delim s = Some (tok, rest) \<Longrightarrow> tok \<noteq> [] \<and> (\<forall>c\<in>set tok. \<not> delim c)"
proof -
  assume a: "strtok delim s = Some (tok, rest)"
  let ?t = "dropWhile delim s"
  from a have t: "?t \<noteq> []" "tok = takeWhile (\<lambda>c. \<not> delim c) ?t"
    by (auto simp: strtok_def Let_def split: if_splits)
  from t(1) have "\<not> delim (hd ?t)" by (rule hd_dropWhile)
  with t show ?thesis by (cases ?t) (auto dest: set_takeWhileD)
qed

end
