(* ===== verification/Bitstring.thy ===== *)
theory Bitstring
  imports Camera_Prelude
begin

text \<open>
  The bit strings of \<^verbatim>\<open>cron/bitstring.h\<close>: the macros as functions on byte lists, and the proof that
  they implement sets of small numbers.  The interface \<open>bit_set_spec\<close> states what the crontab decoder
  relies on; its interpretation at the end discharges the laws for the macros.
\<close>

section \<open>The macros\<close>

type_synonym bitstr_t = "byte list"

definition bit_byte :: "nat \<Rightarrow> nat" where
  "bit_byte n = drop_bit 3 n"

definition bit_mask_of :: "nat \<Rightarrow> byte" where
  "bit_mask_of n = push_bit (n AND 7) 1"

definition bitstr_size :: "nat \<Rightarrow> nat" where
  "bitstr_size nbits = drop_bit 3 (nbits - 1) + 1"

definition bit_decl :: "nat \<Rightarrow> bitstr_t" where
  "bit_decl nbits = replicate (bitstr_size nbits) 0"

definition bit_test :: "bitstr_t \<Rightarrow> nat \<Rightarrow> bool" where
  "bit_test name n = (name ! bit_byte n AND bit_mask_of n \<noteq> 0)"

definition bit_set :: "bitstr_t \<Rightarrow> nat \<Rightarrow> bitstr_t" where
  "bit_set name n = name[bit_byte n := name ! bit_byte n OR bit_mask_of n]"

definition bit_clear :: "bitstr_t \<Rightarrow> nat \<Rightarrow> bitstr_t" where
  "bit_clear name n = name[bit_byte n := name ! bit_byte n AND NOT (bit_mask_of n)]"

text \<open>The inner \<^verbatim>\<open>while (++_startbyte < _stopbyte) _name[_startbyte] = v\<close>.\<close>

function fill_bytes :: "byte \<Rightarrow> bitstr_t \<Rightarrow> nat \<Rightarrow> nat \<Rightarrow> bitstr_t" where
  "fill_bytes v name i stopbyte =
     (if i < stopbyte then fill_bytes v (name[i := v]) (i + 1) stopbyte else name)"
  by auto
termination by (relation "measure (\<lambda>(v, name, i, stopbyte). stopbyte - i)") auto

declare fill_bytes.simps [simp del]

text \<open>
  The compound assignments compute in \<^verbatim>\<open>int\<close> and store the low byte; the 32-bit words below are
  those intermediate values.
\<close>

definition shr_ff :: "nat \<Rightarrow> u32" where
  "shr_ff k = drop_bit k 255"

definition shl_ff :: "nat \<Rightarrow> u32" where
  "shl_ff k = push_bit k 255"

definition and_byte :: "byte \<Rightarrow> u32 \<Rightarrow> byte" where
  "and_byte b m = ucast (ucast b AND m)"

definition or_byte :: "byte \<Rightarrow> u32 \<Rightarrow> byte" where
  "or_byte b m = ucast (ucast b OR m)"

definition bit_nclear :: "bitstr_t \<Rightarrow> nat \<Rightarrow> nat \<Rightarrow> bitstr_t" where
  "bit_nclear name start stop =
     (let startbyte = bit_byte start; stopbyte = bit_byte stop;
          lo = shr_ff (8 - (start AND 7)); hi = shl_ff ((stop AND 7) + 1)
      in if startbyte = stopbyte
         then name[startbyte := and_byte (name ! startbyte) (lo OR hi)]
         else let name = name[startbyte := and_byte (name ! startbyte) lo];
                  name = fill_bytes 0 name (startbyte + 1) stopbyte
              in name[stopbyte := and_byte (name ! stopbyte) hi])"

definition bit_nset :: "bitstr_t \<Rightarrow> nat \<Rightarrow> nat \<Rightarrow> bitstr_t" where
  "bit_nset name start stop =
     (let startbyte = bit_byte start; stopbyte = bit_byte stop;
          hi = shl_ff (start AND 7); lo = shr_ff (7 - (stop AND 7))
      in if startbyte = stopbyte
         then name[startbyte := or_byte (name ! startbyte) (hi AND lo)]
         else let name = name[startbyte := or_byte (name ! startbyte) hi];
                  name = fill_bytes 255 name (startbyte + 1) stopbyte
              in name[stopbyte := or_byte (name ! stopbyte) lo])"

text \<open>
  The searches.  The inner loops shift the byte until its lowest bit is 0 (\<^verbatim>\<open>bit_ffc\<close>) or 1
  (\<^verbatim>\<open>bit_ffs\<close>, entered with a byte that is not 0).  A byte outside the array is \<^const>\<open>None\<close>; no bit
  found is \<open>Some (- 1)\<close>.
\<close>

function count_ones :: "int \<Rightarrow> nat \<Rightarrow> int" where
  "count_ones value b = (if odd b then count_ones (value + 1) (b div 2) else value)"
  by auto
termination by (relation "measure snd") (auto elim: oddE)

function count_zeros :: "int \<Rightarrow> nat \<Rightarrow> int" where
  "count_zeros value b = (if even b \<and> b \<noteq> 0 then count_zeros (value + 1) (b div 2) else value)"
  by auto
termination by (relation "measure snd") auto

declare count_ones.simps [simp del] count_zeros.simps [simp del]

function ffc_from :: "bitstr_t \<Rightarrow> nat \<Rightarrow> nat \<Rightarrow> int option" where
  "ffc_from name i stopbyte =
     (if stopbyte < i then Some (- 1)
      else if length name \<le> i then None
      else if name ! i \<noteq> 255 then Some (count_ones (8 * int i) (unat (name ! i)))
      else ffc_from name (i + 1) stopbyte)"
  by auto
termination by (relation "measure (\<lambda>(name, i, stopbyte). stopbyte + 1 - i)") auto

function ffs_from :: "bitstr_t \<Rightarrow> nat \<Rightarrow> nat \<Rightarrow> int option" where
  "ffs_from name i stopbyte =
     (if stopbyte < i then Some (- 1)
      else if length name \<le> i then None
      else if name ! i \<noteq> 0 then Some (count_zeros (8 * int i) (unat (name ! i)))
      else ffs_from name (i + 1) stopbyte)"
  by auto
termination by (relation "measure (\<lambda>(name, i, stopbyte). stopbyte + 1 - i)") auto

declare ffc_from.simps [simp del] ffs_from.simps [simp del]

definition bit_ffc :: "bitstr_t \<Rightarrow> nat \<Rightarrow> int option" where
  "bit_ffc name nbits = ffc_from name 0 (bit_byte nbits)"

definition bit_ffs :: "bitstr_t \<Rightarrow> nat \<Rightarrow> int option" where
  "bit_ffs name nbits = ffs_from name 0 (bit_byte nbits)"

section \<open>Bits of the byte operations\<close>

lemma bit_byte_div: "bit_byte n = n div 8"
  by (simp add: bit_byte_def drop_bit_eq_div)

lemma and_7_mod: "(n::nat) AND 7 = n mod 8"
  using take_bit_eq_mod [of 3 n] take_bit_eq_mask [of 3 n] by (simp add: mask_eq_exp_minus_1)

lemma bit_mask_of_exp: "bit_mask_of n = 2 ^ (n mod 8)"
  by (simp add: bit_mask_of_def and_7_mod)

lemma bit_test_bit: "bit_test name n = bit (name ! (n div 8)) (n mod 8)"
  by (simp add: bit_test_def bit_byte_div bit_mask_of_exp and_exp_eq_0_iff_not_bit)

lemma bit_255: "bit (255 :: 'a::len word) j \<longleftrightarrow> j < 8 \<and> j < LENGTH('a)"
proof -
  have "(255 :: 'a word) = mask 8" by (simp add: mask_eq_exp_minus_1)
  then show ?thesis by (simp only: bit_mask_iff) auto
qed

lemma bit_and_byte: "j < 8 \<Longrightarrow> bit (and_byte b m) j \<longleftrightarrow> bit b j \<and> bit m j"
  by (simp add: and_byte_def bit_simps)

lemma bit_or_byte: "j < 8 \<Longrightarrow> bit (or_byte b m) j \<longleftrightarrow> bit b j \<or> bit m j"
  by (simp add: or_byte_def bit_simps)

lemma bit_shr_ff: "k \<le> 8 \<Longrightarrow> j < 8 \<Longrightarrow> bit (shr_ff k) j \<longleftrightarrow> j + k < 8"
  unfolding shr_ff_def bit_drop_bit_eq o_apply bit_255 by auto

lemma bit_shl_ff: "j < 8 \<Longrightarrow> bit (shl_ff k) j \<longleftrightarrow> k \<le> j"
  unfolding shl_ff_def bit_push_bit_iff bit_255 by auto

lemmas byte_bits = bit_and_byte bit_or_byte bit_shr_ff bit_shl_ff bit_and_iff bit_or_iff

lemma fill_bytes_length [simp]: "length (fill_bytes v name i j) = length name"
  by (induction v name i j rule: fill_bytes.induct) (subst fill_bytes.simps, simp)

lemma fill_bytes_nth:
  "j \<le> length name \<Longrightarrow> k < length name \<Longrightarrow>
   fill_bytes v name i j ! k = (if i \<le> k \<and> k < j then v else name ! k)"
proof (induction v name i j rule: fill_bytes.induct)
  case (1 v name i j)
  show ?case
  proof (cases "i < j")
    case True
    then have "fill_bytes v name i j ! k = fill_bytes v (name[i := v]) (i + 1) j ! k"
      by (subst fill_bytes.simps) simp
    also have "\<dots> = (if i + 1 \<le> k \<and> k < j then v else name[i := v] ! k)"
      using 1 True by simp
    finally show ?thesis using 1 True by (auto simp: nth_list_update)
  qed (auto simp: fill_bytes.simps)
qed

section \<open>Bit strings as sets\<close>

lemma same_position: "n div 8 = m div 8 \<Longrightarrow> n mod 8 = m mod 8 \<longleftrightarrow> (n::nat) = m"
  by (metis div_mult_mod_eq)

lemma bit_length [simp]:
  "length (bit_set b i) = length b" "length (bit_clear b i) = length b"
  "length (bit_nclear b i j) = length b" "length (bit_nset b i j) = length b"
  by (simp_all add: bit_set_def bit_clear_def bit_nclear_def bit_nset_def Let_def)

lemma bit_test_set:
  assumes "i < 8 * length b" "j < 8 * length b"
  shows "bit_test (bit_set b i) j \<longleftrightarrow> j = i \<or> bit_test b j"
proof (cases "i div 8 = j div 8")
  case True
  moreover have "i div 8 < length b" "j div 8 < length b" using assms by linarith+
  ultimately show ?thesis
    using same_position [OF True]
    by (auto simp: bit_test_bit bit_set_def bit_byte_div bit_mask_of_exp bit_or_iff bit_exp_iff)
qed (auto simp: bit_test_bit bit_set_def bit_byte_div)

lemma bit_test_clear:
  assumes "i < 8 * length b" "j < 8 * length b"
  shows "bit_test (bit_clear b i) j \<longleftrightarrow> j \<noteq> i \<and> bit_test b j"
proof (cases "i div 8 = j div 8")
  case True
  moreover have "i div 8 < length b" "j div 8 < length b" using assms by linarith+
  ultimately show ?thesis
    using same_position [OF True]
    by (auto simp: bit_test_bit bit_clear_def bit_byte_div bit_mask_of_exp bit_and_iff bit_not_iff
        bit_exp_iff)
qed (auto simp: bit_test_bit bit_clear_def bit_byte_div)

lemma nat_le_div8: "(a::nat) \<le> j \<longleftrightarrow> a div 8 < j div 8 \<or> a div 8 = j div 8 \<and> a mod 8 \<le> j mod 8"
proof -
  define p q where "p = a div 8" and "q = j div 8"
  have "a = 8 * p + a mod 8" "j = 8 * q + j mod 8" "a mod 8 < 8" "j mod 8 < 8"
    by (simp_all add: p_def q_def)
  then show ?thesis unfolding p_def [symmetric] q_def [symmetric] by linarith
qed

lemma bit_test_nclear:
  assumes "start \<le> stop" "stop < 8 * length b" "j < 8 * length b"
  shows "bit_test (bit_nclear b start stop) j \<longleftrightarrow> \<not> (start \<le> j \<and> j \<le> stop) \<and> bit_test b j"
proof -
  define s t q where "s = start div 8" and "t = stop div 8" and "q = j div 8"
  define s' t' q' where "s' = start mod 8" and "t' = stop mod 8" and "q' = j mod 8"
  have l: "s \<le> t" "t < length b" "q < length b" using assms by (auto simp: s_def t_def q_def)
  have m: "s' < 8" "t' < 8" "q' < 8" by (simp_all add: s'_def t'_def q'_def)
  have c: "start \<le> j \<longleftrightarrow> s < q \<or> s = q \<and> s' \<le> q'" "j \<le> stop \<longleftrightarrow> q < t \<or> q = t \<and> q' \<le> t'"
    unfolding s_def t_def q_def s'_def t'_def q'_def by (rule nat_le_div8)+
  show ?thesis
    unfolding bit_test_bit bit_nclear_def Let_def bit_byte_div and_7_mod c
      s_def [symmetric] t_def [symmetric] q_def [symmetric]
      s'_def [symmetric] t'_def [symmetric] q'_def [symmetric]
    using l m
    by (auto simp: byte_bits nth_list_update fill_bytes_nth)
qed

lemma bit_test_nset:
  assumes "start \<le> stop" "stop < 8 * length b" "j < 8 * length b"
  shows "bit_test (bit_nset b start stop) j \<longleftrightarrow> (start \<le> j \<and> j \<le> stop) \<or> bit_test b j"
proof -
  define s t q where "s = start div 8" and "t = stop div 8" and "q = j div 8"
  define s' t' q' where "s' = start mod 8" and "t' = stop mod 8" and "q' = j mod 8"
  have l: "s \<le> t" "t < length b" "q < length b" using assms by (auto simp: s_def t_def q_def)
  have m: "s' < 8" "t' < 8" "q' < 8" by (simp_all add: s'_def t'_def q'_def)
  have c: "start \<le> j \<longleftrightarrow> s < q \<or> s = q \<and> s' \<le> q'" "j \<le> stop \<longleftrightarrow> q < t \<or> q = t \<and> q' \<le> t'"
    unfolding s_def t_def q_def s'_def t'_def q'_def by (rule nat_le_div8)+
  have ff: "bit (255 :: byte) q'" using m unfolding bit_255 by simp
  show ?thesis
    unfolding bit_test_bit bit_nset_def Let_def bit_byte_div and_7_mod c
      s_def [symmetric] t_def [symmetric] q_def [symmetric]
      s'_def [symmetric] t'_def [symmetric] q'_def [symmetric]
    using l m ff
    by (auto simp: byte_bits nth_list_update fill_bytes_nth)
qed

lemma bit_test_decl: "j < 8 * bitstr_size n \<Longrightarrow> \<not> bit_test (bit_decl n) j"
  by (simp add: bit_test_bit bit_decl_def less_mult_imp_div_less mult.commute)

lemma bit_decl_length: "length (bit_decl n) = bitstr_size n"
  by (simp add: bit_decl_def)

lemma bitstr_size_enough: "n \<le> 8 * bitstr_size n"
  unfolding bitstr_size_def drop_bit_eq_div by simp

section \<open>The interface of a set of numbers below a capacity\<close>

locale bit_set_spec =
  fixes test :: "'b \<Rightarrow> nat \<Rightarrow> bool" and ins :: "'b \<Rightarrow> nat \<Rightarrow> 'b"
    and nclr :: "'b \<Rightarrow> nat \<Rightarrow> nat \<Rightarrow> 'b" and cap :: "'b \<Rightarrow> nat"
  assumes cap_ins [simp]: "cap (ins b i) = cap b"
    and cap_nclr [simp]: "cap (nclr b i j) = cap b"
    and test_ins: "i < cap b \<Longrightarrow> j < cap b \<Longrightarrow> test (ins b i) j \<longleftrightarrow> j = i \<or> test b j"
    and test_nclr: "i \<le> k \<Longrightarrow> k < cap b \<Longrightarrow> j < cap b \<Longrightarrow>
      test (nclr b i k) j \<longleftrightarrow> \<not> (i \<le> j \<and> j \<le> k) \<and> test b j"
begin

lemma cap_ins_list [simp]: "cap (fold (\<lambda>i b. ins b i) xs b) = cap b"
  by (induction xs arbitrary: b) simp_all

lemma test_ins_list:
  "list_all (\<lambda>i. i < cap b) xs \<Longrightarrow> j < cap b \<Longrightarrow>
   test (fold (\<lambda>i b. ins b i) xs b) j \<longleftrightarrow> j \<in> set xs \<or> test b j"
  by (induction xs arbitrary: b) (auto simp: test_ins)

lemma test_reset:
  "lo \<le> hi \<Longrightarrow> hi < cap b \<Longrightarrow> list_all (\<lambda>i. i < cap b) xs \<Longrightarrow> lo \<le> j \<Longrightarrow> j \<le> hi \<Longrightarrow>
   test (fold (\<lambda>i b. ins b i) xs (nclr b lo hi)) j \<longleftrightarrow> j \<in> set xs"
  by (simp add: test_ins_list test_nclr)

end

interpretation bits: bit_set_spec bit_test bit_set bit_nclear "\<lambda>b. 8 * length b"
  by unfold_locales (simp_all add: bit_test_set bit_test_nclear)

section \<open>The searches\<close>

lemma count_zeros_bit:
  "b \<noteq> 0 \<Longrightarrow> \<exists>k. count_zeros v b = v + int k \<and> bit b k \<and> (\<forall>i<k. \<not> bit b i)"
proof (induction v b rule: count_zeros.induct)
  case (1 v b)
  show ?case
  proof (cases "even b")
    case True
    then have "b div 2 \<noteq> 0" using 1 by auto
    then obtain k where "count_zeros (v + 1) (b div 2) = v + 1 + int k" "bit (b div 2) k"
      "\<forall>i<k. \<not> bit (b div 2) i"
      using 1 True by auto
    moreover have "count_zeros v b = count_zeros (v + 1) (b div 2)"
      using 1 True by (subst count_zeros.simps) simp
    moreover have "\<not> bit b i" if "i < Suc k" for i
      using calculation(3) that True by (cases i) (simp_all add: bit_0 bit_Suc)
    ultimately show ?thesis
      by (intro exI [of _ "Suc k"]) (simp add: bit_Suc)
  qed (intro exI [of _ 0], simp add: count_zeros.simps bit_0)
qed

lemma count_ones_bit:
  "\<exists>k. count_ones v b = v + int k \<and> \<not> bit b k \<and> (\<forall>i<k. bit b i)"
proof (induction v b rule: count_ones.induct)
  case (1 v b)
  show ?case
  proof (cases "odd b")
    case True
    then obtain k where "count_ones (v + 1) (b div 2) = v + 1 + int k" "\<not> bit (b div 2) k"
      "\<forall>i<k. bit (b div 2) i"
      using 1 by auto
    moreover have "count_ones v b = count_ones (v + 1) (b div 2)"
      using True by (subst count_ones.simps) simp
    moreover have "bit b i" if "i < Suc k" for i
      using calculation(3) that True by (cases i) (simp_all add: bit_0 bit_Suc)
    ultimately show ?thesis
      by (intro exI [of _ "Suc k"]) (simp add: bit_Suc)
  qed (intro exI [of _ 0], simp add: count_ones.simps bit_0)
qed

lemma bit_unat: "bit (unat (w :: byte)) k \<longleftrightarrow> bit w k"
  by (simp add: bit_simps)

lemma bit_test_at: "k < 8 \<Longrightarrow> bit_test name (8 * i + k) \<longleftrightarrow> bit (name ! i) k"
  by (simp add: bit_test_bit)

lemma byte_ff_bits: "(w :: byte) = 255 \<longleftrightarrow> (\<forall>k<8. bit w k)"
proof
  assume "\<forall>k<8. bit w k"
  then have "bit w k \<longleftrightarrow> bit (255 :: byte) k" for k
    unfolding bit_255 using bit_imp_le_length [of w k] by auto
  then show "w = 255" by (rule bit_eqI)
next
  assume "w = 255"
  moreover have "bit (255 :: byte) k" if "k < 8" for k unfolding bit_255 using that by simp
  ultimately show "\<forall>k<8. bit w k" by blast
qed

lemma split_8: "j < 8 * i + k \<Longrightarrow> k < 8 \<Longrightarrow> j < 8 * i \<or> (\<exists>m<k. (j::nat) = 8 * i + m)"
  by (metis add_diff_inverse_nat nat_add_left_cancel_less)

lemma ffs_from_correct:
  assumes "stop < length name" "i \<le> Suc stop" "\<And>j. j < 8 * i \<Longrightarrow> \<not> bit_test name j"
  shows "(ffs_from name i stop = Some (- 1) \<and> (\<forall>j < 8 * Suc stop. \<not> bit_test name j)) \<or>
    (\<exists>n < 8 * Suc stop. ffs_from name i stop = Some (int n) \<and> bit_test name n
      \<and> (\<forall>j<n. \<not> bit_test name j))"
  using assms
proof (induction name i stop rule: ffs_from.induct)
  case (1 name i stop)
  consider "stop < i" | "i \<le> stop" "name ! i \<noteq> 0" | "i \<le> stop" "name ! i = 0" by linarith
  then show ?case
  proof cases
    case 1
    then have "i = Suc stop" using \<open>i \<le> Suc stop\<close> by simp
    then show ?thesis using "1.prems" by (simp add: ffs_from.simps)
  next
    case 2
    then have "unat (name ! i) \<noteq> 0" by (simp add: unat_eq_zero)
    then obtain k where k: "count_zeros (8 * int i) (unat (name ! i)) = 8 * int i + int k"
      "bit (name ! i) k" "\<And>m. m < k \<Longrightarrow> \<not> bit (name ! i) m"
      using count_zeros_bit [of "unat (name ! i)"] by (auto simp: bit_unat)
    have "k < 8" using bit_imp_le_length [OF k(2)] by simp
    have "\<not> bit_test name j" if "j < 8 * i + k" for j
      using split_8 [OF that \<open>k < 8\<close>] "1.prems"(3) k(3) \<open>k < 8\<close> by (auto simp: bit_test_at)
    moreover have "ffs_from name i stop = Some (int (8 * i + k))"
      using 2 "1.prems"(1) k(1) by (simp add: ffs_from.simps)
    moreover have "bit_test name (8 * i + k)" using k(2) \<open>k < 8\<close> by (simp add: bit_test_at)
    moreover have "8 * i + k < 8 * Suc stop" using 2 \<open>k < 8\<close> by simp
    ultimately show ?thesis by blast
  next
    case 3
    have "\<not> bit_test name j" if "j < 8 * (i + 1)" for j
    proof (cases "j < 8 * i")
      case False
      then have "j div 8 = i" using that by (auto intro: div_nat_eqI)
      then show ?thesis using 3 by (simp add: bit_test_bit)
    qed (use "1.prems"(3) in simp)
    moreover have "ffs_from name i stop = ffs_from name (i + 1) stop"
      using 3 "1.prems"(1) by (subst ffs_from.simps) simp
    ultimately show ?thesis using "1.IH" 3 "1.prems"(1) by simp
  qed
qed

lemma ffc_from_correct:
  assumes "stop < length name" "i \<le> Suc stop" "\<And>j. j < 8 * i \<Longrightarrow> bit_test name j"
  shows "(ffc_from name i stop = Some (- 1) \<and> (\<forall>j < 8 * Suc stop. bit_test name j)) \<or>
    (\<exists>n < 8 * Suc stop. ffc_from name i stop = Some (int n) \<and> \<not> bit_test name n
      \<and> (\<forall>j<n. bit_test name j))"
  using assms
proof (induction name i stop rule: ffc_from.induct)
  case (1 name i stop)
  consider "stop < i" | "i \<le> stop" "name ! i \<noteq> 255" | "i \<le> stop" "name ! i = 255" by linarith
  then show ?case
  proof cases
    case 1
    then have "i = Suc stop" using \<open>i \<le> Suc stop\<close> by simp
    then show ?thesis using "1.prems" by (simp add: ffc_from.simps)
  next
    case 2
    obtain k where k: "count_ones (8 * int i) (unat (name ! i)) = 8 * int i + int k"
      "\<not> bit (name ! i) k" "\<And>m. m < k \<Longrightarrow> bit (name ! i) m"
      using count_ones_bit [of "8 * int i" "unat (name ! i)"] by (auto simp: bit_unat)
    have "k < 8" using 2 k(3) byte_ff_bits [of "name ! i"] by (meson less_le_trans not_le)
    have "bit_test name j" if "j < 8 * i + k" for j
      using split_8 [OF that \<open>k < 8\<close>] "1.prems"(3) k(3) \<open>k < 8\<close> by (auto simp: bit_test_at)
    moreover have "ffc_from name i stop = Some (int (8 * i + k))"
      using 2 "1.prems"(1) k(1) by (simp add: ffc_from.simps)
    moreover have "\<not> bit_test name (8 * i + k)" using k(2) \<open>k < 8\<close> by (simp add: bit_test_at)
    moreover have "8 * i + k < 8 * Suc stop" using 2 \<open>k < 8\<close> by simp
    ultimately show ?thesis by blast
  next
    case 3
    have "bit_test name j" if "j < 8 * (i + 1)" for j
    proof (cases "j < 8 * i")
      case False
      then have "j div 8 = i" using that by (auto intro: div_nat_eqI)
      then show ?thesis using 3 byte_ff_bits [of "name ! i"] by (simp add: bit_test_bit)
    qed (use "1.prems"(3) in simp)
    moreover have "ffc_from name i stop = ffc_from name (i + 1) stop"
      using 3 "1.prems"(1) by (subst ffc_from.simps) simp
    ultimately show ?thesis using "1.IH" 3 "1.prems"(1) by simp
  qed
qed

section \<open>Properties\<close>

text \<open>The set a bit string stands for.\<close>

definition bits_of :: "bitstr_t \<Rightarrow> nat set" where
  "bits_of b = {j. j < 8 * length b \<and> bit_test b j}"

text \<open>
  C15. The bit-string macros refine finite sets: on every bit string and for bits inside its storage,
  setting and clearing one bit, clearing a range and setting a range are insertion, removal,
  difference and union, whatever bytes the range spans, and a declared string is the empty set.
\<close>

theorem bitstring_refines_set:
  assumes "i < 8 * length b" and "start \<le> stop" and "stop < 8 * length b"
  shows "bits_of (bit_set b i) = insert i (bits_of b)
    \<and> bits_of (bit_clear b i) = bits_of b - {i}
    \<and> bits_of (bit_nclear b start stop) = bits_of b - {start..stop}
    \<and> bits_of (bit_nset b start stop) = bits_of b \<union> {start..stop}
    \<and> bits_of (bit_decl n) = {}"
  using assms
  by (auto simp: bits_of_def bit_test_set bit_test_clear bit_test_nclear bit_test_nset
      bit_decl_length bit_test_decl)

theorem bitstring_refines_set_witness:
  "bits_of (bit_nset [1, 0, 128] 5 18) = bits_of [1, 0, 128] \<union> {5..18}
   \<and> bits_of (bit_nclear [255, 255, 255] 3 21) = bits_of [255, 255, 255] - {3..21}"
  using bitstring_refines_set [of 0 "[1, 0, 128]" 5 18 1]
    bitstring_refines_set [of 0 "[255, 255, 255]" 3 21 1] by simp

text \<open>
  For a string of \<open>nbits\<close> bits, \<open>nbits\<close> not a multiple of 8, the searches terminate inside the
  storage and find the smallest member and the smallest non-member of the set, or report -1 when
  there is none in the storage.
\<close>

theorem bit_search_correct:
  assumes "length b = bitstr_size nbits" and "nbits mod 8 \<noteq> 0"
  shows "bit_ffs b nbits =
      Some (if bits_of b = {} then - 1 else int (LEAST j. j \<in> bits_of b))
    \<and> bit_ffc b nbits =
      Some (if bits_of b = {..< 8 * length b} then - 1 else int (LEAST j. j \<notin> bits_of b))"
proof -
  have len: "length b = Suc (bit_byte nbits)"
  proof -
    have "(nbits - 1) div 8 = nbits div 8" using assms(2) by (cases nbits) (auto simp: div_Suc)
    then show ?thesis using assms(1) by (simp add: bitstr_size_def drop_bit_eq_div bit_byte_div)
  qed
  have "bit_ffs b nbits = Some (if bits_of b = {} then - 1 else int (LEAST j. j \<in> bits_of b))"
    using ffs_from_correct [of "bit_byte nbits" b 0, simplified len, simplified]
    unfolding bit_ffs_def
  proof (elim disjE exE conjE, goal_cases)
    case (2 n)
    then have "(LEAST j. j \<in> bits_of b) = n"
      by (intro Least_equality) (auto simp: bits_of_def len intro: leI)
    with 2 show ?case by (auto simp: bits_of_def len)
  qed (auto simp: bits_of_def len)
  moreover have "bit_ffc b nbits =
      Some (if bits_of b = {..< 8 * length b} then - 1 else int (LEAST j. j \<notin> bits_of b))"
    using ffc_from_correct [of "bit_byte nbits" b 0, simplified len, simplified]
    unfolding bit_ffc_def
  proof (elim disjE exE conjE, goal_cases)
    case (2 n)
    then have "(LEAST j. j \<notin> bits_of b) = n"
      by (intro Least_equality) (auto simp: bits_of_def len intro: leI)
    moreover have "bits_of b \<noteq> {..< 8 * length b}" using 2 by (auto simp: bits_of_def len)
    ultimately show ?case using 2 by simp
  qed (auto simp: bits_of_def len)
  ultimately show ?thesis by blast
qed

theorem bit_search_correct_witness:
  "bit_ffs [0, 40] 13 =
      Some (if bits_of [0, 40] = {} then - 1 else int (LEAST j. j \<in> bits_of [0, 40]))
   \<and> bit_ffs [0, 40] 13 = Some 11"
proof -
  have "length [0, 40 :: byte] = bitstr_size 13" by code_simp
  then have "bit_ffs [0, 40] 13 =
      Some (if bits_of [0, 40] = {} then - 1 else int (LEAST j. j \<in> bits_of [0, 40]))"
    using bit_search_correct [of "[0, 40]" 13] by simp
  moreover have "bit_ffs [0, 40] 13 = Some 11" by code_simp
  ultimately show ?thesis by blast
qed

text \<open>
  When \<open>nbits\<close> is a multiple of 8 the searches do not stop at the end of the storage that
  \<^verbatim>\<open>bit_decl\<close> reserves: on a string with no bit set, \<^verbatim>\<open>bit_ffs\<close> reads the byte after it.
\<close>

theorem bit_ffs_overrun: "nbits mod 8 = 0 \<and> 0 < nbits \<longrightarrow> bit_ffs (bit_decl nbits) nbits = None"
proof (intro impI)
  assume n: "nbits mod 8 = 0 \<and> 0 < nbits"
  have "(nbits - 1) div 8 = nbits div 8 - 1" using n by (cases nbits) (auto simp: div_Suc)
  moreover have "0 < nbits div 8" using n by auto
  ultimately have len: "length (bit_decl nbits) = bit_byte nbits"
    by (simp add: bit_decl_def bitstr_size_def drop_bit_eq_div bit_byte_div)
  have "i \<le> k \<Longrightarrow> ffs_from (replicate k 0) i k = None" for i k
  proof (induction "k - i" arbitrary: i)
    case (Suc d)
    then show ?case by (subst ffs_from.simps) simp
  qed (simp add: ffs_from.simps)
  from this [of 0] len show "bit_ffs (bit_decl nbits) nbits = None"
    by (simp add: bit_ffs_def bit_decl_def)
qed

theorem bit_ffs_overrun_witness: "bit_ffs (bit_decl 24) 24 = None"
  using bit_ffs_overrun [of 24] by simp

end
