(* ===== verification/Crontab_Field.thy ===== *)
theory Crontab_Field
  imports Bitstring
begin

text \<open>
  The time fields of a crontab line: \<^verbatim>\<open>loc_string\<close> and \<^verbatim>\<open>decode_elem\<close> of \<^verbatim>\<open>cron/cron.c\<close>, an abstract
  syntax of fields with its printer, and the proof that the decoder sets exactly the bits a printed
  field denotes, touches no others and rejects values out of range.
\<close>

section \<open>Decoding\<close>

text \<open>
  \<^verbatim>\<open>strncasecmp(s, abbr, 3) == 0\<close>; every abbreviation has three letters.  The result is the index (or
  -1) and the advanced pointer.
\<close>

definition same3 :: "string \<Rightarrow> string \<Rightarrow> bool" where
  "same3 s abbr \<longleftrightarrow> map tolower (take 3 s) = map tolower (take 3 abbr)"

fun loc_string_from :: "int \<Rightarrow> string \<Rightarrow> string list \<Rightarrow> int \<times> string" where
  "loc_string_from i s [] = (- 1, s)"
| "loc_string_from i s (a # abbrs) =
     (if same3 s a then (i, drop 3 s) else loc_string_from (i + 1) s abbrs)"

definition loc_string :: "string \<Rightarrow> string list \<Rightarrow> int \<times> string" where
  "loc_string s abbrs = loc_string_from 0 s abbrs"

text \<open>One number or name with its checks: the value and what follows it.\<close>

definition starts_with :: "(char \<Rightarrow> bool) \<Rightarrow> string \<Rightarrow> bool" where
  "starts_with P s \<longleftrightarrow> s \<noteq> [] \<and> P (hd s)"

definition decode_val :: "nat \<Rightarrow> string list option \<Rightarrow> int \<Rightarrow> int \<Rightarrow> string \<Rightarrow> (int \<times> string) option" where
  "decode_val nbits abbrs zerov base str =
     (case (if starts_with isdigit str then Some (strtol10 str)
            else map_option (loc_string str) abbrs) of
        None \<Rightarrow> None
      | Some (v, str) \<Rightarrow>
          (let v = (if v = zerov then 0 else v)
           in if v < base \<or> v \<ge> int nbits then None else Some (v, str)))"

text \<open>The range before the optional step: first value, last value, rest of the text.\<close>

definition decode_range :: "nat \<Rightarrow> string list option \<Rightarrow> int \<Rightarrow> int \<Rightarrow> string \<Rightarrow> (int \<times> int \<times> string) option" where
  "decode_range nbits abbrs zerov base str =
     (if starts_with (\<lambda>c. c = CHR ''*'') str then Some (base, int nbits - 1, tl str)
      else case decode_val nbits abbrs zerov base str of
             None \<Rightarrow> None
           | Some (sval, str) \<Rightarrow>
               (if starts_with (\<lambda>c. c = CHR ''-'') str
                then case decode_val nbits abbrs zerov base (tl str) of
                       None \<Rightarrow> None
                     | Some (eval, str) \<Rightarrow>
                         (if eval < sval then Some (eval, sval, str) else Some (sval, eval, str))
                else Some (sval, sval, str)))"

definition decode_step :: "int \<Rightarrow> int \<Rightarrow> string \<Rightarrow> int option" where
  "decode_step sval eval str =
     (if starts_with (\<lambda>c. c = CHR ''/'') str
      then (if \<not> starts_with isdigit (tl str) then None
            else let step = atoi (tl str)
                 in if step \<le> 0 \<or> step > eval - sval then None else Some step)
      else Some 1)"

text \<open>\<^verbatim>\<open>for (i=sval; i<=eval; i += step) bit_set(bits, i)\<close>; the step is positive.\<close>

function set_steps :: "bitstr_t \<Rightarrow> int \<Rightarrow> int \<Rightarrow> int \<Rightarrow> bitstr_t" where
  "set_steps bits i eval step =
     (if i \<le> eval \<and> 0 < step then set_steps (bit_set bits (nat i)) (i + step) eval step else bits)"
  by auto
termination by (relation "measure (\<lambda>(bits, i, eval, step). nat (eval + 1 - i))") auto

declare set_steps.simps [simp del]

lemma after_comma_shorter: "s \<noteq> [] \<Longrightarrow> length (drop 1 (dropWhile P s)) < length s"
  using length_dropWhile_le [of P s] by (cases s) (auto simp del: length_dropWhile_le)

text \<open>The list of comma-separated parts; \<^verbatim>\<open>strchr(str, ',')\<close> splits off the first.\<close>

function decode_parts :: "nat \<Rightarrow> string list option \<Rightarrow> int \<Rightarrow> int \<Rightarrow> string \<Rightarrow> bitstr_t \<Rightarrow> bool \<times> bitstr_t" where
  "decode_parts nbits abbrs zerov base str bits =
     (if str = [] then (True, bits)
      else let part = takeWhile (\<lambda>c. c \<noteq> CHR '','') str;
               p = drop 1 (dropWhile (\<lambda>c. c \<noteq> CHR '','') str)
           in case decode_range nbits abbrs zerov base part of
                None \<Rightarrow> (False, bits)
              | Some (sval, eval, rest) \<Rightarrow>
                  (case decode_step sval eval rest of
                     None \<Rightarrow> (False, bits)
                   | Some step \<Rightarrow>
                       decode_parts nbits abbrs zerov base p (set_steps bits sval eval step)))"
  by auto
termination
  by (relation "measure (\<lambda>(nbits, abbrs, zerov, base, str, bits). length str)")
    (auto simp: after_comma_shorter [unfolded One_nat_def] simp del: length_drop)

declare decode_parts.simps [simp del]

text \<open>\<^verbatim>\<open>NULL\<close> is \<^const>\<open>None\<close>; the bits are returned beside the success flag.\<close>

definition decode_elem :: "string option \<Rightarrow> nat \<Rightarrow> string list option \<Rightarrow> bitstr_t \<Rightarrow> int \<Rightarrow> bool \<times> bitstr_t" where
  "decode_elem str nbits abbrs bits zerov =
     (case str of
        None \<Rightarrow> (False, bits)
      | Some s \<Rightarrow>
          (let base = (if zerov < 0 then 1 else 0 :: int)
           in decode_parts nbits abbrs zerov base s (bit_nclear bits (nat base) (nbits - 1))))"

text \<open>The name tables of \<^verbatim>\<open>decode_line\<close>.\<close>

definition month_names :: "string list" where
  "month_names = [''xxx'', ''jan'', ''feb'', ''mar'', ''apr'', ''may'', ''jun'',
                  ''jul'', ''aug'', ''sep'', ''oct'', ''nov'', ''dec'']"

definition day_names :: "string list" where
  "day_names = [''sun'', ''mon'', ''tue'', ''wed'', ''thu'', ''fri'', ''sat'']"

section \<open>Every access lies inside the field\<close>

lemma decode_val_bounds:
  "decode_val nbits abbrs zerov base str = Some (v, rest) \<Longrightarrow> base \<le> v \<and> v < int nbits"
  by (auto simp: decode_val_def Let_def split: option.splits if_splits)

lemma decode_range_bounds:
  assumes "decode_range nbits abbrs zerov base str = Some (sval, eval, rest)"
    and "base \<le> int nbits - 1"
  shows "base \<le> sval \<and> sval \<le> eval \<and> eval < int nbits"
  using assms
  by (auto simp: decode_range_def split: option.splits if_splits dest!: decode_val_bounds)

lemma decode_step_pos: "decode_step sval eval str = Some step \<Longrightarrow> 0 < step"
  by (auto simp: decode_step_def Let_def split: if_splits)

fun steps :: "int \<Rightarrow> nat \<Rightarrow> int \<Rightarrow> nat list" where
  "steps i 0 step = []"
| "steps i (Suc n) step = nat i # steps (i + step) n step"

definition step_list :: "int \<Rightarrow> int \<Rightarrow> int \<Rightarrow> nat list" where
  "step_list sval eval step = steps sval (nat ((eval - sval) div step + 1)) step"

lemma step_list_rec:
  assumes "0 < step"
  shows "step_list i eval step = (if i \<le> eval then nat i # step_list (i + step) eval step else [])"
proof -
  have d: "(eval - (i + step)) div step = (eval - i) div step - 1"
    using assms div_add_self2 [of step "eval - i - step"] by (simp add: algebra_simps)
  show ?thesis
  proof (cases "i \<le> eval")
    case True
    then have "0 \<le> (eval - i) div step" using assms by (simp add: pos_imp_zdiv_nonneg_iff)
    then have "nat ((eval - i) div step + 1) = Suc (nat ((eval - (i + step)) div step + 1))"
      using d by simp
    with True show ?thesis by (simp add: step_list_def)
  next
    case False
    then have "(eval - i) div step < 0" using assms by (simp add: pos_imp_zdiv_neg_iff)
    with False show ?thesis by (simp add: step_list_def)
  qed
qed

lemma set_steps_fold:
  "0 < step \<Longrightarrow> set_steps bits i eval step = fold (\<lambda>i b. bit_set b i) (step_list i eval step) bits"
proof (induction bits i eval step rule: set_steps.induct)
  case (1 bits i eval step)
  then show ?case
    by (subst set_steps.simps, subst step_list_rec) (simp_all add: step_list_rec)
qed

lemma set_step_list:
  assumes "0 < step" "0 \<le> sval"
  shows "set (step_list sval eval step) = {j. \<exists>k. int j = sval + int k * step \<and> int j \<le> eval}"
proof -
  have s: "set (steps i n step) = {j. \<exists>k<n. j = nat (i + int k * step)}" for i n
  proof (induction n arbitrary: i)
    case (Suc n)
    have "{j. \<exists>k<Suc n. j = nat (i + int k * step)}
        = insert (nat i) {j. \<exists>k<n. j = nat (i + step + int k * step)}"
      by (auto simp: less_Suc_eq_0_disj algebra_simps)
    with Suc show ?case by simp
  qed simp
  have k: "k < nat ((eval - sval) div step + 1) \<longleftrightarrow> sval + int k * step \<le> eval" for k
  proof -
    have "int k \<le> (eval - sval) div step \<longleftrightarrow> int k * step \<le> eval - sval"
    proof
      assume "int k \<le> (eval - sval) div step"
      then have "int k * step \<le> (eval - sval) div step * step"
        using assms(1) by (simp add: mult_right_mono)
      also have "\<dots> \<le> eval - sval" using assms(1) using pos_mod_sign [of step "eval - sval"]
        by (simp add: div_mult_mod_eq minus_mod_eq_div_mult [symmetric])
      finally show "int k * step \<le> eval - sval" .
    next
      assume "int k * step \<le> eval - sval"
      then have "int k * step div step \<le> (eval - sval) div step"
        using assms(1) by (rule zdiv_mono1)
      with assms(1) show "int k \<le> (eval - sval) div step" by simp
    qed
    then show ?thesis by linarith
  qed
  have "0 \<le> sval + int k * step" for k using assms by simp
  then have "j = nat (sval + int k * step) \<longleftrightarrow> int j = sval + int k * step" for j k
    by (auto simp: nat_eq_iff2 simp del: nat_add_distrib)
  then show ?thesis
    unfolding step_list_def s k by auto
qed

lemma steps_bounded:
  "0 < step \<Longrightarrow> 0 \<le> base \<Longrightarrow> base \<le> sval \<Longrightarrow> eval < int nbits \<Longrightarrow>
   list_all (\<lambda>i. base \<le> int i \<and> i < nbits) (step_list sval eval step)"
proof -
  assume a: "0 < step" "0 \<le> base" "base \<le> sval" "eval < int nbits"
  then have "base \<le> sval + int k * step" for k using mult_nonneg_nonneg [of "int k" step] by linarith
  with a show ?thesis by (auto simp: list_all_iff set_step_list)
qed

lemma decode_parts_accesses:
  assumes "0 \<le> base" "base \<le> int nbits - 1"
  shows "\<exists>xs. snd (decode_parts nbits abbrs zerov base str bits) = fold (\<lambda>i b. bit_set b i) xs bits
    \<and> list_all (\<lambda>i. base \<le> int i \<and> i < nbits) xs"
  using assms
proof (induction nbits abbrs zerov base str bits rule: decode_parts.induct)
  case (1 nbits abbrs zerov base str bits)
  let ?part = "takeWhile (\<lambda>c. c \<noteq> CHR '','') str"
  let ?p = "drop 1 (dropWhile (\<lambda>c. c \<noteq> CHR '','') str)"
  show ?case
  proof (cases "\<exists>sval eval rest step. str \<noteq> [] \<and>
      decode_range nbits abbrs zerov base ?part = Some (sval, eval, rest) \<and>
      decode_step sval eval rest = Some step")
    case True
    then obtain sval eval rest step where t: "str \<noteq> []"
      "decode_range nbits abbrs zerov base ?part = Some (sval, eval, rest)"
      "decode_step sval eval rest = Some step" by blast
    have b: "base \<le> sval \<and> sval \<le> eval \<and> eval < int nbits" "0 < step"
      using decode_range_bounds [OF t(2) "1.prems"(2)] decode_step_pos [OF t(3)] by auto
    obtain xs where xs: "snd (decode_parts nbits abbrs zerov base ?p (set_steps bits sval eval step))
        = fold (\<lambda>i b. bit_set b i) xs (set_steps bits sval eval step)"
      "list_all (\<lambda>i. base \<le> int i \<and> i < nbits) xs"
      using "1.IH" [OF t(1) refl refl t(2) refl refl t(3)] "1.prems" by blast
    show ?thesis
      using xs t b steps_bounded [OF b(2) "1.prems"(1), of sval eval nbits]
      by (subst decode_parts.simps)
        (auto intro!: exI [of _ "step_list sval eval step @ xs"] simp: set_steps_fold)
  next
    case False
    then have "snd (decode_parts nbits abbrs zerov base str bits) = bits"
      by (subst decode_parts.simps) (auto simp: Let_def split: option.splits)
    then show ?thesis by (intro exI [of _ "[]"]) simp
  qed
qed

section \<open>Fields as abstract syntax\<close>

datatype span = All | One nat | Span nat nat

type_synonym item = "span \<times> nat option"

fun print_span :: "span \<Rightarrow> string" where
  "print_span All = ''*''"
| "print_span (One n) = show_nat n"
| "print_span (Span a b) = show_nat a @ CHR ''-'' # show_nat b"

fun print_item :: "item \<Rightarrow> string" where
  "print_item (s, None) = print_span s"
| "print_item (s, Some k) = print_span s @ CHR ''/'' # show_nat k"

fun print_items :: "item list \<Rightarrow> string" where
  "print_items [] = []"
| "print_items [i] = print_item i"
| "print_items (i # is) = print_item i @ CHR '','' # print_items is"

fun span_lo :: "nat \<Rightarrow> span \<Rightarrow> nat" where
  "span_lo base All = base"
| "span_lo base (One n) = n"
| "span_lo base (Span a b) = a"

fun span_hi :: "nat \<Rightarrow> span \<Rightarrow> nat" where
  "span_hi nbits All = nbits - 1"
| "span_hi nbits (One n) = n"
| "span_hi nbits (Span a b) = b"

fun item_step :: "item \<Rightarrow> nat" where
  "item_step (s, None) = 1"
| "item_step (s, Some k) = k"

fun item_ok :: "nat \<Rightarrow> nat \<Rightarrow> item \<Rightarrow> bool" where
  "item_ok nbits base (s, k) \<longleftrightarrow> base \<le> span_lo base s \<and> span_lo base s \<le> span_hi nbits s
     \<and> span_hi nbits s < nbits
     \<and> (case k of None \<Rightarrow> True | Some k \<Rightarrow> 0 < k \<and> k \<le> span_hi nbits s - span_lo base s)"

fun item_set :: "nat \<Rightarrow> nat \<Rightarrow> item \<Rightarrow> nat set" where
  "item_set nbits base (s, k) =
     {j. span_lo base s \<le> j \<and> j \<le> span_hi nbits s \<and> item_step (s, k) dvd (j - span_lo base s)}"

lemma digit_neq:
  "isdigit c \<Longrightarrow> c \<noteq> CHR '',''" "isdigit c \<Longrightarrow> c \<noteq> CHR ''*''" "isdigit c \<Longrightarrow> c \<noteq> CHR ''-''"
  "isdigit c \<Longrightarrow> c \<noteq> CHR ''/''" "isdigit c \<Longrightarrow> c \<noteq> SP" "isdigit c \<Longrightarrow> c \<noteq> TAB"
  by (auto simp: isdigit_def)

lemma in_show_nat: "c \<in> set (show_nat n) \<Longrightarrow> isdigit c"
  using show_nat_digits [of n] by (simp add: list_all_iff)

lemma starts_show_nat: "starts_with isdigit (show_nat n @ rest)"
  using hd_show_nat_digit [of n] by (simp add: starts_with_def)

lemma not_starts_show_nat:
  "\<not> starts_with (\<lambda>c. c = CHR ''*'') (show_nat n @ rest)"
  using hd_show_nat_digit [of n] digit_neq(2) by (auto simp: starts_with_def)

lemma print_item_chars:
  "c \<in> set (print_item i) \<Longrightarrow> isdigit c \<or> c \<in> {CHR ''*'', CHR ''-'', CHR ''/''}"
  by (cases i rule: print_item.cases; cases "fst i") (auto dest: in_show_nat)

lemma print_item_no_comma: "\<forall>c \<in> set (print_item i). c \<noteq> CHR '',''"
  using print_item_chars [of _ i] digit_neq(1) by fastforce

lemma print_item_not_Nil [simp]: "print_item i \<noteq> []"
  by (cases i rule: print_item.cases; cases "fst i") auto

lemma takeWhile_item:
  "takeWhile (\<lambda>c. c \<noteq> CHR '','') (print_item i @ CHR '','' # rest) = print_item i"
  "dropWhile (\<lambda>c. c \<noteq> CHR '','') (print_item i @ CHR '','' # rest) = CHR '','' # rest"
  "takeWhile (\<lambda>c. c \<noteq> CHR '','') (print_item i) = print_item i"
  "dropWhile (\<lambda>c. c \<noteq> CHR '','') (print_item i) = []"
  using print_item_no_comma [of i] by (auto simp: takeWhile_append2 dropWhile_append2)

lemma decode_val_show:
  assumes "base \<le> int n" "n < nbits" "int nbits \<le> INT_MAX" "zerov \<le> 0 \<or> int nbits \<le> zerov"
    and "rest = [] \<or> \<not> isdigit (hd rest)"
  shows "decode_val nbits abbrs zerov base (show_nat n @ rest) = Some (int n, rest)"
proof -
  have "strtol10 (show_nat n @ rest) = (int n, rest)"
    using assms by (intro strtol10_show_nat) auto
  with assms starts_show_nat [of n rest] show ?thesis by (auto simp: decode_val_def Let_def)
qed

lemma decode_range_print:
  assumes "span_lo base s \<le> span_hi nbits s" "base \<le> span_lo base s" "span_hi nbits s < nbits"
    and "int nbits \<le> INT_MAX" "zerov \<le> 0 \<or> int nbits \<le> zerov"
    and "rest = [] \<or> hd rest = CHR ''/''"
  shows "decode_range nbits abbrs zerov (int base) (print_span s @ rest) =
    Some (int (span_lo base s), int (span_hi nbits s), rest)"
proof -
  have r: "rest = [] \<or> \<not> isdigit (hd rest)" "\<not> starts_with (\<lambda>c. c = CHR ''-'') rest"
    using assms(6) digit_neq(4) by (auto simp: starts_with_def)
  have m: "CHR ''-'' # show_nat b @ rest = [] \<or> \<not> isdigit (hd (CHR ''-'' # show_nat b @ rest))" for b
    using digit_neq(3) by auto
  show ?thesis
  proof (cases s)
    case All
    then show ?thesis using assms by (simp add: decode_range_def starts_with_def)
  next
    case (One n)
    then show ?thesis using assms r decode_val_show [of base n nbits zerov rest abbrs]
      by (simp add: decode_range_def not_starts_show_nat)
  next
    case (Span a b)
    then show ?thesis
      using assms r decode_val_show [of base b nbits zerov rest abbrs]
        decode_val_show [OF _ _ _ _ m [of b], of base a nbits zerov abbrs]
      by (simp add: decode_range_def not_starts_show_nat starts_with_def [of _ "_ # _"])
  qed
qed

lemma atoi_show_nat: "int n \<le> INT_MAX \<Longrightarrow> atoi (show_nat n) = int n"
proof -
  assume n: "int n \<le> INT_MAX"
  obtain c cs where c: "show_nat n = c # cs" "isdigit c"
    using hd_show_nat_digit [of n] show_nat_not_Nil [of n] by (cases "show_nat n") auto
  have "\<not> isspace c" "c \<noteq> CHR ''-''" "c \<noteq> CHR ''+''"
    using c(2) by (auto simp: isdigit_def isspace_def)
  moreover have tw: "takeWhile isdigit cs = cs"
    using in_show_nat [of _ n] c(1) by (auto simp: takeWhile_eq_all_conv)
  ultimately show ?thesis
    using n c digits_val_show_nat [of n] by (simp add: atoi_def Let_def strtol10_def tw)
qed

lemma decode_item_print:
  assumes "item_ok nbits base i" "int nbits \<le> INT_MAX" "zerov \<le> 0 \<or> int nbits \<le> zerov"
  obtains rest where
    "decode_range nbits abbrs zerov (int base) (print_item i) =
       Some (int (span_lo base (fst i)), int (span_hi nbits (fst i)), rest)"
    "decode_step (int (span_lo base (fst i))) (int (span_hi nbits (fst i))) rest =
       Some (int (item_step i))"
proof (cases i rule: print_item.cases)
  case (1 s)
  with assms decode_range_print [of base s nbits zerov "[]" abbrs] that [of "[]"]
  show ?thesis by (simp add: decode_step_def starts_with_def)
next
  case (2 s k)
  then have "int k \<le> INT_MAX" "int k \<le> int (span_hi nbits s) - int (span_lo base s)"
    using assms by auto
  with 2 assms decode_range_print [of base s nbits zerov "CHR ''/'' # show_nat k" abbrs]
    that [of "CHR ''/'' # show_nat k"] atoi_show_nat [of k] starts_show_nat [of k "[]"]
  show ?thesis by (simp add: decode_step_def starts_with_def [of _ "_ # _"] Let_def)
qed

lemma bit_set_list_length: "length (fold (\<lambda>i b. bit_set b i) xs b) = length b"
  by (induction xs arbitrary: b) simp_all

lemma bits_of_fold:
  "list_all (\<lambda>i. i < 8 * length b) xs \<Longrightarrow>
   bits_of (fold (\<lambda>i b. bit_set b i) xs b) = bits_of b \<union> set xs"
  using bits.cap_ins_list [of xs b]
  by (auto simp: bits_of_def bits.test_ins_list list_all_iff)

lemma set_step_item:
  assumes "item_ok nbits base i"
  shows "set (step_list (int (span_lo base (fst i))) (int (span_hi nbits (fst i)))
      (int (item_step i))) = item_set nbits base i"
proof -
  define lo hi st where "lo = span_lo base (fst i)" and "hi = span_hi nbits (fst i)"
    and "st = item_step i"
  have "0 < st" using assms by (cases i rule: item_step.cases) (auto simp: st_def)
  then have "set (step_list (int lo) (int hi) (int st)) = {j. \<exists>k. int j = int lo + int k * int st
      \<and> int j \<le> int hi}"
    by (intro set_step_list) auto
  also have "\<dots> = {j. \<exists>k. j = lo + k * st \<and> j \<le> hi}"
    unfolding of_nat_mult [symmetric] of_nat_add [symmetric] of_nat_eq_iff of_nat_le_iff ..
  also have "\<dots> = {j. lo \<le> j \<and> j \<le> hi \<and> st dvd (j - lo)}"
    by (auto simp: dvd_def mult.commute) (metis le_add_diff_inverse)
  also have "\<dots> = item_set nbits base i" by (cases i) (simp add: lo_def hi_def st_def)
  finally show ?thesis by (simp add: lo_def hi_def st_def)
qed

lemma item_set_bound: "item_ok nbits base i \<Longrightarrow> j \<in> item_set nbits base i \<Longrightarrow> base \<le> j \<and> j < nbits"
  by (cases i) auto

lemma decode_parts_step:
  assumes "item_ok nbits base i" "int nbits \<le> INT_MAX" "zerov \<le> 0 \<or> int nbits \<le> zerov"
    and "s = print_item i \<and> rest = [] \<or> s = print_item i @ CHR '','' # rest"
    and "nbits \<le> 8 * length bits"
  obtains b where
    "decode_parts nbits abbrs zerov (int base) s bits = decode_parts nbits abbrs zerov (int base) rest b"
    "bits_of b = bits_of bits \<union> item_set nbits base i" "length b = length bits"
proof -
  let ?lo = "int (span_lo base (fst i))" and ?hi = "int (span_hi nbits (fst i))"
    and ?st = "int (item_step i)"
  obtain r where r: "decode_range nbits abbrs zerov (int base) (print_item i) = Some (?lo, ?hi, r)"
    "decode_step ?lo ?hi r = Some ?st"
    using decode_item_print [OF assms(1-3)] .
  define b where "b = set_steps bits ?lo ?hi ?st"
  have f: "b = fold (\<lambda>i b. bit_set b i) (step_list ?lo ?hi ?st) bits"
    using decode_step_pos [OF r(2)] by (simp add: b_def set_steps_fold)
  have "bits_of b = bits_of bits \<union> item_set nbits base i"
    using item_set_bound [OF assms(1)] assms(5) unfolding f set_step_item [OF assms(1), symmetric]
    by (intro bits_of_fold) (force simp: list_all_iff)
  moreover have "length b = length bits" unfolding f by (simp add: bit_set_list_length)
  moreover have "decode_parts nbits abbrs zerov (int base) s bits
      = decode_parts nbits abbrs zerov (int base) rest b"
    using assms(4) r by (subst decode_parts.simps) (auto simp: takeWhile_item b_def Let_def)
  ultimately show ?thesis using that by blast
qed

lemma decode_parts_print:
  assumes "list_all (item_ok nbits base) is" "int nbits \<le> INT_MAX" "zerov \<le> 0 \<or> int nbits \<le> zerov"
    and "nbits \<le> 8 * length bits"
  shows "\<exists>b. decode_parts nbits abbrs zerov (int base) (print_items is) bits = (True, b)
    \<and> bits_of b = bits_of bits \<union> (\<Union>i\<in>set is. item_set nbits base i) \<and> length b = length bits"
  using assms
proof (induction "is" arbitrary: bits rule: print_items.induct)
  case 1
  then show ?case by (simp add: decode_parts.simps)
next
  case (2 i)
  then have "item_ok nbits base i" by simp
  then obtain b where "decode_parts nbits abbrs zerov (int base) (print_item i) bits
      = decode_parts nbits abbrs zerov (int base) [] b"
    "bits_of b = bits_of bits \<union> item_set nbits base i" "length b = length bits"
    using 2 decode_parts_step [of nbits base i zerov "print_item i" "[]" bits abbrs] by blast
  then show ?case by (simp add: decode_parts.simps [of _ _ _ _ "[]"])
next
  case (3 i j js)
  then have "item_ok nbits base i" by simp
  then obtain b where b: "decode_parts nbits abbrs zerov (int base) (print_items (i # j # js)) bits
      = decode_parts nbits abbrs zerov (int base) (print_items (j # js)) b"
    "bits_of b = bits_of bits \<union> item_set nbits base i" "length b = length bits"
    using 3 decode_parts_step [of nbits base i zerov "print_items (i # j # js)"
        "print_items (j # js)" bits abbrs] unfolding print_items.simps by blast
  then show ?case using "3.IH" [of b] "3.prems" by auto
qed

definition field_base :: "int \<Rightarrow> nat" where
  "field_base zerov = (if zerov < 0 then 1 else 0)"

lemma decode_elem_items:
  assumes "list_all (item_ok nbits (field_base zerov)) is" "2 \<le> nbits" "int nbits \<le> INT_MAX"
    and "zerov \<le> 0 \<or> int nbits \<le> zerov" "nbits \<le> 8 * length bits"
  obtains b where "decode_elem (Some (print_items is)) nbits abbrs bits zerov = (True, b)"
    "bits_of b = (bits_of bits - {field_base zerov ..< nbits})
       \<union> (\<Union>i\<in>set is. item_set nbits (field_base zerov) i)"
    "length b = length bits"
proof -
  let ?base = "field_base zerov"
  let ?c = "bit_nclear bits ?base (nbits - 1)"
  have "bits_of ?c = bits_of bits - {?base..<nbits}"
    using assms by (auto simp: bits_of_def bit_test_nclear field_base_def)
  moreover have "(if zerov < 0 then 1 else 0) = int ?base" by (simp add: field_base_def)
  ultimately show ?thesis
    using that decode_parts_print [OF assms(1,3,4), of ?c abbrs] assms(5)
    unfolding decode_elem_def Let_def option.case by auto
qed

section \<open>Properties\<close>

text \<open>
  C9. Round trip of the time fields: for every list of values, ranges and stars with optional steps
  that is within the field's bounds, decoding its printed form succeeds and replaces the field's bits
  by exactly the union of the sets the parts denote (bits of the string outside the field are kept).
\<close>

theorem decode_elem_print:
  assumes "list_all (item_ok nbits (field_base zerov)) is" and "2 \<le> nbits" and "int nbits \<le> INT_MAX"
    and "zerov \<le> 0 \<or> int nbits \<le> zerov" and "nbits \<le> 8 * length bits"
  shows "\<exists>b. decode_elem (Some (print_items is)) nbits abbrs bits zerov = (True, b)
    \<and> bits_of b = (bits_of bits - {field_base zerov ..< nbits})
        \<union> (\<Union>i\<in>set is. item_set nbits (field_base zerov) i)"
  using decode_elem_items [OF assms] by metis

theorem decode_elem_print_witness:
  "print_items [(One 2, None), (Span 3 7, Some 2), (One 11, None)] = ''2,3-7/2,11''
   \<and> (\<exists>b. decode_elem (Some ''2,3-7/2,11'') 60 None (bit_decl 60) 0 = (True, b)
        \<and> bits_of b = (bits_of (bit_decl 60) - {0 ..< 60})
            \<union> (\<Union>i\<in>{(One 2, None), (Span 3 7, Some 2), (One 11, None)}. item_set 60 0 i))"
proof -
  have p: "print_items [(One 2, None), (Span 3 7, Some 2), (One 11, None)] = ''2,3-7/2,11''"
    by code_simp
  have "60 \<le> 8 * length (bit_decl 60)" by code_simp
  then show ?thesis
    using p decode_elem_print [of 60 0 "[(One 2, None), (Span 3 7, Some 2), (One 11, None)]"
        "bit_decl 60" None]
    by (simp add: field_base_def INT_MAX_def)
qed

text \<open>
  C16. Memory safety of the field decoder: on every input text, whether accepted or not, the bit
  string is the cleared one with some bits set, and every bit set has an index from the field's base to
  \<open>nbits - 1\<close>; the storage keeps its length.
\<close>

theorem decode_elem_in_bounds:
  assumes "2 \<le> nbits"
  shows "\<exists>xs. snd (decode_elem (Some s) nbits abbrs bits zerov) =
      fold (\<lambda>i b. bit_set b i) xs (bit_nclear bits (field_base zerov) (nbits - 1))
    \<and> list_all (\<lambda>i. field_base zerov \<le> i \<and> i < nbits) xs"
proof -
  have "(if zerov < 0 then 1 else 0) = int (field_base zerov)" by (simp add: field_base_def)
  then show ?thesis
    using assms decode_parts_accesses [of "int (field_base zerov)" nbits abbrs zerov s
        "bit_nclear bits (field_base zerov) (nbits - 1)"]
    by (auto simp: decode_elem_def Let_def field_base_def)
qed

theorem decode_elem_in_bounds_witness:
  "\<exists>xs. snd (decode_elem (Some ''1,99'') 60 None (bit_decl 60) 0) =
      fold (\<lambda>i b. bit_set b i) xs (bit_nclear (bit_decl 60) 0 59)
    \<and> list_all (\<lambda>i. 0 \<le> i \<and> i < 60) xs"
  using decode_elem_in_bounds [of 60 "''1,99''" None "bit_decl 60" 0]
  by (simp add: field_base_def)

text \<open>
  A range of week days that ends in 7 is turned around: the decoder replaces 7 by 0 before it
  orders the ends, so \<open>a-7\<close> selects Sunday to day \<open>a\<close> instead of day \<open>a\<close> to Sunday.
\<close>

theorem decode_elem_to_sunday:
  "map (\<lambda>a. case decode_elem (Some (print_item (Span a 7, None))) 7 (Some day_names) (bit_decl 7) 7 of
       (ok, b) \<Rightarrow> (ok, filter (bit_test b) [0..<7])) [1..<7]
   = map (\<lambda>a. (True, [0..<a + 1])) [1..<7]"
  by code_simp

end
