(* ===== verification/Cron_Env.thy ===== *)
theory Cron_Env
  imports Camera_Prelude
begin

text \<open>
  The environment list of the cron daemon (\<^verbatim>\<open>struct env_s\<close>, \<^verbatim>\<open>stoenv\<close>, \<^verbatim>\<open>clrenv\<close>, \<^verbatim>\<open>zapenv\<close>,
  \<^verbatim>\<open>cloneenv\<close>), the assignment lines of the crontab (\<^verbatim>\<open>decode_env\<close>), and the message buffer of
  \<^verbatim>\<open>log3\<close>.  The list implements the interface of a finite map; the copy handed to a job fills its
  memory block exactly.
\<close>

section \<open>The list of variables\<close>

record env_s =
  name :: string
  env_value :: string

type_synonym env = "env_s list"

text \<open>The search, then the replacement in place or the new record at the head.\<close>

fun set_value :: "env \<Rightarrow> string \<Rightarrow> string \<Rightarrow> env option" where
  "set_value [] n val = None"
| "set_value (p # ps) n val =
     (if name p = n then Some (p\<lparr>env_value := val\<rparr> # ps)
      else map_option (\<lambda>ps. p # ps) (set_value ps n val))"

definition stoenv :: "string \<Rightarrow> string \<Rightarrow> env \<Rightarrow> env" where
  "stoenv n val env =
     (case set_value env n val of
        Some env' \<Rightarrow> env'
      | None \<Rightarrow> \<lparr>name = n, env_value = val\<rparr> # env)"

fun clrenv :: "string \<Rightarrow> env \<Rightarrow> env" where
  "clrenv n [] = []"
| "clrenv n (p # ps) = (if name p = n then ps else p # clrenv n ps)"

definition zapenv :: "env \<Rightarrow> env" where
  "zapenv env = []"

text \<open>
  \<^verbatim>\<open>cloneenv\<close> lays out one block: \<^verbatim>\<open>n\<close> pointers, then \<^verbatim>\<open>sz\<close> characters.  The model keeps the pointers
  as offsets into the characters; the last pointer is \<^verbatim>\<open>NULL\<close>.
\<close>

record env_block =
  ptrs :: "nat option list"
  chars :: string
  alloc_ptrs :: nat
  alloc_chars :: nat

fun env_size :: "env \<Rightarrow> nat" where
  "env_size [] = 0"
| "env_size (p # ps) = length (name p) + length (env_value p) + 2 + env_size ps"

fun copy_env :: "env \<Rightarrow> nat option list \<Rightarrow> string \<Rightarrow> nat option list \<times> string" where
  "copy_env [] ps x = (ps, x)"
| "copy_env (p # rest) ps x =
     copy_env rest (ps @ [Some (length x)]) (x @ name p @ CHR ''='' # env_value p @ [NUL])"

definition cloneenv :: "env \<Rightarrow> env_block" where
  "cloneenv env =
     (let (ps, x) = copy_env env [] []
      in \<lparr>ptrs = ps @ [None], chars = x, alloc_ptrs = length env + 1, alloc_chars = env_size env\<rparr>)"

text \<open>Reading such a block back: the strings at the offsets.\<close>

definition string_at :: "string \<Rightarrow> nat \<Rightarrow> string" where
  "string_at x k = takeWhile (\<lambda>c. c \<noteq> NUL) (drop k x)"

definition environ_strings :: "env_block \<Rightarrow> string list" where
  "environ_strings b = map (string_at (chars b)) (List.map_filter id (ptrs b))"

text \<open>
  \<^verbatim>\<open>decode_env\<close>: the name loses trailing white space, except for its first character; white space
  in front of the value is skipped; an empty value clears the variable.
\<close>

fun trim_name :: "string \<Rightarrow> string" where
  "trim_name [] = []"
| "trim_name (c # cs) = c # rev (dropWhile isspace (rev cs))"

definition decode_env :: "string \<Rightarrow> env \<Rightarrow> bool \<times> env" where
  "decode_env p env =
     (if CHR ''='' \<notin> set p then (False, env)
      else let n = trim_name (takeWhile (\<lambda>c. c \<noteq> CHR ''='') p);
               q = dropWhile isspace (drop 1 (dropWhile (\<lambda>c. c \<noteq> CHR ''='') p))
           in if q = [] then (True, clrenv n env) else (True, stoenv n q env))"

text \<open>
  The message buffer of \<^verbatim>\<open>log3\<close>: each of up to three strings is appended while there is room, then a
  newline.
\<close>

definition LOGBUFSIZ :: nat where "LOGBUFSIZ = 80"

fun log_append :: "string \<Rightarrow> string \<Rightarrow> string" where
  "log_append buf [] = buf"
| "log_append buf (c # cs) = (if length buf < LOGBUFSIZ - 1 then log_append (buf @ [c]) cs else buf)"

definition log3 :: "string option \<Rightarrow> string option \<Rightarrow> string option \<Rightarrow> string" where
  "log3 msg1 msg2 msg3 =
     fold (\<lambda>m buf. case m of None \<Rightarrow> buf | Some s \<Rightarrow> log_append buf s) [msg1, msg2, msg3] ''cron: ''
     @ [NL]"

definition error2 :: "string \<Rightarrow> string \<Rightarrow> string" where
  "error2 msg1 msg2 = log3 (Some ''Error: '') (Some msg1) (Some msg2)"

definition error1 :: "string \<Rightarrow> string" where
  "error1 msg = log3 (Some ''Error: '') (Some msg) None"

section \<open>The list as a finite map\<close>

fun getenv :: "env \<Rightarrow> string \<Rightarrow> string option" where
  "getenv [] n = None"
| "getenv (p # ps) n = (if name p = n then Some (env_value p) else getenv ps n)"

definition env_ok :: "env \<Rightarrow> bool" where
  "env_ok env = distinct (map name env)"

locale variable_store =
  fixes get :: "'e \<Rightarrow> string \<Rightarrow> string option" and put :: "string \<Rightarrow> string \<Rightarrow> 'e \<Rightarrow> 'e"
    and clr :: "string \<Rightarrow> 'e \<Rightarrow> 'e" and none :: 'e and ok :: "'e \<Rightarrow> bool"
  assumes get_none: "get none n = None"
    and get_put: "ok e \<Longrightarrow> get (put n v e) = (get e)(n \<mapsto> v)"
    and get_clr: "ok e \<Longrightarrow> get (clr n e) = (get e)(n := None)"
    and ok_none: "ok none"
    and ok_put: "ok e \<Longrightarrow> ok (put n v e)"
    and ok_clr: "ok e \<Longrightarrow> ok (clr n e)"
begin

text \<open>A run of assignments and removals, the value \<^const>\<open>None\<close> being a removal.\<close>

definition assign :: "string \<times> string option \<Rightarrow> 'e \<Rightarrow> 'e" where
  "assign = (\<lambda>(n, v) e. case v of None \<Rightarrow> clr n e | Some v \<Rightarrow> put n v e)"

lemma ok_assigns: "ok e \<Longrightarrow> ok (fold assign xs e)"
  by (induction xs arbitrary: e) (auto simp: assign_def ok_put ok_clr split: option.splits)

lemma get_assign: "ok e \<Longrightarrow> get (assign x e) = (get e)(fst x := snd x)"
  by (cases x) (auto simp: assign_def get_put get_clr split: option.splits)

lemma get_assigns: "ok e \<Longrightarrow> get (fold assign xs e) = fold (\<lambda>x m. m(fst x := snd x)) xs (get e)"
proof (induction xs arbitrary: e)
  case (Cons x xs)
  moreover have "ok (assign x e)" using Cons.prems ok_assigns [of e "[x]"] by simp
  ultimately show ?case by (simp add: get_assign)
qed simp

lemma clr_put: "ok e \<Longrightarrow> get (clr n (put n v e)) = get (clr n e)"
  by (simp add: get_clr get_put ok_put)

end

lemma set_value_names: "set_value env n v = Some env' \<Longrightarrow> map name env' = map name env"
  by (induction env arbitrary: env') (auto split: if_splits)

lemma set_value_None: "set_value env n v = None \<longleftrightarrow> n \<notin> name ` set env"
  by (induction env) auto

lemma set_value_get:
  "set_value env n v = Some env' \<Longrightarrow> getenv env' = (getenv env)(n \<mapsto> v)"
proof (induction env arbitrary: env')
  case (Cons p ps)
  show ?case
  proof (cases "name p = n")
    case False
    then obtain ps' where "set_value ps n v = Some ps'" "env' = p # ps'" using Cons.prems by auto
    with False Cons.IH [of ps'] show ?thesis by (auto simp: fun_eq_iff)
  qed (use Cons.prems in \<open>auto simp: fun_eq_iff\<close>)
qed simp

lemma getenv_None: "getenv env n = None \<longleftrightarrow> n \<notin> name ` set env"
  by (induction env) auto

lemma clrenv_names: "set (map name (clrenv n env)) \<subseteq> set (map name env)"
  by (induction env) auto

lemma clrenv_ok: "env_ok env \<Longrightarrow> env_ok (clrenv n env)"
proof (induction env)
  case (Cons p ps)
  then show ?case using clrenv_names [of n ps] by (auto simp: env_ok_def)
qed simp

lemma clrenv_get: "env_ok env \<Longrightarrow> getenv (clrenv n env) = (getenv env)(n := None)"
proof (induction env)
  case (Cons p ps)
  then have "env_ok ps" "name p \<notin> name ` set ps" by (auto simp: env_ok_def)
  with Cons.IH show ?case by (auto simp: fun_eq_iff getenv_None)
qed auto

interpretation env: variable_store getenv stoenv clrenv "[]" env_ok
proof unfold_locales
  show "getenv (stoenv n v e) = (getenv e)(n \<mapsto> v)" for e n v
    by (auto simp: stoenv_def set_value_get fun_eq_iff split: option.splits)
  show "env_ok e \<Longrightarrow> env_ok (stoenv n v e)" for e n v
    by (auto simp: stoenv_def env_ok_def set_value_names set_value_None split: option.splits)
qed (simp_all add: clrenv_get clrenv_ok env_ok_def [of "[]"])

section \<open>The block handed to a job\<close>

lemma copy_env_eq:
  "copy_env env ps x = (ps @ fst (copy_env env [] x), snd (copy_env env [] x))"
proof (induction env arbitrary: ps x)
  case (Cons p rest)
  show ?case
    using Cons.IH [of "ps @ [Some (length x)]"] Cons.IH [of "[Some (length x)]"] by simp
qed simp

lemma copy_env_length: "length (snd (copy_env env ps x)) = length x + env_size env"
  by (induction env arbitrary: ps x) simp_all

lemma copy_env_prefix: "\<exists>y. snd (copy_env env ps x) = x @ y"
proof (induction env arbitrary: ps x)
  case (Cons p rest)
  from Cons.IH show ?case by (metis append.assoc copy_env.simps(2))
qed simp

definition no_nul :: "env \<Rightarrow> bool" where
  "no_nul env = list_all (\<lambda>p. NUL \<notin> set (name p) \<and> NUL \<notin> set (env_value p)) env"

lemma string_at_append:
  "NUL \<notin> set s \<Longrightarrow> string_at (x @ s @ NUL # y) (length x) = s"
  by (simp add: string_at_def) (subst takeWhile_append2, auto)

lemma copy_env_strings:
  "no_nul env \<Longrightarrow> map (string_at (snd (copy_env env [] x))) (List.map_filter id (fst (copy_env env [] x)))
   = map (\<lambda>p. name p @ CHR ''='' # env_value p) env"
proof (induction env arbitrary: x)
  case (Cons p rest)
  let ?x = "x @ name p @ CHR ''='' # env_value p @ [NUL]"
  obtain y where y: "snd (copy_env rest [] ?x) = ?x @ y" using copy_env_prefix by blast
  have "string_at (snd (copy_env rest [] ?x)) (length x) = name p @ CHR ''='' # env_value p"
    using string_at_append [of "name p @ CHR ''='' # env_value p" x y] Cons.prems
    unfolding y by (simp add: no_nul_def)
  then show ?case
    using Cons copy_env_eq [of rest "[Some (length x)]" ?x]
    by (simp add: no_nul_def map_filter_def)
qed (simp add: map_filter_def)

section \<open>Assignment lines\<close>

definition print_assign :: "string \<times> string option \<Rightarrow> string" where
  "print_assign x = fst x @ CHR ''='' # (case snd x of None \<Rightarrow> [] | Some v \<Rightarrow> v)"

text \<open>A name without equals sign or white space at its end; a value that does not start with white space.\<close>

definition assign_ok :: "string \<times> string option \<Rightarrow> bool" where
  "assign_ok x \<longleftrightarrow> fst x \<noteq> [] \<and> CHR ''='' \<notin> set (fst x) \<and> \<not> isspace (last (fst x))
     \<and> (case snd x of None \<Rightarrow> True | Some v \<Rightarrow> v \<noteq> [] \<and> \<not> isspace (hd v))"

lemma trim_name_id: "n \<noteq> [] \<Longrightarrow> \<not> isspace (last n) \<Longrightarrow> trim_name n = n"
proof (cases n)
  case (Cons c cs)
  assume "n \<noteq> []" "\<not> isspace (last n)"
  with Cons show ?thesis by (cases cs rule: rev_cases) auto
qed simp

lemma decode_env_assign:
  assumes "assign_ok x"
  shows "decode_env (print_assign x) e = (True, env.assign x e)"
proof -
  have n: "takeWhile (\<lambda>c. c \<noteq> CHR ''='') (print_assign x) = fst x"
    "dropWhile (\<lambda>c. c \<noteq> CHR ''='') (print_assign x)
       = CHR ''='' # (case snd x of None \<Rightarrow> [] | Some v \<Rightarrow> v)"
    using assms unfolding print_assign_def assign_ok_def
    by (auto simp: takeWhile_append dropWhile_append)
  have m: "CHR ''='' \<in> set (print_assign x)" by (simp add: print_assign_def)
  have t: "trim_name (fst x) = fst x" using assms trim_name_id by (simp add: assign_ok_def)
  show ?thesis
  proof (cases "snd x")
    case None
    then show ?thesis unfolding decode_env_def n Let_def
      using m t by (cases x) (simp add: env.assign_def)
  next
    case (Some v)
    then have "v \<noteq> []" "dropWhile isspace v = v"
      using assms by (cases v; simp add: assign_ok_def)+
    with Some show ?thesis unfolding decode_env_def n Let_def option.case list.sel drop_Suc_Cons
        One_nat_def drop_0
      using m t by (cases x) (simp add: env.assign_def)
  qed
qed

lemma log_append_length: "length buf \<le> LOGBUFSIZ - 1 \<Longrightarrow> length (log_append buf s) \<le> LOGBUFSIZ - 1"
  by (induction buf s rule: log_append.induct) auto

section \<open>Properties\<close>

text \<open>
  C17. The environment list behaves as a finite map: reading any sequence of assignment lines
  \<^verbatim>\<open>NAME=VALUE\<close> and \<^verbatim>\<open>NAME=\<close> into the empty environment gives, for every name, the value of the last
  line that mentions it, or nothing if that line clears the variable.
\<close>

theorem decode_env_map:
  assumes "list_all assign_ok xs"
  shows "getenv (fold (\<lambda>x e. snd (decode_env (print_assign x) e)) xs (zapenv e0)) =
    fold (\<lambda>x m. m(fst x := snd x)) xs (\<lambda>n. None)"
proof -
  have "fold (\<lambda>x e. snd (decode_env (print_assign x) e)) xs e = fold env.assign xs e" for e
    using assms by (induction xs arbitrary: e) (auto simp: decode_env_assign)
  moreover have "getenv [] = (\<lambda>n. None)" by (simp add: fun_eq_iff)
  ultimately show ?thesis using env.get_assigns [OF env.ok_none, of xs] by (simp add: zapenv_def)
qed

theorem decode_env_map_witness:
  "getenv (fold (\<lambda>x e. snd (decode_env (print_assign x) e))
     [(''HOME'', Some ''/''), (''PATH'', Some ''/bin''), (''HOME'', None)] (zapenv [])) ''HOME'' = None"
proof -
  have "list_all assign_ok [(''HOME'', Some ''/''), (''PATH'', Some ''/bin''), (''HOME'', None)]"
    by code_simp
  from decode_env_map [OF this, of "[]"] show ?thesis by simp
qed

text \<open>
  C18. The environment block of a job: for every environment without NUL characters, the pointers and
  characters that \<^verbatim>\<open>cloneenv\<close> writes fill the allocated block exactly, the pointer array ends with
  \<^verbatim>\<open>NULL\<close>, and the strings it points to are the assignments \<^verbatim>\<open>name=value\<close> in list order.
\<close>

theorem cloneenv_block:
  assumes "no_nul env"
  shows "environ_strings (cloneenv env) = map (\<lambda>p. name p @ CHR ''='' # env_value p) env
    \<and> length (chars (cloneenv env)) = alloc_chars (cloneenv env)
    \<and> length (ptrs (cloneenv env)) = alloc_ptrs (cloneenv env)
    \<and> last (ptrs (cloneenv env)) = None"
proof -
  have "length (fst (copy_env env ps x)) = length ps + length env" for ps x
    by (induction env arbitrary: ps x) auto
  then show ?thesis
    using copy_env_strings [OF assms, of "[]"] copy_env_length [of env "[]" "[]"]
    by (auto simp: cloneenv_def environ_strings_def map_filter_def split: prod.splits)
      (metis fst_conv list.size(3) plus_nat.add_0)
qed

theorem cloneenv_block_witness:
  "environ_strings (cloneenv [\<lparr>name = ''SHELL'', env_value = ''/bin/sh''\<rparr>]) = [''SHELL=/bin/sh'']"
proof -
  have "no_nul [\<lparr>name = ''SHELL'', env_value = ''/bin/sh''\<rparr>]" by (simp add: no_nul_def)
  from cloneenv_block [OF this] show ?thesis by simp
qed

text \<open>The message buffer of 80 characters is never overrun, whatever strings are logged.\<close>

theorem log3_fits: "length (log3 msg1 msg2 msg3) \<le> LOGBUFSIZ"
proof -
  have "length (case m of None \<Rightarrow> buf | Some s \<Rightarrow> log_append buf s) \<le> 79" if "length buf \<le> 79" for m buf
    using that log_append_length [of buf] by (auto simp: LOGBUFSIZ_def split: option.splits)
  then have "length (fold (\<lambda>m buf. case m of None \<Rightarrow> buf | Some s \<Rightarrow> log_append buf s) ms buf) \<le> 79"
    if "length buf \<le> 79" for ms buf
    using that by (induction ms arbitrary: buf) auto
  from this [of "''cron: ''" "[msg1, msg2, msg3]"] show ?thesis
    unfolding log3_def by (simp add: LOGBUFSIZ_def del: fold.simps)
qed

end
