(* ===== verification/Calendar.thy ===== *)
theory Calendar
  imports Camera_Prelude
begin

text \<open>
  The broken-down time of the C library as the daemons use it: \<^verbatim>\<open>struct tm\<close>,
  \<^verbatim>\<open>localtime\<close> and \<^verbatim>\<open>mktime\<close> with no \<^verbatim>\<open>TZ\<close> set (the camera keeps its system clock in local
  time, so the library applies no offset), together with the closed form of the Gregorian
  calendar that the correctness statements are phrased in: \<open>jan1\<close>, \<open>date\<close> and \<open>weekday\<close>.
\<close>

section \<open>Years\<close>

record tm =
  tm_sec :: int
  tm_min :: int
  tm_hour :: int
  tm_mday :: int
  tm_mon :: int
  tm_year :: int
  tm_wday :: int
  tm_yday :: int

definition leap :: "int \<Rightarrow> bool" where
  "leap y \<longleftrightarrow> y mod 4 = 0 \<and> (y mod 100 \<noteq> 0 \<or> y mod 400 = 0)"

definition year_len :: "int \<Rightarrow> int" where
  "year_len y = (if leap y then 366 else 365)"

text \<open>Days from 1 January 1970 to 1 January of year \<open>y\<close>.\<close>

definition jan1 :: "int \<Rightarrow> int" where
  "jan1 y = 365 * (y - 1970) + (y - 1) div 4 - (y - 1) div 100 + (y - 1) div 400 - 477"

lemma year_len_pos: "0 < year_len y" "365 \<le> year_len y" "year_len y \<le> 366"
  by (simp_all add: year_len_def)

lemma div_step: "0 < (k::int) \<Longrightarrow> y div k = (y - 1) div k + (if y mod k = 0 then 1 else 0)"
proof -
  assume k: "0 < k"
  show ?thesis
  proof (cases "y mod k = 0")
    case True
    then obtain q where q: "y = k * q" by (auto simp: mod_eq_0_iff_dvd)
    have "(k * q - 1) div k = q - 1"
    proof (rule int_div_pos_eq)
      show "k * q - 1 = k * (q - 1) + (k - 1)" by (simp add: algebra_simps)
    qed (use k in auto)
    with q k show ?thesis by simp
  next
    case False
    have "y - 1 = k * (y div k) + (y mod k - 1)"
      using mult_div_mod_eq [of k y] by linarith
    moreover have "0 \<le> y mod k - 1" "y mod k - 1 < k"
      using False k pos_mod_sign [of k y] pos_mod_bound [of k y] by linarith+
    ultimately have "(y - 1) div k = y div k"
      by (rule int_div_pos_eq)
    with False show ?thesis by simp
  qed
qed

lemma jan1_Suc: "jan1 (y + 1) = jan1 y + year_len y"
proof -
  define a b c where "a = (y - 1) div 4" and "b = (y - 1) div 100" and "c = (y - 1) div 400"
  define p q r where "p \<longleftrightarrow> y mod 4 = 0" and "q \<longleftrightarrow> y mod 100 = 0" and "r \<longleftrightarrow> y mod 400 = 0"
  have j: "jan1 (y + 1) = 365 * (y + 1 - 1970) + y div 4 - y div 100 + y div 400 - 477"
    "jan1 y = 365 * (y - 1970) + a - b + c - 477"
    by (simp_all add: jan1_def a_def b_def c_def)
  have d: "y div 4 = a + (if p then 1 else 0)" "y div 100 = b + (if q then 1 else 0)"
    "y div 400 = c + (if r then 1 else 0)"
    unfolding a_def b_def c_def p_def q_def r_def by (rule div_step; simp)+
  have l: "leap y \<longleftrightarrow> p \<and> (\<not> q \<or> r)"
    by (simp add: leap_def p_def q_def r_def)
  have "r \<Longrightarrow> q" "q \<Longrightarrow> p"
    using dvd_trans [of 100 400 y] dvd_trans [of 4 100 y]
    by (simp_all add: p_def q_def r_def mod_eq_0_iff_dvd)
  then show ?thesis
    unfolding j d year_len_def l by (cases p; cases q; cases r) simp_all
qed

lemma jan1_1970 [simp]: "jan1 1970 = 0"
  by (simp add: jan1_def)

lemma jan1_add: "jan1 x + 365 * int n \<le> jan1 (x + int n)"
proof (induction n)
  case 0
  then show ?case by simp
next
  case (Suc n)
  have "jan1 (x + int (Suc n)) = jan1 (x + int n) + year_len (x + int n)"
    using jan1_Suc [of "x + int n"] by (simp add: algebra_simps)
  with Suc year_len_pos(2) [of "x + int n"] show ?case by simp
qed

lemma jan1_mono: "x \<le> y \<Longrightarrow> jan1 x + 365 * (y - x) \<le> jan1 y"
  using jan1_add [of x "nat (y - x)"] by simp

text \<open>Walking from year to year until the day lies in the current one.\<close>

function year_day :: "int \<Rightarrow> int \<Rightarrow> int \<times> int" where
  "year_day y d =
     (if d < 0 then year_day (y - 1) (d + year_len (y - 1))
      else if year_len y \<le> d then year_day (y + 1) (d - year_len y)
      else (y, d))"
  by pat_completeness auto
termination
proof (relation "measure (\<lambda>(y, d). if d < 0 then nat (- d) + 1000 else nat d)")
  fix y d :: int
  assume "d < 0"
  moreover from this have "nat (d + year_len (y - 1)) \<le> nat 366"
    using year_len_pos(3) [of "y - 1"] by (intro nat_mono) linarith
  ultimately show "((y - 1, d + year_len (y - 1)), y, d)
      \<in> measure (\<lambda>(y, d). if d < 0 then nat (- d) + 1000 else nat d)"
    using year_len_pos [of "y - 1"] by auto
next
  fix y d :: int
  assume "\<not> d < 0" "year_len y \<le> d"
  then show "((y + 1, d - year_len y), y, d)
      \<in> measure (\<lambda>(y, d). if d < 0 then nat (- d) + 1000 else nat d)"
    using year_len_pos [of y] by auto
qed simp

declare year_day.simps [simp del]

lemma year_day_correct:
  "year_day y d = (y', d') \<Longrightarrow> jan1 y + d = jan1 y' + d' \<and> 0 \<le> d' \<and> d' < year_len y'"
proof (induction y d arbitrary: y' d' rule: year_day.induct)
  case (1 y d)
  consider "d < 0" | "\<not> d < 0" "year_len y \<le> d" | "\<not> d < 0" "\<not> year_len y \<le> d" by blast
  then show ?case
  proof cases
    case 1
    with "1.prems" have "year_day (y - 1) (d + year_len (y - 1)) = (y', d')"
      by (simp add: year_day.simps [of y d])
    with "1.IH"(1) 1 show ?thesis using jan1_Suc [of "y - 1"] by fastforce
  next
    case 2
    with "1.prems" have "year_day (y + 1) (d - year_len y) = (y', d')"
      by (simp add: year_day.simps [of y d])
    with "1.IH"(2) 2 show ?thesis using jan1_Suc [of y] by fastforce
  next
    case 3
    with "1.prems" show ?thesis by (simp add: year_day.simps [of y d])
  qed
qed

lemma year_unique:
  assumes "jan1 y + d = jan1 y' + d'" "0 \<le> d" "d < year_len y" "0 \<le> d'" "d' < year_len y'"
  shows "y = y' \<and> d = d'"
proof -
  have "\<not> y < y'"
  proof
    assume "y < y'"
    then have "jan1 (y + 1) + 365 * (y' - (y + 1)) \<le> jan1 y'" by (intro jan1_mono) simp
    with assms \<open>y < y'\<close> show False by (simp add: jan1_Suc)
  qed
  moreover have "\<not> y' < y"
  proof
    assume "y' < y"
    then have "jan1 (y' + 1) + 365 * (y - (y' + 1)) \<le> jan1 y" by (intro jan1_mono) simp
    with assms \<open>y' < y\<close> show False by (simp add: jan1_Suc)
  qed
  ultimately show ?thesis using assms(1) by auto
qed

lemma year_day_jan1: "0 \<le> d \<Longrightarrow> d < year_len y \<Longrightarrow> year_day 1970 (jan1 y + d) = (y, d)"
proof -
  assume a: "0 \<le> d" "d < year_len y"
  obtain y' d' where e: "year_day 1970 (jan1 y + d) = (y', d')" by force
  from year_day_correct [OF e] a have "y = y' \<and> d = d'"
    by (intro year_unique) simp_all
  with e show ?thesis by simp
qed

section \<open>Months and days\<close>

definition month_lens :: "int \<Rightarrow> int list" where
  "month_lens y = [31, if leap y then 29 else 28, 31, 30, 31, 30, 31, 31, 30, 31, 30, 31]"

fun month_day :: "int list \<Rightarrow> int \<Rightarrow> int \<Rightarrow> int \<times> int" where
  "month_day [] m d = (m, d + 1)"
| "month_day (l # ls) m d = (if d < l then (m, d + 1) else month_day ls (m + 1) (d - l))"

definition before_month :: "int \<Rightarrow> int \<Rightarrow> int" where
  "before_month y m = sum_list (take (nat m) (month_lens y))"

text \<open>Day number (days since 1 January 1970) of a date, month counted from 0.\<close>

definition date :: "int \<Rightarrow> int \<Rightarrow> int \<Rightarrow> int" where
  "date y m d = jan1 y + before_month y m + (d - 1)"

definition weekday :: "int \<Rightarrow> int" where
  "weekday n = (n + 4) mod 7"

definition sunday_from :: "int \<Rightarrow> int" where
  "sunday_from n = n + (- weekday n) mod 7"

lemma weekday_range: "0 \<le> weekday n" "weekday n < 7"
  by (simp_all add: weekday_def)

lemma sunday_from_le: "n \<le> sunday_from n" "sunday_from n \<le> n + 6"
proof -
  have "0 \<le> (- weekday n) mod 7" "(- weekday n) mod 7 < 7" by simp_all
  then show "n \<le> sunday_from n" "sunday_from n \<le> n + 6"
    by (simp_all add: sunday_from_def)
qed

lemma weekday_sunday_from: "weekday (sunday_from n) = 0"
  unfolding weekday_def sunday_from_def by presburger

definition localtime :: "int \<Rightarrow> tm" where
  "localtime t =
     (let n = t div 86400; s = t mod 86400;
          (y, yd) = year_day 1970 n;
          (m, md) = month_day (month_lens y) 0 yd
      in \<lparr>tm_sec = s mod 60, tm_min = s div 60 mod 60, tm_hour = s div 3600,
          tm_mday = md, tm_mon = m, tm_year = y - 1900,
          tm_wday = weekday n, tm_yday = yd\<rparr>)"

definition mktime :: "tm \<Rightarrow> int" where
  "mktime x = 86400 * date (1900 + tm_year x) (tm_mon x) (tm_mday x)
     + 3600 * tm_hour x + 60 * tm_min x + tm_sec x"

text \<open>The year and the second of the year that a time stamp falls in.\<close>

definition year_of :: "int \<Rightarrow> int" where
  "year_of t = 1900 + tm_year (localtime t)"

lemma month_day_range:
  assumes "0 \<le> d" "d < sum_list ls" "month_day ls m d = (m', md)"
  shows "m \<le> m' \<and> m' < m + int (length ls)
     \<and> d = sum_list (take (nat (m' - m)) ls) + (md - 1) \<and> 1 \<le> md \<and> md \<le> ls ! nat (m' - m)"
  using assms
proof (induction ls arbitrary: m d)
  case Nil
  then show ?case by simp
next
  case (Cons l ls)
  show ?case
  proof (cases "d < l")
    case True
    with Cons.prems show ?thesis by auto
  next
    case False
    with Cons.prems have "0 \<le> d - l" "d - l < sum_list ls" "month_day ls (m + 1) (d - l) = (m', md)"
      by auto
    note IH = Cons.IH [OF this]
    then have "nat (m' - m) = Suc (nat (m' - (m + 1)))" by linarith
    with IH show ?thesis by auto
  qed
qed

lemma sum_month_lens: "sum_list (month_lens y) = year_len y"
  by (simp add: month_lens_def year_len_def)

lemma localtime_year: "jan1 (year_of t) + tm_yday (localtime t) = t div 86400"
  "0 \<le> tm_yday (localtime t)" "tm_yday (localtime t) < year_len (year_of t)"
proof -
  obtain y d where yd: "year_day 1970 (t div 86400) = (y, d)" by force
  obtain m md where md: "month_day (month_lens y) 0 d = (m, md)" by force
  note c = year_day_correct [OF yd]
  from yd md have "year_of t = y" "tm_yday (localtime t) = d"
    by (simp_all add: year_of_def localtime_def Let_def)
  with c show "jan1 (year_of t) + tm_yday (localtime t) = t div 86400"
    "0 \<le> tm_yday (localtime t)" "tm_yday (localtime t) < year_len (year_of t)" by simp_all
qed

lemma localtime_month:
  "t div 86400 = date (year_of t) (tm_mon (localtime t)) (tm_mday (localtime t))"
  "0 \<le> tm_mon (localtime t)" "tm_mon (localtime t) < 12"
  "1 \<le> tm_mday (localtime t)"
  "tm_mday (localtime t) \<le> month_lens (year_of t) ! nat (tm_mon (localtime t))"
proof -
  obtain y d where yd: "year_day 1970 (t div 86400) = (y, d)" by force
  obtain m md where md: "month_day (month_lens y) 0 d = (m, md)" by force
  note c = year_day_correct [OF yd]
  have "d < sum_list (month_lens y)" using c by (simp add: sum_month_lens)
  note r = month_day_range [OF _ this md]
  from yd md have e: "year_of t = y" "tm_mon (localtime t) = m" "tm_mday (localtime t) = md"
    by (simp_all add: year_of_def localtime_def Let_def)
  have "length (month_lens y) = 12" by (simp add: month_lens_def)
  with r c e show "t div 86400 = date (year_of t) (tm_mon (localtime t)) (tm_mday (localtime t))"
    "0 \<le> tm_mon (localtime t)" "tm_mon (localtime t) < 12" "1 \<le> tm_mday (localtime t)"
    "tm_mday (localtime t) \<le> month_lens (year_of t) ! nat (tm_mon (localtime t))"
    by (auto simp: date_def before_month_def)
qed

lemma localtime_clock:
  "t mod 86400 = 3600 * tm_hour (localtime t) + 60 * tm_min (localtime t) + tm_sec (localtime t)"
  "0 \<le> tm_hour (localtime t)" "tm_hour (localtime t) < 24"
  "0 \<le> tm_min (localtime t)" "tm_min (localtime t) < 60"
  "0 \<le> tm_sec (localtime t)" "tm_sec (localtime t) < 60"
proof -
  have e: "tm_hour (localtime t) = t mod 86400 div 3600"
    "tm_min (localtime t) = t mod 86400 div 60 mod 60" "tm_sec (localtime t) = t mod 86400 mod 60"
    by (simp_all add: localtime_def Let_def split: prod.splits)
  have *: "s = 3600 * (s div 3600) + 60 * (s div 60 mod 60) + s mod 60" for s :: int
  proof -
    have "s div 3600 = s div 60 div 60" by (simp add: zdiv_zmult2_eq [symmetric])
    then show ?thesis
      using mult_div_mod_eq [of 60 s] mult_div_mod_eq [of 60 "s div 60"] by linarith
  qed
  show "t mod 86400 = 3600 * tm_hour (localtime t) + 60 * tm_min (localtime t) + tm_sec (localtime t)"
    unfolding e by (rule *)
  have "0 \<le> t mod 86400" "t mod 86400 < 86400" by simp_all
  then show "0 \<le> tm_hour (localtime t)" "tm_hour (localtime t) < 24"
    "0 \<le> tm_min (localtime t)" "tm_min (localtime t) < 60"
    "0 \<le> tm_sec (localtime t)" "tm_sec (localtime t) < 60"
    unfolding e by simp_all
qed

lemma mktime_localtime: "mktime (localtime t) = t"
proof -
  have "mktime (localtime t) = 86400 * (t div 86400) + t mod 86400"
    using localtime_month(1) [of t] localtime_clock(1) [of t]
    by (simp add: mktime_def year_of_def)
  then show ?thesis by simp
qed

lemma weekday_localtime: "tm_wday (localtime t) = weekday (t div 86400)"
  by (simp add: localtime_def Let_def split: prod.splits)

lemma tm_sec_mod: "tm_sec (localtime t) = t mod 60"
  by (simp add: localtime_def Let_def mod_mod_cancel split: prod.splits)

text \<open>In the years 2001 to 2099 the century rules play no part.\<close>

lemma century_2001_2099:
  fixes y :: int
  assumes "2001 \<le> y" "y \<le> 2099"
  shows "(y - 1) div 100 = 20" "(y - 1) div 400 = 5" "y mod 100 \<noteq> 0"
proof -
  show "(y - 1) div 100 = 20" by (rule int_div_pos_eq [of _ _ _ "y - 2001"]) (use assms in auto)
  show "(y - 1) div 400 = 5" by (rule int_div_pos_eq [of _ _ _ "y - 2001"]) (use assms in auto)
  have "y mod 100 = y - 2000" by (rule int_mod_pos_eq [of _ _ 20]) (use assms in auto)
  then show "y mod 100 \<noteq> 0" using assms by simp
qed

lemma leap_2001_2099: "2001 \<le> y \<Longrightarrow> y \<le> 2099 \<Longrightarrow> leap y \<longleftrightarrow> y mod 4 = 0"
  by (simp add: leap_def century_2001_2099)

lemma jan1_2001_2099:
  "2001 \<le> y \<Longrightarrow> y \<le> 2099 \<Longrightarrow> jan1 y = 365 * (y - 1970) + (y - 1) div 4 - 492"
  by (simp add: jan1_def century_2001_2099)

text \<open>The year of a time stamp from the bounds of the year.\<close>

lemma year_of_interval:
  assumes "86400 * jan1 y \<le> t" "t < 86400 * jan1 (y + 1)"
  shows "year_of t = y"
proof -
  define d where "d = t div 86400 - jan1 y"
  have t: "t = 86400 * (t div 86400) + t mod 86400" "0 \<le> t mod 86400" "t mod 86400 < 86400" by simp_all
  have "jan1 y \<le> t div 86400" using t assms(1) by linarith
  moreover have "t div 86400 < jan1 y + year_len y" using t assms(2) jan1_Suc [of y] by linarith
  ultimately have "0 \<le> d" "d < year_len y" by (simp_all add: d_def)
  moreover have "jan1 y + d = jan1 (year_of t) + tm_yday (localtime t)"
    using localtime_year(1) [of t] by (simp add: d_def)
  ultimately show ?thesis using localtime_year(2,3) [of t] year_unique by metis
qed

end
