(* ===== verification/Crontab.thy ===== *)
theory Crontab
  imports Crontab_Field Cron_Env Calendar
begin

text \<open>
  The crontab of the cron daemon (\<^verbatim>\<open>cron/cron.c\<close>): job lines (\<^verbatim>\<open>decode_line\<close>), reading a line
  (\<^verbatim>\<open>fdgets\<close>), the default file (\<^verbatim>\<open>create_file\<close>), loading the file (\<^verbatim>\<open>load_file\<close>) and starting the
  jobs that are due (\<^verbatim>\<open>check_runs\<close>).  The password database, the file system's answers and the size
  \<^verbatim>\<open>BUFSIZ\<close> are arguments.
\<close>

section \<open>Job lines\<close>

record centry =
  username :: string
  prog :: string
  environ :: env_block
  user :: int
  minutes :: bitstr_t
  hours :: bitstr_t
  dom :: bitstr_t
  months :: bitstr_t
  dow :: bitstr_t

record passwd =
  pw_name :: string
  pw_uid :: int

record users =
  getpwuid :: "int \<Rightarrow> passwd option"
  getpwnam :: "string \<Rightarrow> passwd option"

text \<open>\<^verbatim>\<open>strtok(NULL, " \t")\<close>: the token, or \<^verbatim>\<open>NULL\<close>, and the saved position.\<close>

definition next_tok :: "string \<Rightarrow> string option \<times> string" where
  "next_tok s = (case strtok blank s of None \<Rightarrow> (None, []) | Some (t, r) \<Rightarrow> (Some t, r))"

text \<open>The user field: login name and user id.\<close>

definition decode_user :: "users \<Rightarrow> string \<Rightarrow> (string \<times> int) option" where
  "decode_user us p =
     (if starts_with isdigit p
      then let uid = atoi p
           in Some (case getpwuid us uid of
                      None \<Rightarrow> (''user'' @ show_int uid, uid)
                    | Some pwd \<Rightarrow> (pw_name pwd, uid))
      else map_option (\<lambda>pwd. (pw_name pwd, pw_uid pwd)) (getpwnam us p))"

text \<open>
  The five time fields, each cut off the line and decoded into a zeroed bit string; the remaining
  text is returned.
\<close>

type_synonym fields = "bitstr_t \<times> bitstr_t \<times> bitstr_t \<times> bitstr_t \<times> bitstr_t"

definition next_field :: "nat \<Rightarrow> string list option \<Rightarrow> int \<Rightarrow> string \<Rightarrow> (bitstr_t \<times> string) option" where
  "next_field nbits abbrs zerov s =
     (let (t, r) = next_tok s; (ok, b) = decode_elem t nbits abbrs (bit_decl nbits) zerov
      in if ok then Some (b, r) else None)"

definition decode_times :: "string \<Rightarrow> (fields \<times> string) option" where
  "decode_times line =
     (case next_field 60 None 0 line of None \<Rightarrow> None | Some (mi, s) \<Rightarrow>
     (case next_field 24 None 0 s of None \<Rightarrow> None | Some (ho, s) \<Rightarrow>
     (case next_field 32 None (- 1) s of None \<Rightarrow> None | Some (dm, s) \<Rightarrow>
     (case next_field 13 (Some month_names) (- 1) s of None \<Rightarrow> None | Some (mo, s) \<Rightarrow>
     (case next_field 7 (Some day_names) 7 s of None \<Rightarrow> None | Some (dw, s) \<Rightarrow>
       Some ((mi, ho, dm, mo, dw), s))))))"

definition decode_line :: "users \<Rightarrow> string \<Rightarrow> env \<Rightarrow> centry list \<Rightarrow> bool \<times> centry list" where
  "decode_line us line env tasklist =
     (case decode_times line of
        None \<Rightarrow> (False, tasklist)
      | Some ((mi, ho, dm, mo, dw), s) \<Rightarrow>
          (case next_tok s of
             (None, _) \<Rightarrow> (False, tasklist)
           | (Some p, s) \<Rightarrow>
               (case decode_user us p of
                  None \<Rightarrow> (False, tasklist)
                | Some (un, uid) \<Rightarrow>
                    (if s = [] then (False, tasklist)
                     else (True, \<lparr>username = un, prog = s, environ = cloneenv env, user = uid,
                                  minutes = mi, hours = ho, dom = dm, months = mo, dow = dw\<rparr>
                                 # tasklist)))))"

section \<open>Reading and loading the file\<close>

text \<open>
  \<^verbatim>\<open>fdgets\<close> with \<open>count - 1\<close> characters left: the text stored in the buffer, the result, and the rest of
  the file.
\<close>

fun fdgets :: "nat \<Rightarrow> string \<Rightarrow> string \<times> bool \<times> string" where
  "fdgets 0 f = ([], True, f)"
| "fdgets (Suc i) [] = (if 0 < i then [NL] else [], False, [])"
| "fdgets (Suc i) (ch # f) =
     (if ch = NL then ([NL], True, f)
      else case fdgets i f of (s, r, f') \<Rightarrow> (ch # s, r, f'))"

definition create_file :: string where
  "create_file =
     ''SHELL=/bin/sh'' @ [NL]
     @ ''PATH=/sbin:/bin:/usr/sbin:/usr/bin:/usr/local/bin'' @ [NL]
     @ ''MAILTO=root'' @ [NL]
     @ ''HOME=/'' @ [NL]
     @ [NL]
     @ ''# run-parts'' @ [NL]"

record stat =
  st_mode :: u32
  st_ino :: int
  st_dev :: int
  st_uid :: int
  st_mtime :: int

text \<open>The answers of \<^verbatim>\<open>lstat\<close> and \<^verbatim>\<open>fstat\<close> and the content of an open file.\<close>

record crontab_file =
  lstat :: "stat option"
  fstat :: "stat option"
  content :: string

text \<open>
  The daemon's state.  \<open>below\<close> is the memory in front of the line buffer, nearest byte first;
  \<open>messages\<close> are the lines built by \<^verbatim>\<open>log3\<close>.
\<close>

record cron =
  tasklist :: "centry list"
  env :: env
  file_mtime :: int
  below :: string
  messages :: "string list"

definition say :: "string \<Rightarrow> cron \<Rightarrow> cron" where
  "say m st = st\<lparr>messages := messages st @ [m]\<rparr>"

text \<open>
  \<^verbatim>\<open>while (isspace(*p)) *p-- = 0\<close> starts at the newline.  On a line of white space only it runs
  past the start of the buffer and clears the white space in front of it.
\<close>

definition rtrim :: "string \<Rightarrow> string" where
  "rtrim s = rev (dropWhile isspace (rev s))"

definition clear_below :: "string \<Rightarrow> string" where
  "clear_below m = map (\<lambda>_. NUL) (takeWhile isspace m) @ dropWhile isspace m"

text \<open>One line of the file, without its newline.\<close>

definition load_line :: "users \<Rightarrow> nat \<Rightarrow> string \<Rightarrow> cron \<Rightarrow> cron" where
  "load_line us line body st =
     (let st = (if list_all isspace body then st\<lparr>below := clear_below (below st)\<rparr> else st);
          p = dropWhile isspace (rtrim body)
      in if p = [] \<or> hd p = CHR ''#'' then st
         else let (res, st) =
                (if isdigit (hd p) \<or> hd p = CHR ''*''
                 then case decode_line us p (env st) (tasklist st) of
                        (r, ts) \<Rightarrow> (r, st\<lparr>tasklist := ts\<rparr>)
                 else case decode_env p (env st) of (r, e) \<Rightarrow> (r, st\<lparr>env := e\<rparr>))
              in if res then st
                 else say (error2 ''Crontab has malformed input line '' (show_nat line)) st)"

lemma fdgets_length: "fdgets k f = (s, True, r) \<Longrightarrow> length f = length s + length r"
  by (induction k f arbitrary: s r rule: fdgets.induct) (auto split: if_splits prod.splits)

lemma fdgets_shorter:
  assumes "(s, m, r) = fdgets k f" "m" "NL \<in> set (takeWhile (\<lambda>c. c \<noteq> NUL) s)"
  shows "length r < length f"
proof -
  have "length f = length s + length r" using assms(1,2) fdgets_length [of k f s r] by simp
  with assms(3) show ?thesis by (cases s) auto
qed

text \<open>The \<^verbatim>\<open>do ... while (moreinput)\<close> loop; \<^const>\<open>False\<close> is the exit through \<^verbatim>\<open>failed\<close>.\<close>

function load_lines :: "users \<Rightarrow> nat \<Rightarrow> nat \<Rightarrow> string \<Rightarrow> cron \<Rightarrow> bool \<times> cron" where
  "load_lines us bufsiz line f st =
     (case fdgets (bufsiz - 1) f of (s, moreinput, f') \<Rightarrow>
        let buf = takeWhile (\<lambda>c. c \<noteq> NUL) s
        in if NL \<notin> set buf then (False, st)
           else let st = load_line us (line + 1) (takeWhile (\<lambda>c. c \<noteq> NL) buf) st
                in if moreinput then load_lines us bufsiz (line + 1) f' st else (True, st))"
  by auto
termination
  by (relation "measure (\<lambda>(us, bufsiz, line, f, st). length f)")
    (auto intro: fdgets_shorter)

declare load_lines.simps [simp del]

definition S_IFREG :: u32 where "S_IFREG = 0x8000"
definition S_IWGRP :: u32 where "S_IWGRP = 0x10"
definition S_IWOTH :: u32 where "S_IWOTH = 0x2"

text \<open>The permission checks, in the order of the code: the message of the first that fails.\<close>

definition check_stat :: "crontab_file \<Rightarrow> string + stat" where
  "check_stat fp =
     (case (lstat fp, fstat fp) of
        (Some ls, Some fs) \<Rightarrow>
          (if st_mode ls AND S_IFREG = 0 then Inl ''Crontab not regular file''
           else if st_ino fs \<noteq> st_ino ls then Inl ''Crontab inode changed between stat and open''
           else if st_dev fs \<noteq> st_dev ls then Inl ''Crontab device changed between stat and open''
           else if st_uid fs \<noteq> 0 then Inl ''Crontab not owned by uid 0''
           else if st_mode fs AND (S_IWGRP OR S_IWOTH) \<noteq> 0
           then Inl ''Crontab group and/or world writable''
           else Inr fs)
      | _ \<Rightarrow> Inl ''Cannot stat crontab'')"

definition default_env :: env where
  "default_env = stoenv ''PATH'' ''/bin:/usr/bin:/etc'' (stoenv ''SHELL'' ''/bin/sh'' (zapenv []))"

definition CRONFILE :: string where
  "CRONFILE = ''/mnt/ramdisk/crontab''"

definition load_file :: "users \<Rightarrow> nat \<Rightarrow> crontab_file option \<Rightarrow> cron \<Rightarrow> bool \<times> cron" where
  "load_file us bufsiz file st =
     (case file of
        None \<Rightarrow> (False, say (error1 ''Cannot open crontab'') st)
      | Some fp \<Rightarrow>
          (case check_stat fp of
             Inl msg \<Rightarrow> (False, say (error1 msg) st)
           | Inr fs \<Rightarrow>
               (if st_mtime fs = file_mtime st then (True, st)
                else let st = say (log3 (Some ''Loading crontab file: '') (Some CRONFILE) None)
                                (st\<lparr>file_mtime := st_mtime fs\<rparr>);
                         st = st\<lparr>tasklist := [], env := default_env\<rparr>;
                         (ok, st) = load_lines us bufsiz 0 (content fp) st
                     in if ok then (True, st\<lparr>env := zapenv (env st)\<rparr>) else (False, st))))"

section \<open>Starting jobs\<close>

definition pad2 :: "char \<Rightarrow> int \<Rightarrow> string" where
  "pad2 c n = (if 0 \<le> n \<and> n < 10 then [c] else []) @ show_int n"

text \<open>\<^verbatim>\<open>asctime_r\<close> without the newline that \<^verbatim>\<open>check_runs\<close> removes.\<close>

definition asctime :: "tm \<Rightarrow> string" where
  "asctime now =
     take 3 (drop (3 * nat (tm_wday now)) ''SunMonTueWedThuFriSat'') @ [SP]
     @ take 3 (drop (3 * nat (tm_mon now)) ''JanFebMarAprMayJunJulAugSepOctNovDec'') @ [SP]
     @ pad2 SP (tm_mday now) @ [SP] @ pad2 (CHR ''0'') (tm_hour now) @ '':''
     @ pad2 (CHR ''0'') (tm_min now) @ '':'' @ pad2 (CHR ''0'') (tm_sec now) @ [SP]
     @ show_int (1900 + tm_year now)"

definition due :: "tm \<Rightarrow> centry \<Rightarrow> bool" where
  "due now task \<longleftrightarrow>
     bit_test (minutes task) (nat (tm_min now)) \<and>
     bit_test (hours task) (nat (tm_hour now)) \<and>
     bit_test (months task) (nat (tm_mon now + 1)) \<and>
     bit_test (dom task) (nat (tm_mday now)) \<and>
     bit_test (dow task) (nat (tm_wday now))"

text \<open>The process image of a job: argument vector and environment of \<^verbatim>\<open>/usr/sbin/crond\<close>.\<close>

record spawn =
  argv :: "string list"
  envp :: env_block

definition job_spawn :: "centry \<Rightarrow> spawn" where
  "job_spawn task =
     \<lparr>argv = [''cron-parent'', prog task, show_int (user task), username task],
      envp = environ task\<rparr>"

text \<open>\<open>vfork\<close> tells for which tasks the child is created.\<close>

fun check_runs :: "(centry \<Rightarrow> bool) \<Rightarrow> tm \<Rightarrow> centry list \<Rightarrow> string list \<times> spawn list" where
  "check_runs vfork now [] = ([], [])"
| "check_runs vfork now (task # tasks) =
     (let (msgs, jobs) = check_runs vfork now tasks
      in if due now task
         then let m = log3 (Some (asctime now)) (Some '' Running: '') (Some (prog task))
              in if vfork task then (m # msgs, job_spawn task # jobs)
                 else (m # error2 ''Unable to exec task: '' (prog task) # msgs, jobs)
         else (msgs, jobs))"

section \<open>Reading lines\<close>

lemma fdgets_line:
  "NL \<notin> set l \<Longrightarrow> length l < k \<Longrightarrow> fdgets k (l @ NL # rest) = (l @ [NL], True, rest)"
proof (induction l arbitrary: k)
  case Nil
  then show ?case by (cases k) auto
next
  case (Cons c l)
  then show ?case by (cases k) auto
qed

lemma fdgets_eof: "1 < k \<Longrightarrow> fdgets k [] = ([NL], False, [])"
  by (cases k) auto

definition clean_line :: "nat \<Rightarrow> string \<Rightarrow> bool" where
  "clean_line bufsiz l \<longleftrightarrow> NL \<notin> set l \<and> NUL \<notin> set l \<and> length l + 1 < bufsiz"

lemma takeWhile_line: "NUL \<notin> set l \<Longrightarrow> takeWhile (\<lambda>c. c \<noteq> NUL) (l @ [NL]) = l @ [NL]"
  by (simp add: takeWhile_eq_all_conv) auto

lemma load_lines_step:
  assumes "clean_line bufsiz l"
  shows "load_lines us bufsiz n (l @ NL # rest) st =
    load_lines us bufsiz (n + 1) rest (load_line us (n + 1) l st)"
proof -
  have "fdgets (bufsiz - 1) (l @ NL # rest) = (l @ [NL], True, rest)"
    using assms by (intro fdgets_line) (auto simp: clean_line_def)
  moreover have "takeWhile (\<lambda>c. c \<noteq> NL) (l @ [NL]) = l"
    using assms by (subst takeWhile_append2) (auto simp: clean_line_def)
  ultimately show ?thesis
    using assms takeWhile_line [of l]
    by (subst load_lines.simps) (simp add: clean_line_def Let_def)
qed

text \<open>
  At the end of the file \<^verbatim>\<open>fdgets\<close> delivers an empty line, so every load ends by clearing white space
  in front of the buffer.
\<close>

lemma load_lines_eof:
  "2 < bufsiz \<Longrightarrow> load_lines us bufsiz n [] st = (True, st\<lparr>below := clear_below (below st)\<rparr>)"
  using fdgets_eof [of "bufsiz - 1"]
  by (subst load_lines.simps) (simp add: Let_def load_line_def rtrim_def)

fun load_all :: "users \<Rightarrow> nat \<Rightarrow> string list \<Rightarrow> cron \<Rightarrow> cron" where
  "load_all us n [] st = st\<lparr>below := clear_below (below st)\<rparr>"
| "load_all us n (l # ls) st = load_all us (n + 1) ls (load_line us (n + 1) l st)"

definition file_of :: "string list \<Rightarrow> string" where
  "file_of ls = concat (map (\<lambda>l. l @ [NL]) ls)"

lemma load_lines_file:
  "list_all (clean_line bufsiz) ls \<Longrightarrow> 2 < bufsiz \<Longrightarrow>
   load_lines us bufsiz n (file_of ls) st = (True, load_all us n ls st)"
proof (induction ls arbitrary: n st)
  case Nil
  then show ?case by (simp add: file_of_def load_lines_eof)
next
  case (Cons l ls)
  then have "load_lines us bufsiz n (l @ NL # file_of ls) st = (True, load_all us n (l # ls) st)"
    by (simp add: load_lines_step)
  then show ?case by (simp add: file_of_def)
qed

section \<open>Jobs as abstract syntax\<close>

record job =
  j_min :: "item list"
  j_hour :: "item list"
  j_dom :: "item list"
  j_month :: "item list"
  j_dow :: "item list"
  j_user :: string
  j_cmd :: string

definition print_job :: "job \<Rightarrow> string" where
  "print_job j = print_items (j_min j) @ SP # print_items (j_hour j) @ SP # print_items (j_dom j)
     @ SP # print_items (j_month j) @ SP # print_items (j_dow j) @ SP # j_user j @ SP # j_cmd j"

definition items_ok :: "nat \<Rightarrow> nat \<Rightarrow> item list \<Rightarrow> bool" where
  "items_ok nbits base is \<longleftrightarrow> is \<noteq> [] \<and> list_all (item_ok nbits base) is"

definition job_ok :: "users \<Rightarrow> job \<Rightarrow> bool" where
  "job_ok us j \<longleftrightarrow> items_ok 60 0 (j_min j) \<and> items_ok 24 0 (j_hour j) \<and> items_ok 32 1 (j_dom j)
     \<and> items_ok 13 1 (j_month j) \<and> items_ok 7 0 (j_dow j)
     \<and> j_user j \<noteq> [] \<and> list_all (\<lambda>c. \<not> blank c) (j_user j) \<and> decode_user us (j_user j) \<noteq> None
     \<and> j_cmd j \<noteq> [] \<and> \<not> isspace (last (j_cmd j))"

definition items_has :: "nat \<Rightarrow> nat \<Rightarrow> item list \<Rightarrow> int \<Rightarrow> bool" where
  "items_has nbits base is v \<longleftrightarrow> (\<exists>i\<in>set is. nat v \<in> item_set nbits base i)"

definition job_due :: "tm \<Rightarrow> job \<Rightarrow> bool" where
  "job_due now j \<longleftrightarrow> items_has 60 0 (j_min j) (tm_min now) \<and> items_has 24 0 (j_hour j) (tm_hour now)
     \<and> items_has 32 1 (j_dom j) (tm_mday now) \<and> items_has 13 1 (j_month j) (tm_mon now + 1)
     \<and> items_has 7 0 (j_dow j) (tm_wday now)"

definition tm_ok :: "tm \<Rightarrow> bool" where
  "tm_ok now \<longleftrightarrow> 0 \<le> tm_min now \<and> tm_min now < 60 \<and> 0 \<le> tm_hour now \<and> tm_hour now < 24
     \<and> 1 \<le> tm_mday now \<and> tm_mday now \<le> 31 \<and> 0 \<le> tm_mon now \<and> tm_mon now < 12
     \<and> 0 \<le> tm_wday now \<and> tm_wday now < 7"

lemma print_items_chars:
  "c \<in> set (print_items is) \<Longrightarrow> isdigit c \<or> c \<in> {CHR ''*'', CHR ''-'', CHR ''/'', CHR '',''}"
  by (induction "is" rule: print_items.induct) (auto dest: print_item_chars)

lemma print_items_no_blank: "list_all (\<lambda>c. \<not> blank c) (print_items is)"
  unfolding list_all_iff
proof
  fix c
  assume "c \<in> set (print_items is)"
  from print_items_chars [OF this] show "\<not> blank c" by (auto simp: blank_def isdigit_def)
qed

lemma print_items_not_Nil: "is \<noteq> [] \<Longrightarrow> print_items is \<noteq> []"
  by (cases "is" rule: print_items.cases) auto

lemma next_tok_word: "w \<noteq> [] \<Longrightarrow> list_all (\<lambda>c. \<not> blank c) w \<Longrightarrow> next_tok (w @ SP # r) = (Some w, r)"
  using strtok_token [of w blank SP r] by (simp add: next_tok_def blank_def)

lemma next_field_print:
  assumes "items_ok nbits base is" "base = field_base zerov" "2 \<le> nbits" "nbits \<le> 60"
    and "zerov \<le> 0 \<or> int nbits \<le> zerov"
  shows "\<exists>b. next_field nbits abbrs zerov (print_items is @ SP # r) = Some (b, r) \<and>
    (\<forall>v. int base \<le> v \<and> v < int nbits \<longrightarrow> bit_test b (nat v) = items_has nbits base is v)"
proof -
  have l: "nbits \<le> 8 * length (bit_decl nbits)"
    using bitstr_size_enough by (simp add: bit_decl_length)
  have "list_all (item_ok nbits base) is" "int nbits \<le> INT_MAX"
    using assms(1,4) by (simp_all add: items_ok_def INT_MAX_def)
  then obtain b where b: "decode_elem (Some (print_items is)) nbits abbrs (bit_decl nbits) zerov = (True, b)"
    "bits_of b = (bits_of (bit_decl nbits) - {base..<nbits}) \<union> (\<Union>i\<in>set is. item_set nbits base i)"
    "length b = length (bit_decl nbits)"
    using decode_elem_items [OF _ assms(3) _ assms(5) l] assms(2) by metis
  have "bit_test b (nat v) \<longleftrightarrow> items_has nbits base is v" if "int base \<le> v" "v < int nbits" for v
  proof -
    have "nat v < 8 * length b" "nat v \<notin> bits_of (bit_decl nbits) - {base..<nbits}"
      using that l b(3) by auto
    then have "bit_test b (nat v) \<longleftrightarrow> nat v \<in> (\<Union>i\<in>set is. item_set nbits base i)"
      using b(2) unfolding bits_of_def by blast
    then show ?thesis by (simp add: items_has_def)
  qed
  moreover have "next_field nbits abbrs zerov (print_items is @ SP # r) = Some (b, r)"
    using assms(1) b(1) next_tok_word [OF print_items_not_Nil print_items_no_blank]
    by (simp add: next_field_def items_ok_def)
  ultimately show ?thesis by blast
qed

definition implements :: "centry \<Rightarrow> job \<Rightarrow> bool" where
  "implements t j \<longleftrightarrow> prog t = j_cmd j \<and> (\<forall>now. tm_ok now \<longrightarrow> due now t = job_due now j)"

lemma decode_line_print:
  assumes "job_ok us j"
  obtains t where "decode_line us (print_job j) e ts = (True, t # ts)" "implements t j"
    "environ t = cloneenv e"
proof -
  note a = assms [unfolded job_ok_def]
  define s7 where "s7 = j_user j @ SP # j_cmd j"
  define s5 where "s5 = print_items (j_dow j) @ SP # s7"
  define s4 where "s4 = print_items (j_month j) @ SP # s5"
  define s3 where "s3 = print_items (j_dom j) @ SP # s4"
  define s2 where "s2 = print_items (j_hour j) @ SP # s3"
  obtain mi where mi: "next_field 60 None 0 (print_items (j_min j) @ SP # s2) = Some (mi, s2)"
    "\<forall>v. 0 \<le> v \<and> v < 60 \<longrightarrow> bit_test mi (nat v) = items_has 60 0 (j_min j) v"
    using next_field_print [of 60 0 "j_min j" 0 None s2] a by (auto simp: field_base_def)
  obtain ho where ho: "next_field 24 None 0 s2 = Some (ho, s3)"
    "\<forall>v. 0 \<le> v \<and> v < 24 \<longrightarrow> bit_test ho (nat v) = items_has 24 0 (j_hour j) v"
    using next_field_print [of 24 0 "j_hour j" 0 None s3] a by (auto simp: field_base_def s2_def)
  obtain dm where dm: "next_field 32 None (- 1) s3 = Some (dm, s4)"
    "\<forall>v. 1 \<le> v \<and> v < 32 \<longrightarrow> bit_test dm (nat v) = items_has 32 1 (j_dom j) v"
    using next_field_print [of 32 1 "j_dom j" "- 1" None s4] a by (auto simp: field_base_def s3_def)
  obtain mo where mo: "next_field 13 (Some month_names) (- 1) s4 = Some (mo, s5)"
    "\<forall>v. 1 \<le> v \<and> v < 13 \<longrightarrow> bit_test mo (nat v) = items_has 13 1 (j_month j) v"
    using next_field_print [of 13 1 "j_month j" "- 1" "Some month_names" s5] a
    by (auto simp: field_base_def s4_def)
  obtain dw where dw: "next_field 7 (Some day_names) 7 s5 = Some (dw, s7)"
    "\<forall>v. 0 \<le> v \<and> v < 7 \<longrightarrow> bit_test dw (nat v) = items_has 7 0 (j_dow j) v"
    using next_field_print [of 7 0 "j_dow j" 7 "Some day_names" s7] a
    by (auto simp: field_base_def s5_def)
  obtain un uid where u: "decode_user us (j_user j) = Some (un, uid)" using a by auto
  define t where "t = \<lparr>username = un, prog = j_cmd j, environ = cloneenv e, user = uid,
    minutes = mi, hours = ho, dom = dm, months = mo, dow = dw\<rparr>"
  have "print_job j = print_items (j_min j) @ SP # s2"
    by (simp add: print_job_def s2_def s3_def s4_def s5_def s7_def)
  moreover have "next_tok s7 = (Some (j_user j), j_cmd j)"
    using a by (simp add: s7_def next_tok_word)
  ultimately have "decode_line us (print_job j) e ts = (True, t # ts)"
    using mi(1) ho(1) dm(1) mo(1) dw(1) u a by (simp add: decode_line_def decode_times_def t_def)
  moreover have "implements t j"
    using mi(2) ho(2) dm(2) mo(2) dw(2)
    by (auto simp: implements_def t_def due_def job_due_def tm_ok_def)
  ultimately show ?thesis using that by (simp add: t_def)
qed

section \<open>Files of jobs, assignments and comments\<close>

datatype cline = Job job | Assign "string \<times> string option" | Comment string

fun print_cline :: "cline \<Rightarrow> string" where
  "print_cline (Job j) = print_job j"
| "print_cline (Assign x) = print_assign x"
| "print_cline (Comment s) = CHR ''#'' # s"

definition plain_start :: "char \<Rightarrow> bool" where
  "plain_start c \<longleftrightarrow> \<not> isspace c \<and> \<not> isdigit c \<and> c \<noteq> CHR ''*'' \<and> c \<noteq> CHR ''#''"

fun cline_ok :: "users \<Rightarrow> cline \<Rightarrow> bool" where
  "cline_ok us (Job j) = job_ok us j"
| "cline_ok us (Assign x) =
     (assign_ok x \<and> plain_start (hd (fst x)) \<and> \<not> isspace (last (print_assign x)))"
| "cline_ok us (Comment s) = True"

definition assign_env :: "string \<times> string option \<Rightarrow> env \<Rightarrow> env" where
  "assign_env x e = (case snd x of None \<Rightarrow> clrenv (fst x) e | Some v \<Rightarrow> stoenv (fst x) v e)"

text \<open>The jobs of a file, last line first, each with the environment in force at its line.\<close>

fun file_jobs :: "cline list \<Rightarrow> env \<Rightarrow> (job \<times> env) list \<Rightarrow> (job \<times> env) list" where
  "file_jobs [] e js = js"
| "file_jobs (Job j # ls) e js = file_jobs ls e ((j, e) # js)"
| "file_jobs (Assign x # ls) e js = file_jobs ls (assign_env x e) js"
| "file_jobs (Comment s # ls) e js = file_jobs ls e js"

lemma print_job_ends:
  assumes "job_ok us j"
  shows "print_job j \<noteq> []" "isdigit (hd (print_job j)) \<or> hd (print_job j) = CHR ''*''"
    "\<not> isspace (hd (print_job j))" "\<not> isspace (last (print_job j))"
proof -
  obtain i "is" where i: "j_min j = i # is" using assms by (auto simp: job_ok_def items_ok_def neq_Nil_conv)
  have "hd (print_span s) = CHR ''*'' \<or> isdigit (hd (print_span s))" "print_span s \<noteq> []" for s
    using hd_show_nat_digit by (cases s; simp)+
  then have "hd (print_item i) = CHR ''*'' \<or> isdigit (hd (print_item i))"
    by (cases i rule: print_item.cases) auto
  then have h: "hd (print_items (j_min j)) = CHR ''*'' \<or> isdigit (hd (print_items (j_min j)))"
    "print_items (j_min j) \<noteq> []"
    unfolding i by (cases "is"; simp)+
  then show "print_job j \<noteq> []" "isdigit (hd (print_job j)) \<or> hd (print_job j) = CHR ''*''"
    by (auto simp: print_job_def)
  then show "\<not> isspace (hd (print_job j))" by (auto simp: isspace_def isdigit_def)
  show "\<not> isspace (last (print_job j))" using assms by (simp add: print_job_def job_ok_def)
qed

lemma trimmed:
  assumes "l \<noteq> []" "\<not> isspace (hd l)" "\<not> isspace (last l)"
  shows "dropWhile isspace (rtrim l) = l" "\<not> list_all isspace l"
proof -
  have "rtrim l = l" using assms by (cases l rule: rev_cases) (auto simp: rtrim_def)
  then show "dropWhile isspace (rtrim l) = l" using assms by (cases l) auto
  show "\<not> list_all isspace l" using assms by (cases l) auto
qed

lemma load_line_job:
  assumes "job_ok us j"
  obtains t where "load_line us n (print_job j) st = st\<lparr>tasklist := t # tasklist st\<rparr>"
    "implements t j" "environ t = cloneenv (env st)"
proof -
  note p = print_job_ends [OF assms]
  obtain t where t: "decode_line us (print_job j) (env st) (tasklist st) = (True, t # tasklist st)"
    "implements t j" "environ t = cloneenv (env st)"
    using decode_line_print [OF assms] by metis
  have "hd (print_job j) \<noteq> CHR ''#''" using p(2) by (auto simp: isdigit_def)
  with t p trimmed [OF p(1,3,4)] have "load_line us n (print_job j) st = st\<lparr>tasklist := t # tasklist st\<rparr>"
    by (simp add: load_line_def)
  with t that show ?thesis by blast
qed

lemma load_line_assign:
  assumes "cline_ok us (Assign x)"
  shows "load_line us n (print_assign x) st = st\<lparr>env := assign_env x (env st)\<rparr>"
proof -
  let ?l = "print_assign x"
  have h: "hd ?l = hd (fst x)" "?l \<noteq> []" using assms by (auto simp: print_assign_def assign_ok_def)
  then have l: "plain_start (hd ?l)" "\<not> isspace (hd ?l)" "\<not> isspace (last ?l)"
    using assms by (auto simp: plain_start_def)
  have "decode_env ?l (env st) = (True, assign_env x (env st))"
    using assms decode_env_assign [of x "env st"]
    by (cases x) (auto simp: assign_env_def env.assign_def split: option.splits)
  with l h trimmed [OF h(2) l(2,3)] show ?thesis by (simp add: load_line_def plain_start_def)
qed

lemma load_line_comment: "load_line us n (CHR ''#'' # s) st = st"
proof -
  have "\<not> isspace (CHR ''#'')" by (simp add: isspace_def)
  then have "\<exists>r. rtrim (CHR ''#'' # s) = CHR ''#'' # r"
    by (auto simp: rtrim_def dropWhile_append) (metis rev_rev_ident)
  then show ?thesis using \<open>\<not> isspace (CHR ''#'')\<close> by (auto simp: load_line_def)
qed

definition task_of :: "centry \<Rightarrow> job \<times> env \<Rightarrow> bool" where
  "task_of t x \<longleftrightarrow> implements t (fst x) \<and> environ t = cloneenv (snd x)"

lemma load_all_jobs:
  "list_all (cline_ok us) ls \<Longrightarrow> list_all2 task_of (tasklist st) js \<Longrightarrow>
   list_all2 task_of (tasklist (load_all us n (map print_cline ls) st)) (file_jobs ls (env st) js)"
proof (induction ls "env st" js arbitrary: n st rule: file_jobs.induct)
  case (2 j ls js)
  obtain t where t: "load_line us (n + 1) (print_job j) st = st\<lparr>tasklist := t # tasklist st\<rparr>"
    "implements t j" "environ t = cloneenv (env st)"
    using "2.prems" load_line_job [of us j "n + 1" st] by auto
  then show ?case
    using "2.hyps" [of "st\<lparr>tasklist := t # tasklist st\<rparr>" "n + 1"] "2.prems"
    by (simp add: task_of_def)
next
  case (3 x ls js)
  then show ?case
    using load_line_assign [of us x "n + 1" st] "3.hyps" [of "st\<lparr>env := assign_env x (env st)\<rparr>" "n + 1"]
    by simp
qed (simp_all add: load_line_comment)

lemma check_runs_jobs: "snd (check_runs (\<lambda>_. True) now ts) = map job_spawn (filter (due now) ts)"
  by (induction ts) (auto simp: Let_def split: prod.splits)

lemma runs_of_tasks:
  assumes "list_all2 task_of ts xs" "tm_ok now"
  shows "map (\<lambda>s. (argv s ! 1, envp s)) (map job_spawn (filter (due now) ts)) =
    map (\<lambda>(j, e). (j_cmd j, cloneenv e)) (filter (\<lambda>(j, e). job_due now j) xs)"
  using assms
  by (induction rule: list_all2_induct) (auto simp: task_of_def implements_def job_spawn_def)

lemma load_file_lines:
  assumes "list_all (clean_line bufsiz) ls" "2 < bufsiz" "check_stat fp = Inr fs"
    and "st_mtime fs \<noteq> file_mtime st" "content fp = file_of ls"
  obtains st1 where "load_file us bufsiz (Some fp) st
      = (True, (load_all us 0 ls st1)\<lparr>env := zapenv (env (load_all us 0 ls st1))\<rparr>)"
    "tasklist st1 = []" "env st1 = default_env" "below st1 = below st" "file_mtime st1 = st_mtime fs"
  using assms load_lines_file [OF assms(1,2), of us 0]
  by (force simp: load_file_def Let_def say_def)

section \<open>Properties\<close>

text \<open>
  C3. From the text to the jobs: when a fresh crontab with acceptable owner and mode consists of job
  lines, assignments and comments within the limits of the format, loading it succeeds and a check at
  any valid time starts exactly the jobs all of whose five fields contain the time, in the reverse
  order of the file, each with its command and the environment in force at its line.
\<close>

theorem crontab_jobs_run:
  assumes "list_all (cline_ok us) ls" and "list_all (clean_line bufsiz) (map print_cline ls)"
    and "2 < bufsiz" and "check_stat fp = Inr fs" and "st_mtime fs \<noteq> file_mtime st"
    and "content fp = file_of (map print_cline ls)" and "tm_ok now"
  shows "\<exists>st'. load_file us bufsiz (Some fp) st = (True, st') \<and>
    map (\<lambda>s. (argv s ! 1, envp s)) (snd (check_runs (\<lambda>_. True) now (tasklist st'))) =
    map (\<lambda>(j, e). (j_cmd j, cloneenv e))
      (filter (\<lambda>(j, e). job_due now j) (file_jobs ls default_env []))"
proof -
  let ?ls = "map print_cline ls"
  obtain st1 where l: "load_file us bufsiz (Some fp) st
      = (True, (load_all us 0 ?ls st1)\<lparr>env := zapenv (env (load_all us 0 ?ls st1))\<rparr>)"
    and st1: "tasklist st1 = []" "env st1 = default_env"
    using load_file_lines [OF assms(2-6)] by metis
  have "list_all2 task_of (tasklist (load_all us 0 ?ls st1)) (file_jobs ls default_env [])"
    using load_all_jobs [OF assms(1), of st1 "[]" 0] st1 by simp
  with l runs_of_tasks [OF this assms(7)] show ?thesis by (simp add: check_runs_jobs)
qed

definition sample_users :: users where
  "sample_users = \<lparr>getpwuid = (\<lambda>u. if u = 0 then Some \<lparr>pw_name = ''root'', pw_uid = 0\<rparr> else None),
     getpwnam = (\<lambda>n. if n = ''root'' then Some \<lparr>pw_name = ''root'', pw_uid = 0\<rparr> else None)\<rparr>"

definition sample_job :: job where
  "sample_job = \<lparr>j_min = [(All, Some 10)], j_hour = [(Span 2 4, None), (One 9, None)],
     j_dom = [(All, None)], j_month = [(All, None)], j_dow = [(Span 1 5, None)],
     j_user = ''root'', j_cmd = ''/bin/date -u''\<rparr>"

definition sample_file :: "cline list" where
  "sample_file = [Comment '' nightly'', Assign (''HOME'', Some ''/''), Job sample_job]"

definition root_stat :: "int \<Rightarrow> stat" where
  "root_stat mtime = \<lparr>st_mode = 0x81A4, st_ino = 7, st_dev = 1, st_uid = 0, st_mtime = mtime\<rparr>"

definition sample_crontab :: "string \<Rightarrow> crontab_file" where
  "sample_crontab s = \<lparr>lstat = Some (root_stat 5), fstat = Some (root_stat 5), content = s\<rparr>"

definition fresh_cron :: cron where
  "fresh_cron = \<lparr>tasklist = [], env = [], file_mtime = 0, below = [NL, SP, CHR ''x''], messages = []\<rparr>"

definition sample_now :: tm where
  "sample_now = localtime 1172743800"

lemma sample_check: "check_stat (sample_crontab s) = Inr (root_stat 5)"
  by (simp add: check_stat_def sample_crontab_def root_stat_def S_IFREG_def S_IWGRP_def S_IWOTH_def)

theorem crontab_jobs_run_witness:
  "\<exists>st'. load_file sample_users 4096 (Some (sample_crontab (file_of (map print_cline sample_file))))
       fresh_cron = (True, st') \<and>
     map (\<lambda>s. (argv s ! 1, envp s)) (snd (check_runs (\<lambda>_. True) sample_now (tasklist st'))) =
     map (\<lambda>(j, e). (j_cmd j, cloneenv e))
       (filter (\<lambda>(j, e). job_due sample_now j) (file_jobs sample_file default_env []))"
proof -
  have ok: "list_all (cline_ok sample_users) sample_file" by code_simp
  have cl: "list_all (clean_line 4096) (map print_cline sample_file)" by code_simp
  have now: "tm_ok sample_now" by code_simp
  have new: "st_mtime (root_stat 5) \<noteq> file_mtime fresh_cron"
    by (simp add: root_stat_def fresh_cron_def)
  show ?thesis
    by (rule crontab_jobs_run [OF ok cl _ sample_check new _ now]) (simp_all add: sample_crontab_def)
qed

text \<open>
  C19. Only a crontab that is owned by root, writable by nobody else and the same file before and
  after opening can change the jobs or the environment of the daemon.
\<close>

theorem load_file_trusted:
  assumes "tasklist (snd (load_file us bufsiz file st)) \<noteq> tasklist st
    \<or> env (snd (load_file us bufsiz file st)) \<noteq> env st"
  shows "\<exists>fp ls fs. file = Some fp \<and> lstat fp = Some ls \<and> fstat fp = Some fs \<and> st_uid fs = 0
    \<and> st_mode fs AND 0x12 = 0 \<and> st_mode ls AND 0x8000 \<noteq> 0
    \<and> st_ino fs = st_ino ls \<and> st_dev fs = st_dev ls \<and> st_mtime fs \<noteq> file_mtime st"
proof -
  obtain fp where fp: "file = Some fp"
    using assms by (cases "file") (auto simp: load_file_def say_def)
  obtain fs where fs: "check_stat fp = Inr fs" "st_mtime fs \<noteq> file_mtime st"
    using assms fp
    by (cases "check_stat fp") (auto simp: load_file_def say_def Let_def split: if_splits)
  have "S_IWGRP OR S_IWOTH = 0x12" by (simp add: S_IWGRP_def S_IWOTH_def)
  with fs fp show ?thesis
    by (auto simp: check_stat_def S_IFREG_def split: option.splits if_splits)
qed

theorem load_file_trusted_witness:
  "tasklist (snd (load_file sample_users 4096
      (Some (sample_crontab (file_of [print_job sample_job]))) fresh_cron)) \<noteq> tasklist fresh_cron
   \<and> (\<exists>fp ls fs. Some (sample_crontab (file_of [print_job sample_job])) = Some fp
      \<and> lstat fp = Some ls \<and> fstat fp = Some fs \<and> st_uid fs = 0
      \<and> st_mode fs AND 0x12 = 0 \<and> st_mode ls AND 0x8000 \<noteq> 0
      \<and> st_ino fs = st_ino ls \<and> st_dev fs = st_dev ls \<and> st_mtime fs \<noteq> file_mtime fresh_cron)"
proof -
  have "tasklist (snd (load_file sample_users 4096
      (Some (sample_crontab (file_of [print_job sample_job]))) fresh_cron)) \<noteq> tasklist fresh_cron"
    by code_simp
  then show ?thesis using load_file_trusted by blast
qed

text \<open>
  C37. A line that does not fit the buffer stops the load half way, and for good: the time stamp of
  the file is already recorded, so the next load of the same file reports success without reading it
  and the jobs after the long line are never scheduled.
\<close>

theorem load_file_long_line:
  assumes "check_stat fp = Inr fs" and "st_mtime fs \<noteq> file_mtime st"
    and "content fp = file_of ls @ long @ rest" and "list_all (clean_line bufsiz) ls"
    and "NL \<notin> set long" and "length long + 1 = bufsiz"
  shows "\<exists>st'. load_file us bufsiz (Some fp) st = (False, st')
    \<and> load_file us bufsiz (Some fp) st' = (True, st')"
proof -
  have k: "NL \<notin> set s" if "fdgets k (l @ r) = (s, m, f)" "NL \<notin> set l" "length l = k" for k l r s m f
    using that by (induction l arbitrary: k s) (auto split: prod.splits)
  have stop: "load_lines us bufsiz n (long @ rest) x = (False, x)" for n x
    using k [of "bufsiz - 1" long rest] assms(5,6)
    by (subst load_lines.simps) (auto simp: Let_def split: prod.splits dest!: set_takeWhileD)
  have "\<exists>x'. load_lines us bufsiz n (file_of ls @ long @ rest) x = (False, x') \<and> file_mtime x' = file_mtime x"
    for n x
    using assms(4)
  proof (induction ls arbitrary: n x)
    case (Cons l ls)
    have "file_mtime (load_line us m l y) = file_mtime y" for m y
      by (auto simp: load_line_def say_def Let_def split: prod.splits)
    with Cons load_lines_step [of bufsiz l us n "file_of ls @ long @ rest" x] show ?case
      by (auto simp: file_of_def) metis
  qed (simp add: stop file_of_def)
  from this [of 0 "(say (log3 (Some ''Loading crontab file: '') (Some CRONFILE) None)
      (st\<lparr>file_mtime := st_mtime fs\<rparr>))\<lparr>tasklist := [], env := default_env\<rparr>"]
  obtain st' where "load_file us bufsiz (Some fp) st = (False, st')" "file_mtime st' = st_mtime fs"
    using assms(1-3) by (auto simp: load_file_def Let_def say_def)
  then show ?thesis using assms(1) by (auto simp: load_file_def)
qed

theorem load_file_long_line_witness:
  "\<exists>st'. load_file sample_users 10 (Some (sample_crontab (''# 3456789'' @ print_job sample_job))) fresh_cron
       = (False, st')
     \<and> load_file sample_users 10 (Some (sample_crontab (''# 3456789'' @ print_job sample_job))) st'
       = (True, st')"
proof -
  have new: "st_mtime (root_stat 5) \<noteq> file_mtime fresh_cron"
    by (simp add: root_stat_def fresh_cron_def)
  show ?thesis
    by (rule load_file_long_line [OF sample_check new, of _ "[]" "''# 3456789''" "print_job sample_job"])
      (simp_all add: sample_crontab_def file_of_def)
qed

text \<open>
  Every successful load of a crontab writes in front of the line buffer: the empty line at the end
  of the file sends the trimming loop below the buffer, where it overwrites the white space it finds.
\<close>

theorem load_file_underrun:
  assumes "list_all (cline_ok us) ls" and "list_all (clean_line bufsiz) (map print_cline ls)"
    and "2 < bufsiz" and "check_stat fp = Inr fs" and "st_mtime fs \<noteq> file_mtime st"
    and "content fp = file_of (map print_cline ls)"
  shows "below (snd (load_file us bufsiz (Some fp) st)) = clear_below (below st)"
proof -
  have "below (load_all us n (map print_cline ls) x) = clear_below (below x)" for n x
    using assms(1)
  proof (induction ls arbitrary: n x)
    case (Cons l ls)
    have "below (load_line us m (print_cline l) y) = below y" for m y
      using Cons.prems load_line_job [of us _ m y] load_line_assign [of us _ m y]
      by (cases l) (auto simp: load_line_comment, metis cron.select_convs(4) cron.surjective
          cron.update_convs(1))
    with Cons show ?case by simp
  qed simp
  moreover obtain st1 where "load_file us bufsiz (Some fp) st = (True,
      (load_all us 0 (map print_cline ls) st1)
        \<lparr>env := zapenv (env (load_all us 0 (map print_cline ls) st1))\<rparr>)" "below st1 = below st"
    using load_file_lines [OF assms(2-6), of us] by metis
  ultimately show ?thesis by simp
qed

theorem load_file_underrun_witness:
  "below (snd (load_file sample_users 4096
      (Some (sample_crontab (file_of (map print_cline sample_file)))) fresh_cron))
   = clear_below (below fresh_cron)
   \<and> clear_below (below fresh_cron) = [NUL, NUL, CHR ''x'']"
proof
  have ok: "list_all (cline_ok sample_users) sample_file" by code_simp
  have cl: "list_all (clean_line 4096) (map print_cline sample_file)" by code_simp
  have new: "st_mtime (root_stat 5) \<noteq> file_mtime fresh_cron"
    by (simp add: root_stat_def fresh_cron_def)
  show "below (snd (load_file sample_users 4096
      (Some (sample_crontab (file_of (map print_cline sample_file)))) fresh_cron))
    = clear_below (below fresh_cron)"
    by (rule load_file_underrun [OF ok cl _ sample_check new]) (simp_all add: sample_crontab_def)
  show "clear_below (below fresh_cron) = [NUL, NUL, CHR ''x'']" by code_simp
qed

end
