(* ===== verification/Daylight.thy ===== *)
theory Daylight
  imports Calendar
begin

text \<open>
  Time zones and daylight saving of the NTP client (\<^verbatim>\<open>apps/NTP/fntp.c\<close>): the \<open>TimeZone\<close>
  table, the day numbers between which each region saves daylight (\<open>dst_days\<close>, the
  \<^verbatim>\<open>switch\<close>) and \<open>daylight_saving\<close>, the whole decision for a time stamp.  The theorems compare
  the decision with the calendar rules of each region, stated with \<^const>\<open>date\<close> and
  \<^const>\<open>sunday_from\<close>.
\<close>

section \<open>The table and the decision\<close>

datatype dst_region =
    NEEDNOT_DST | NA_DST | EU_DST | CHILE_DST | SA_DST | IRAQ_DST
  | AU2_DST | AU3_DST | AF_DST | AU_DST

datatype TZ_S = TZ (str: string) (num: rat) (dst: dst_region)

definition TimeZone :: "TZ_S list" where
  "TimeZone = [
   TZ ''(GMT-12:00) International Date Line West'' (- 12) NEEDNOT_DST,
   TZ ''(GMT-11:00) Midway Island, Samoa'' (- 11) NEEDNOT_DST,
   TZ ''(GMT-10:00) Hawaii'' (- 10) NEEDNOT_DST,
   TZ ''(GMT-09:00) Alaska'' (- 9) NA_DST,
   TZ ''(GMT-08:00) Pacific Time (US &amp; Canada); Tijuana'' (- 8) NA_DST,
   TZ ''(GMT-07:00) Arizona'' (- 7) NEEDNOT_DST,
   TZ ''(GMT-07:00) Chihuahua, La Paz, Mazatlan'' (- 7) NA_DST,
   TZ ''(GMT-07:00) Mountain Time (US &amp; Canada)'' (- 7) NA_DST,
   TZ ''(GMT-06:00) Central America'' (- 6) NEEDNOT_DST,
   TZ ''(GMT-06:00) Central Time (US &amp; Canda)'' (- 6) NA_DST,
   TZ ''(GMT-06:00) Guadalajara, Mexico City,Monterrey'' (- 6) NA_DST,
   TZ ''(GMT-06:00) Saskatchewan'' (- 6) NEEDNOT_DST,
   TZ ''(GMT-05:00) Bogota, Lima, Quito'' (- 5) NEEDNOT_DST,
   TZ ''(GMT-05:00) Eastern Time (US &amp; Canda)'' (- 5) NA_DST,
   TZ ''(GMT-05:00) Indiana (East)'' (- 5) NEEDNOT_DST,
   TZ ''(GMT-04:00) Atlantic Time (Canada)'' (- 4) NA_DST,
   TZ ''(GMT-04:00) La Paz'' (- 4) NEEDNOT_DST,
   TZ ''(GMT-04:00) Santiago'' (- 4) CHILE_DST,
   TZ ''(GMT-03:30) Newfoundland'' (- 7 / 2) NA_DST,
   TZ ''(GMT-03:00) Brasilia'' (- 3) SA_DST,
   TZ ''(GMT-03:00) Buenos Aires, Georgetown'' (- 3) NEEDNOT_DST,
   TZ ''(GMT-03:00) Greenland'' (- 3) EU_DST,
   TZ ''(GMT-02:00) Mid-Atlantic'' (- 2) EU_DST,
   TZ ''(GMT-01:00) Azores'' (- 1) EU_DST,
   TZ ''(GMT-01:00) Cape Verde Is.'' (- 1) NEEDNOT_DST,
   TZ ''(GMT) Casablanca, Monrovia'' 0 NEEDNOT_DST,
   TZ ''(GMT) Greenwich Mean Time: Dublin,Edinburgh,Lisbon,London'' 0 EU_DST,
   TZ ''(GMT+01:00) Amsterdam, Berlin,Bern,Rome,Stockholm,Vienna'' 1 EU_DST,
   TZ ''(GMT+01:00) Belgrade, Bratislava,Budapest,Ljubljana,Prague'' 1 EU_DST,
   TZ ''(GMT+01:00) Brussels, Copenhagen, Madrid, Paris'' 1 EU_DST,
   TZ ''(GMT+01:00) Sarajevo, Skopje, Warsaw, Zagreb'' 1 EU_DST,
   TZ ''(GMT+01:00) West Central Africa'' 1 NEEDNOT_DST,
   TZ ''(GMT+02:00) Athens, Istanbul, Minsk'' 2 EU_DST,
   TZ ''(GMT+02:00) Bucharest'' 2 EU_DST,
   TZ ''(GMT+02:00) Cairo'' 2 AF_DST,
   TZ ''(GMT+02:00) Harare, Pretoria'' 2 NEEDNOT_DST,
   TZ ''(GMT+02:00) Helsinki, Kyiv, Riga, Sofia, Tallinn, Vilnius'' 2 EU_DST,
   TZ ''(GMT+02:00) Jerusalem'' 2 NEEDNOT_DST,
   TZ ''(GMT+03:00) Baghdad'' 3 IRAQ_DST,
   TZ ''(GMT+03:00) Kuwait, Riyadh'' 3 NEEDNOT_DST,
   TZ ''(GMT+03:00) Moscow, St. Petersburg, Volgograd'' 3 EU_DST,
   TZ ''(GMT+03:00) Nairobi'' 3 NEEDNOT_DST,
   TZ ''(GMT+03:30) Tehran'' (7 / 2) IRAQ_DST,
   TZ ''(GMT+04:00) Abu Dhabi, Muscat'' 4 NEEDNOT_DST,
   TZ ''(GMT+04:00) Baku, Tbilisi, Yerevan'' 4 EU_DST,
   TZ ''(GMT+04:30) Kabul'' (9 / 2) NEEDNOT_DST,
   TZ ''(GMT+05:00) Ekaterinburg'' 5 EU_DST,
   TZ ''(GMT+05:00) Islamabad, Karachi, Tashkent'' 5 NEEDNOT_DST,
   TZ ''(GMT+05:30) Chennai, Kolkata, Mumbai, New Delhi'' (11 / 2) NEEDNOT_DST,
   TZ ''(GMT+05:45) Kathmandu'' (23 / 4) NEEDNOT_DST,
   TZ ''(GMT+06:00) Almaty, Novosibirsk'' 6 EU_DST,
   TZ ''(GMT+06:00) Astana, Dhaka'' 6 NEEDNOT_DST,
   TZ ''(GMT+06:00) Sri Jayawardenepura'' 6 NEEDNOT_DST,
   TZ ''(GMT+06:30) Rangoon'' (13 / 2) NEEDNOT_DST,
   TZ ''(GMT+07:00) Bangkok, Hanoi, Jakarta'' 7 NEEDNOT_DST,
   TZ ''(GMT+07:00) Krasnoyarsk'' 7 EU_DST,
   TZ ''(GMT+08:00) Beijing, Chongqing, Hong Kong, Urumqi'' 8 NEEDNOT_DST,
   TZ ''(GMT+08:00) Irkutsk, Ulaan Bataar'' 8 EU_DST,
   TZ ''(GMT+08:00) Kuala Lumpur, Singapore'' 8 NEEDNOT_DST,
   TZ ''(GMT+08:00) Perth'' 8 NEEDNOT_DST,
   TZ ''(GMT+08:00) Taipei'' 8 NEEDNOT_DST,
   TZ ''(GMT+09:00) Osaka, Sapporo, Tokyo'' 9 NEEDNOT_DST,
   TZ ''(GMT+09:00) Seoul'' 9 NEEDNOT_DST,
   TZ ''(GMT+09:00) Yakutsk'' 9 EU_DST,
   TZ ''(GMT+09:30) Adelaide'' (19 / 2) AU_DST,
   TZ ''(GMT+09:30) Darwin'' (19 / 2) NEEDNOT_DST,
   TZ ''(GMT+10:00) Brisbane'' 10 NEEDNOT_DST,
   TZ ''(GMT+10:00) Canberra, Melbourne, Sydney'' 10 NEEDNOT_DST,
   TZ ''(GMT+10:00) Guam, Port Moresby'' 10 NEEDNOT_DST,
   TZ ''(GMT+10:00) Hobart'' 10 AU2_DST,
   TZ ''(GMT+10:00) Vladivostok'' 10 EU_DST,
   TZ ''(GMT+11:00) Magadan, Solomon Is., New Caledonia'' 11 NEEDNOT_DST,
   TZ ''(GMT+12:00) Auckland, Wellington'' 12 AU3_DST,
   TZ ''(GMT+12:00) Fiji, Kamchatka, Marshall Is.'' 12 NEEDNOT_DST,
   TZ ''(GMT+13:00) Nuku'alofa'' 13 NEEDNOT_DST,
   TZ ''(GMT-04:30) Caracas'' (- 9 / 2) NEEDNOT_DST
  ]"

definition is_leap_year :: "int \<Rightarrow> int" where
  "is_leap_year y =
     (if crem y 4 = 0 \<and> crem y 100 \<noteq> 0 \<or> crem y 100 = 0 \<and> crem y 400 = 0 then 1 else 0)"

text \<open>Start and end day chosen by the \<^verbatim>\<open>switch\<close>; a region without daylight saving sets neither.\<close>

fun dst_days :: "dst_region \<Rightarrow> int \<Rightarrow> int \<times> int" where
  "dst_days NA_DST y =
     (72 + is_leap_year y - crem (y - 2002 + cdiv (y - 2004) 4 - 2) 7,
      309 + is_leap_year y - crem (y - 2002 + cdiv (y - 2004) 4 - 2) 7)"
| "dst_days EU_DST y =
     (90 + is_leap_year y - crem (y - 2002 + cdiv (y - 2000) 4) 7,
      304 + is_leap_year y - crem (y - 1999 + cdiv (y - 1996) 4) 7)"
| "dst_days AU_DST y =
     (304 - crem (y - 1999 + cdiv (y - 1996) 4) 7,
      90 - crem (y - 2002 + cdiv (y - 2000) 4) 7)"
| "dst_days CHILE_DST y =
     (287 - crem (y - 2000 + cdiv (y - 2000) 4) 7,
      73 - crem (y - 1998 + cdiv (y - 1996) 4) 7)"
| "dst_days SA_DST y =
     (311 - crem (y - 2004 + cdiv (y - 2004) 4) 7,
      52 - crem (y - 1999 + cdiv (y - 1996) 4) 7)"
| "dst_days AF_DST y =
     (120 - crem (y - 2004 + cdiv (y - 2004) 4) 7,
      273 - crem (y - 2004 + cdiv (y - 2004) 4) 7)"
| "dst_days IRAQ_DST y = (if crem y 4 \<noteq> 0 then (91, 274) else (92, 275))"
| "dst_days AU2_DST y =
     (280 - crem (y - 2001 + cdiv (y - 2000) 4) 7,
      90 - crem (y - 2002 + cdiv (y - 2000) 4) 7)"
| "dst_days AU3_DST y =
     (280 - crem (y - 2001 + cdiv (y - 2000) 4) 7,
      80 - crem (y - 1999 + cdiv (y - 1996) 4) 7)"
| "dst_days NEEDNOT_DST y = (0, 0)"

definition dst_flag :: "dst_region \<Rightarrow> tm \<Rightarrow> int" where
  "dst_flag dst_region st =
     (let current_year = 1900 + tm_year st;
          last_left_day = tm_yday st;
          last_left_hour = tm_hour st;
          (startDay, endDay) = dst_days dst_region current_year
      in if dst_region = AU_DST \<or> dst_region = AU2_DST \<or> dst_region = AU3_DST then
           (let d1 = (if current_year = 2006
                      then last_left_day + 1 + (if dst_region = AU_DST then 2 else 0)
                      else last_left_day);
                d2 = (if current_year = 2007 \<and> d1 + 2 > endDay then d1 + 1 else d1)
            in if d2 \<ge> startDay \<or> d2 \<le> endDay then 1 else 0)
         else if dst_region = IRAQ_DST \<or> dst_region = AF_DST \<or> dst_region = SA_DST
                 \<or> dst_region = CHILE_DST then
           (if last_left_day \<ge> startDay - 1 \<and> last_left_day \<le> endDay - 1 then 1 else 0)
         else if dst_region = EU_DST then
           (if last_left_day \<ge> startDay - 1 \<and> last_left_day \<le> endDay - 1
            then (if last_left_day = startDay - 1 \<and> last_left_hour < 1
                     \<or> last_left_day = endDay - 1 \<and> last_left_hour \<ge> 1 then 0 else 1)
            else 0)
         else if dst_region = NA_DST then
           (let (startDay, endDay) =
                  (if current_year = 2005 then (92, 302)
                   else if current_year = 2006 then (91, 301)
                   else (startDay, endDay + 1))
            in if last_left_day \<ge> startDay \<and> last_left_day \<le> endDay
               then (if last_left_day = startDay \<and> last_left_hour < 2
                        \<or> last_left_day = endDay \<and> last_left_hour \<ge> 2 then 0 else 1)
               else 0)
         else 0)"

text \<open>
  The region is \<^verbatim>\<open>TimeZone[tzone].dst\<close>; an index outside the table reads past the array, which
  the model reports as \<^const>\<open>None\<close>.
\<close>

definition tz_entry :: "int \<Rightarrow> TZ_S option" where
  "tz_entry tzone = (if 0 \<le> tzone \<and> tzone < int (length TimeZone)
                     then Some (TimeZone ! nat tzone) else None)"

definition daylight_saving :: "int \<Rightarrow> int \<Rightarrow> int option" where
  "daylight_saving tzone time =
     map_option (\<lambda>e. dst_flag (dst e) (localtime time)) (tz_entry tzone)"

section \<open>Checks of single years\<close>

definition na_year_ok :: "int \<Rightarrow> bool" where
  "na_year_ok y \<longleftrightarrow> jan1 y + fst (dst_days NA_DST y) = sunday_from (date y 2 8)
     \<and> jan1 y + snd (dst_days NA_DST y) + 1 = sunday_from (date y 10 1)"

definition eu_year_ok :: "int \<Rightarrow> bool" where
  "eu_year_ok y \<longleftrightarrow> jan1 y + fst (dst_days EU_DST y) - 1 = sunday_from (date y 2 25)
     \<and> jan1 y + snd (dst_days EU_DST y) - 1 = sunday_from (date y 9 25)"

definition south_year_empty :: "int \<Rightarrow> bool" where
  "south_year_empty y \<longleftrightarrow> snd (dst_days CHILE_DST y) < fst (dst_days CHILE_DST y)
     \<and> snd (dst_days SA_DST y) < fst (dst_days SA_DST y)"

lemma na_years: "list_all na_year_ok [2007..2099]"
  by code_simp

lemma eu_years: "list_all eu_year_ok [2002..2099]"
  by code_simp

lemma south_years: "list_all south_year_empty [2001..2099]"
  by code_simp

lemma year_in_list: "list_all P [a..b] \<Longrightarrow> a \<le> y \<Longrightarrow> y \<le> b \<Longrightarrow> P y"
  by (simp add: list_all_iff)

section \<open>The calendar rules\<close>

text \<open>Comparing a time stamp with a full hour of a day is comparing day and hour.\<close>

lemma hour_window:
  assumes "0 \<le> k" "k < 24"
  shows "86400 * n + 3600 * k \<le> t \<longleftrightarrow>
    n < t div 86400 \<or> n = t div 86400 \<and> k \<le> tm_hour (localtime t)"
proof -
  define d h r where "d = t div 86400" and "h = tm_hour (localtime t)"
    and "r = 60 * tm_min (localtime t) + tm_sec (localtime t)"
  have "t = 86400 * d + t mod 86400" by (simp add: d_def)
  then have t: "t = 86400 * d + 3600 * h + r"
    using localtime_clock(1) [of t] by (simp add: h_def r_def)
  have r: "0 \<le> r" "r < 3600" and h: "0 \<le> h" "h < 24"
    using localtime_clock [of t] by (simp_all add: h_def r_def)
  show ?thesis
    unfolding d_def [symmetric] h_def [symmetric] using t r h assms
    by (cases "n < d"; cases "n = d") auto
qed

text \<open>
  A calendar that saves daylight from \<open>start y\<close> to \<open>stop y\<close> within each year \<open>y\<close> of a span of
  years.  The interface between the time-zone rules and the daemons that act on them.
\<close>

locale dst_calendar =
  fixes saving :: "int \<Rightarrow> int" and start stop :: "int \<Rightarrow> int" and lo hi :: int
  assumes saving_eq: "lo \<le> year_of t \<Longrightarrow> year_of t \<le> hi \<Longrightarrow>
      saving t = (if start (year_of t) \<le> t \<and> t < stop (year_of t) then 1 else 0)"
    and start_in_year: "lo \<le> y \<Longrightarrow> y \<le> hi \<Longrightarrow> 86400 * jan1 y + 86400 \<le> start y"
    and start_stop: "lo \<le> y \<Longrightarrow> y \<le> hi \<Longrightarrow> start y + 86400 \<le> stop y"
    and stop_in_year: "lo \<le> y \<Longrightarrow> y \<le> hi \<Longrightarrow> stop y + 86400 \<le> 86400 * jan1 (y + 1)"
begin

lemma saving_cases: "lo \<le> year_of t \<Longrightarrow> year_of t \<le> hi \<Longrightarrow> saving t = 0 \<or> saving t = 1"
  by (simp add: saving_eq)

lemma year_of_window:
  assumes "lo \<le> y" "y \<le> hi" "start y \<le> t" "t < stop y + 86400"
  shows "year_of t = y"
  using assms start_in_year [of y] stop_in_year [of y] by (intro year_of_interval) linarith+

lemma saving_window:
  assumes "lo \<le> y" "y \<le> hi" "start y \<le> t" "t < stop y + 86400"
  shows "saving t = (if t < stop y then 1 else 0)"
  using assms year_of_window [OF assms] by (simp add: saving_eq)

lemma saving_before:
  assumes "lo \<le> y" "y \<le> hi" "start y - 86400 \<le> t" "t < start y"
  shows "saving t = 0"
proof -
  have "year_of t = y"
    using assms start_in_year [of y] start_stop [of y] stop_in_year [of y]
    by (intro year_of_interval) linarith+
  with assms show ?thesis by (simp add: saving_eq)
qed

end

definition na_start :: "int \<Rightarrow> int" where
  "na_start y = 86400 * sunday_from (date y 2 8) + 3600 * 2"

definition na_stop :: "int \<Rightarrow> int" where
  "na_stop y = 86400 * sunday_from (date y 10 1) + 3600 * 2"

definition eu_start :: "int \<Rightarrow> int" where
  "eu_start y = 86400 * sunday_from (date y 2 25) + 3600 * 1"

definition eu_stop :: "int \<Rightarrow> int" where
  "eu_stop y = 86400 * sunday_from (date y 9 25) + 3600 * 1"

lemma dst_flag_na:
  assumes "2007 \<le> year_of t" "year_of t \<le> 2099"
  shows "dst_flag NA_DST (localtime t) =
    (if na_start (year_of t) \<le> t \<and> t < na_stop (year_of t) then 1 else 0)"
proof -
  define y where "y = year_of t"
  define a b where "a = fst (dst_days NA_DST y)" and "b = snd (dst_days NA_DST y) + 1"
  have ok: "jan1 y + a = sunday_from (date y 2 8)" "jan1 y + b = sunday_from (date y 10 1)"
    using year_in_list [OF na_years assms] by (simp_all add: na_year_ok_def y_def a_def b_def)
  have d: "t div 86400 = jan1 y + tm_yday (localtime t)"
    using localtime_year(1) [of t] by (simp add: y_def)
  have s: "na_start y \<le> t \<longleftrightarrow> a < tm_yday (localtime t)
      \<or> a = tm_yday (localtime t) \<and> 2 \<le> tm_hour (localtime t)"
    unfolding na_start_def ok(1) [symmetric] by (subst hour_window) (simp_all add: d)
  have e: "na_stop y \<le> t \<longleftrightarrow> b < tm_yday (localtime t)
      \<or> b = tm_yday (localtime t) \<and> 2 \<le> tm_hour (localtime t)"
    unfolding na_stop_def ok(2) [symmetric] by (subst hour_window) (simp_all add: d)
  have f: "dst_flag NA_DST (localtime t) =
      (if a \<le> tm_yday (localtime t) \<and> tm_yday (localtime t) \<le> b
       then (if tm_yday (localtime t) = a \<and> tm_hour (localtime t) < 2
               \<or> tm_yday (localtime t) = b \<and> 2 \<le> tm_hour (localtime t) then 0 else 1)
       else 0)"
    using assms by (simp add: dst_flag_def year_of_def y_def a_def b_def Let_def)
  show ?thesis
    unfolding f y_def [symmetric] not_le [symmetric] s e by auto
qed

lemma dst_flag_eu:
  assumes "2002 \<le> year_of t" "year_of t \<le> 2099"
  shows "dst_flag EU_DST (localtime t) =
    (if eu_start (year_of t) \<le> t \<and> t < eu_stop (year_of t) then 1 else 0)"
proof -
  define y where "y = year_of t"
  define a b where "a = fst (dst_days EU_DST y) - 1" and "b = snd (dst_days EU_DST y) - 1"
  have ok: "jan1 y + a = sunday_from (date y 2 25)" "jan1 y + b = sunday_from (date y 9 25)"
    using year_in_list [OF eu_years assms] by (simp_all add: eu_year_ok_def y_def a_def b_def)
  have d: "t div 86400 = jan1 y + tm_yday (localtime t)"
    using localtime_year(1) [of t] by (simp add: y_def)
  have s: "eu_start y \<le> t \<longleftrightarrow> a < tm_yday (localtime t)
      \<or> a = tm_yday (localtime t) \<and> 1 \<le> tm_hour (localtime t)"
    unfolding eu_start_def ok(1) [symmetric] by (subst hour_window) (simp_all add: d)
  have e: "eu_stop y \<le> t \<longleftrightarrow> b < tm_yday (localtime t)
      \<or> b = tm_yday (localtime t) \<and> 1 \<le> tm_hour (localtime t)"
    unfolding eu_stop_def ok(2) [symmetric] by (subst hour_window) (simp_all add: d)
  have f: "dst_flag EU_DST (localtime t) =
      (if a \<le> tm_yday (localtime t) \<and> tm_yday (localtime t) \<le> b
       then (if tm_yday (localtime t) = a \<and> tm_hour (localtime t) < 1
               \<or> tm_yday (localtime t) = b \<and> 1 \<le> tm_hour (localtime t) then 0 else 1)
       else 0)"
    using assms by (simp add: dst_flag_def year_of_def y_def a_def b_def Let_def)
  show ?thesis
    unfolding f y_def [symmetric] not_le [symmetric] s e by auto
qed

lemma dst_flag_empty:
  assumes "r = CHILE_DST \<or> r = SA_DST"
    and "snd (dst_days r (1900 + tm_year st)) < fst (dst_days r (1900 + tm_year st))"
  shows "dst_flag r st = 0"
proof -
  obtain a b where ab: "dst_days r (1900 + tm_year st) = (a, b)" by fastforce
  then have "dst_flag r st = (if tm_yday st \<ge> a - 1 \<and> tm_yday st \<le> b - 1 then 1 else 0)"
    using assms(1) by (elim disjE) (simp_all add: dst_flag_def Let_def del: dst_days.simps)
  with assms(2) ab show ?thesis by simp
qed

text \<open>Bounds of the switching times within a year.\<close>

lemma before_month_bounds:
  "59 \<le> before_month y 2" "before_month y 2 \<le> 60"
  "273 \<le> before_month y 9" "before_month y 9 \<le> 274"
  "304 \<le> before_month y 10" "before_month y 10 \<le> 305"
  by (simp_all add: before_month_def month_lens_def)

lemma na_bounds:
  "86400 * jan1 y + 86400 \<le> na_start y" "na_start y + 86400 \<le> na_stop y"
  "na_stop y + 86400 \<le> 86400 * jan1 (y + 1)"
  using sunday_from_le [of "date y 2 8"] sunday_from_le [of "date y 10 1"]
    before_month_bounds [of y] year_len_pos(2) [of y] jan1_Suc [of y]
  unfolding na_start_def na_stop_def date_def by simp_all

lemma eu_bounds:
  "86400 * jan1 y + 86400 \<le> eu_start y" "eu_start y + 86400 \<le> eu_stop y"
  "eu_stop y + 86400 \<le> 86400 * jan1 (y + 1)"
  using sunday_from_le [of "date y 2 25"] sunday_from_le [of "date y 9 25"]
    before_month_bounds [of y] year_len_pos(2) [of y] jan1_Suc [of y]
  unfolding eu_start_def eu_stop_def date_def by simp_all

interpretation na: dst_calendar
  "\<lambda>t. dst_flag NA_DST (localtime t)" na_start na_stop 2007 2099
  by unfold_locales (simp_all add: dst_flag_na na_bounds)

interpretation eu: dst_calendar
  "\<lambda>t. dst_flag EU_DST (localtime t)" eu_start eu_stop 2002 2099
  by unfold_locales (simp_all add: dst_flag_eu eu_bounds)

section \<open>Properties\<close>

text \<open>
  C1. In a North American time zone the client saves daylight, for every time stamp of the years
  2007 to 2099, exactly from the second Sunday of March, 02:00, to the first Sunday of November,
  02:00 (wall clock).
\<close>

theorem daylight_saving_na:
  assumes "tz_entry tzone = Some e" and "dst e = NA_DST"
    and "2007 \<le> year_of t" and "year_of t \<le> 2099"
  shows "daylight_saving tzone t =
    Some (if na_start (year_of t) \<le> t \<and> t < na_stop (year_of t) then 1 else 0)"
  using assms by (simp add: daylight_saving_def na.saving_eq)

theorem daylight_saving_na_witness:
  "tz_entry 4 = Some (TimeZone ! 4) \<and> dst (TimeZone ! 4) = NA_DST \<and> year_of 1183000000 = 2007
   \<and> daylight_saving 4 1183000000 =
       Some (if na_start 2007 \<le> 1183000000 \<and> 1183000000 < na_stop 2007 then 1 else 0)"
proof -
  have e: "tz_entry 4 = Some (TimeZone ! 4)" by (simp add: tz_entry_def TimeZone_def)
  have d: "dst (TimeZone ! 4) = NA_DST" by (simp add: TimeZone_def)
  have y: "year_of 1183000000 = 2007" by code_simp
  show ?thesis using e d y daylight_saving_na [OF e d, of 1183000000] by simp
qed

text \<open>
  C2. In a European time zone the client saves daylight, for every time stamp of the years 2002 to
  2099, exactly from the last Sunday of March, 01:00, to the last Sunday of October, 01:00.
\<close>

theorem daylight_saving_eu:
  assumes "tz_entry tzone = Some e" and "dst e = EU_DST"
    and "2002 \<le> year_of t" and "year_of t \<le> 2099"
  shows "daylight_saving tzone t =
    Some (if eu_start (year_of t) \<le> t \<and> t < eu_stop (year_of t) then 1 else 0)"
  using assms by (simp add: daylight_saving_def eu.saving_eq)

theorem daylight_saving_eu_witness:
  "tz_entry 27 = Some (TimeZone ! 27) \<and> dst (TimeZone ! 27) = EU_DST \<and> year_of 1183000000 = 2007
   \<and> daylight_saving 27 1183000000 =
       Some (if eu_start 2007 \<le> 1183000000 \<and> 1183000000 < eu_stop 2007 then 1 else 0)"
proof -
  have e: "tz_entry 27 = Some (TimeZone ! 27)" by (simp add: tz_entry_def TimeZone_def)
  have d: "dst (TimeZone ! 27) = EU_DST" by (simp add: TimeZone_def)
  have y: "year_of 1183000000 = 2007" by code_simp
  show ?thesis using e d y daylight_saving_eu [OF e d, of 1183000000] by simp
qed

text \<open>
  In the time zones of Chile and of Brazil, whose summer spans the turn of the year, the test
  \<open>startDay - 1 \<le> day \<le> endDay - 1\<close> is empty: the client never saves daylight there, in any year
  from 2001 to 2099.
\<close>

theorem daylight_saving_south_never:
  assumes "tz_entry tzone = Some e" and "dst e = CHILE_DST \<or> dst e = SA_DST"
    and "2001 \<le> year_of t" and "year_of t \<le> 2099"
  shows "daylight_saving tzone t = Some 0"
proof -
  have "south_year_empty (year_of t)"
    using year_in_list [OF south_years assms(3,4)] .
  then have "snd (dst_days (dst e) (1900 + tm_year (localtime t)))
      < fst (dst_days (dst e) (1900 + tm_year (localtime t)))"
    using assms(2) unfolding south_year_empty_def year_of_def by auto
  then have "dst_flag (dst e) (localtime t) = 0"
    using assms(2) dst_flag_empty by blast
  with assms(1) show ?thesis by (simp add: daylight_saving_def)
qed

theorem daylight_saving_south_never_witness:
  "tz_entry 17 = Some (TimeZone ! 17) \<and> dst (TimeZone ! 17) = CHILE_DST \<and> year_of 1168000000 = 2007
   \<and> daylight_saving 17 1168000000 = Some 0"
proof -
  have e: "tz_entry 17 = Some (TimeZone ! 17)" by (simp add: tz_entry_def TimeZone_def)
  have d: "dst (TimeZone ! 17) = CHILE_DST" by (simp add: TimeZone_def)
  have y: "year_of 1168000000 = 2007" by code_simp
  show ?thesis using e d y daylight_saving_south_never [OF e, of 1168000000] by simp
qed

text \<open>The offset a label announces: \<^verbatim>\<open>(GMT-03:30)\<close> is minus three and a half hours.\<close>

definition label_offset :: "string \<Rightarrow> rat option" where
  "label_offset s =
     (if take 4 s \<noteq> ''(GMT'' then None
      else if s ! 4 = CHR '')'' then Some 0
      else (let hours = digits_val 0 (take 2 (drop 5 s));
                mins = digits_val 0 (take 2 (drop 8 s));
                v = of_int (60 * hours + mins) / 60
            in if s ! 4 = CHR ''-'' then Some (- v)
               else if s ! 4 = CHR ''+'' then Some v else None))"

text \<open>
  Every entry of the time-zone table carries the offset its label announces, and the default
  entry 4 is the Pacific zone of the labels.
\<close>

theorem TimeZone_labels:
  "list_all (\<lambda>e. label_offset (str e) = Some (num e)) TimeZone
   \<and> length TimeZone = 76 \<and> num (TimeZone ! 4) = - 8"
proof -
  have "list_all (\<lambda>e. label_offset (str e) = Some (num e)) TimeZone"
    by (simp add: TimeZone_def label_offset_def digit_val_def)
  moreover have "length TimeZone = 76 \<and> num (TimeZone ! 4) = - 8"
    by (simp add: TimeZone_def)
  ultimately show ?thesis by simp
qed

end
