(* ===== verification/Cron_Daylight.thy ===== *)
theory Cron_Daylight
  imports Daylight
begin

text \<open>
  The cron daemon carries its own copy of the time-zone table and of \<^verbatim>\<open>daylight_saving\<close>
  (\<^verbatim>\<open>cron/cron.c\<close>).  The copy is translated on its own and proved equal to that of the NTP client, so
  that the two programs that set the clock agree on the rules.
\<close>

definition cron_TimeZone :: "TZ_S list" where
  "cron_TimeZone = [
   TZ ''(GMT-12:00) International Date Line West'' (- 12) NEEDNOT_DST,
   TZ ''(GMT-11:00) Midway Island, Samoa'' (- 11) NEEDNOT_DST,
   TZ ''(GMT-10:00) Hawaii'' (- 10) NEEDNOT_DST,
   TZ ''(GMT-09:00) Alaska'' (- 9) NA_DST,
   TZ ''(GMT-08:00) Pacific Time (US &amp; Canada); Tijuana'' (- 8) NA_DST,
   TZ ''(GMT-07:00) Arizona'' (- 7) NEEDNOT_DST,
   TZ ''(GMT-07:00) Chihuahua, La Paz, Mazatlan'' (- 7) NA_DST,
   TZ ''(GMT-07:00) Mountain Time (US &amp; Canada)'' (- 7) NA_DST,
   TZ ''(GMT-06:00) Central America'' (- 6) NEEDNOT_DST,
   TZ ''(GMT-06:00) Central Time (US &amp; Canda)'' (- 6) NA_DST,
   TZ ''(GMT-06:00) Guadalajara, Mexico City,Monterrey'' (- 6) NA_DST,
   TZ ''(GMT-06:00) Saskatchewan'' (- 6) NEEDNOT_DST,
   TZ ''(GMT-05:00) Bogota, Lima, Quito'' (- 5) NEEDNOT_DST,
   TZ ''(GMT-05:00) Eastern Time (US &amp; Canda)'' (- 5) NA_DST,
   TZ ''(GMT-05:00) Indiana (East)'' (- 5) NEEDNOT_DST,
   TZ ''(GMT-04:00) Atlantic Time (Canada)'' (- 4) NA_DST,
   TZ ''(GMT-04:00) La Paz'' (- 4) NEEDNOT_DST,
   TZ ''(GMT-04:00) Santiago'' (- 4) CHILE_DST,
   TZ ''(GMT-03:30) Newfoundland'' (- 7 / 2) NA_DST,
   TZ ''(GMT-03:00) Brasilia'' (- 3) SA_DST,
   TZ ''(GMT-03:00) Buenos Aires, Georgetown'' (- 3) NEEDNOT_DST,
   TZ ''(GMT-03:00) Greenland'' (- 3) EU_DST,
   TZ ''(GMT-02:00) Mid-Atlantic'' (- 2) EU_DST,
   TZ ''(GMT-01:00) Azores'' (- 1) EU_DST,
   TZ ''(GMT-01:00) Cape Verde Is.'' (- 1) NEEDNOT_DST,
   TZ ''(GMT) Casablanca, Monrovia'' 0 NEEDNOT_DST,
   TZ ''(GMT) Greenwich Mean Time: Dublin,Edinburgh,Lisbon,London'' 0 EU_DST,
   TZ ''(GMT+01:00) Amsterdam, Berlin,Bern,Rome,Stockholm,Vienna'' 1 EU_DST,
   TZ ''(GMT+01:00) Belgrade, Bratislava,Budapest,Ljubljana,Prague'' 1 EU_DST,
   TZ ''(GMT+01:00) Brussels, Copenhagen, Madrid, Paris'' 1 EU_DST,
   TZ ''(GMT+01:00) Sarajevo, Skopje, Warsaw, Zagreb'' 1 EU_DST,
   TZ ''(GMT+01:00) West Central Africa'' 1 NEEDNOT_DST,
   TZ ''(GMT+02:00) Athens, Istanbul, Minsk'' 2 EU_DST,
   TZ ''(GMT+02:00) Bucharest'' 2 EU_DST,
   TZ ''(GMT+02:00) Cairo'' 2 AF_DST,
   TZ ''(GMT+02:00) Harare, Pretoria'' 2 NEEDNOT_DST,
   TZ ''(GMT+02:00) Helsinki, Kyiv, Riga, Sofia, Tallinn, Vilnius'' 2 EU_DST,
   TZ ''(GMT+02:00) Jerusalem'' 2 NEEDNOT_DST,
   TZ ''(GMT+03:00) Baghdad'' 3 IRAQ_DST,
   TZ ''(GMT+03:00) Kuwait, Riyadh'' 3 NEEDNOT_DST,
   TZ ''(GMT+03:00) Moscow, St. Petersburg, Volgograd'' 3 EU_DST,
   TZ ''(GMT+03:00) Nairobi'' 3 NEEDNOT_DST,
   TZ ''(GMT+03:30) Tehran'' (7 / 2) IRAQ_DST,
   TZ ''(GMT+04:00) Abu Dhabi, Muscat'' 4 NEEDNOT_DST,
   TZ ''(GMT+04:00) Baku, Tbilisi, Yerevan'' 4 EU_DST,
   TZ ''(GMT+04:30) Kabul'' (9 / 2) NEEDNOT_DST,
   TZ ''(GMT+05:00) Ekaterinburg'' 5 EU_DST,
   TZ ''(GMT+05:00) Islamabad, Karachi, Tashkent'' 5 NEEDNOT_DST,
   TZ ''(GMT+05:30) Chennai, Kolkata, Mumbai, New Delhi'' (11 / 2) NEEDNOT_DST,
   TZ ''(GMT+05:45) Kathmandu'' (23 / 4) NEEDNOT_DST,
   TZ ''(GMT+06:00) Almaty, Novosibirsk'' 6 EU_DST,
   TZ ''(GMT+06:00) Astana, Dhaka'' 6 NEEDNOT_DST,
   TZ ''(GMT+06:00) Sri Jayawardenepura'' 6 NEEDNOT_DST,
   TZ ''(GMT+06:30) Rangoon'' (13 / 2) NEEDNOT_DST,
   TZ ''(GMT+07:00) Bangkok, Hanoi, Jakarta'' 7 NEEDNOT_DST,
   TZ ''(GMT+07:00) Krasnoyarsk'' 7 EU_DST,
   TZ ''(GMT+08:00) Beijing, Chongqing, Hong Kong, Urumqi'' 8 NEEDNOT_DST,
   TZ ''(GMT+08:00) Irkutsk, Ulaan Bataar'' 8 EU_DST,
   TZ ''(GMT+08:00) Kuala Lumpur, Singapore'' 8 NEEDNOT_DST,
   TZ ''(GMT+08:00) Perth'' 8 NEEDNOT_DST,
   TZ ''(GMT+08:00) Taipei'' 8 NEEDNOT_DST,
   TZ ''(GMT+09:00) Osaka, Sapporo, Tokyo'' 9 NEEDNOT_DST,
   TZ ''(GMT+09:00) Seoul'' 9 NEEDNOT_DST,
   TZ ''(GMT+09:00) Yakutsk'' 9 EU_DST,
   TZ ''(GMT+09:30) Adelaide'' (19 / 2) AU_DST,
   TZ ''(GMT+09:30) Darwin'' (19 / 2) NEEDNOT_DST,
   TZ ''(GMT+10:00) Brisbane'' 10 NEEDNOT_DST,
   TZ ''(GMT+10:00) Canberra, Melbourne, Sydney'' 10 NEEDNOT_DST,
   TZ ''(GMT+10:00) Guam, Port Moresby'' 10 NEEDNOT_DST,
   TZ ''(GMT+10:00) Hobart'' 10 AU2_DST,
   TZ ''(GMT+10:00) Vladivostok'' 10 EU_DST,
   TZ ''(GMT+11:00) Magadan, Solomon Is., New Caledonia'' 11 NEEDNOT_DST,
   TZ ''(GMT+12:00) Auckland, Wellington'' 12 AU3_DST,
   TZ ''(GMT+12:00) Fiji, Kamchatka, Marshall Is.'' 12 NEEDNOT_DST,
   TZ ''(GMT+13:00) Nuku'alofa'' 13 NEEDNOT_DST,
   TZ ''(GMT-04:30) Caracas'' (- 9 / 2) NEEDNOT_DST
  ]"

definition cron_is_leap_year :: "int \<Rightarrow> int" where
  "cron_is_leap_year y =
     (if crem y 4 = 0 \<and> crem y 100 \<noteq> 0 \<or> crem y 100 = 0 \<and> crem y 400 = 0 then 1 else 0)"

text \<open>Start and end day chosen by the \<^verbatim>\<open>switch\<close>; a region without daylight saving sets neither.\<close>

fun cron_dst_days :: "dst_region \<Rightarrow> int \<Rightarrow> int \<times> int" where
  "cron_dst_days NA_DST y =
     (72 + cron_is_leap_year y - crem (y - 2002 + cdiv (y - 2004) 4 - 2) 7,
      309 + cron_is_leap_year y - crem (y - 2002 + cdiv (y - 2004) 4 - 2) 7)"
| "cron_dst_days EU_DST y =
     (90 + cron_is_leap_year y - crem (y - 2002 + cdiv (y - 2000) 4) 7,
      304 + cron_is_leap_year y - crem (y - 1999 + cdiv (y - 1996) 4) 7)"
| "cron_dst_days AU_DST y =
     (304 - crem (y - 1999 + cdiv (y - 1996) 4) 7,
      90 - crem (y - 2002 + cdiv (y - 2000) 4) 7)"
| "cron_dst_days CHILE_DST y =
     (287 - crem (y - 2000 + cdiv (y - 2000) 4) 7,
      73 - crem (y - 1998 + cdiv (y - 1996) 4) 7)"
| "cron_dst_days SA_DST y =
     (311 - crem (y - 2004 + cdiv (y - 2004) 4) 7,
      52 - crem (y - 1999 + cdiv (y - 1996) 4) 7)"
| "cron_dst_days AF_DST y =
     (120 - crem (y - 2004 + cdiv (y - 2004) 4) 7,
      273 - crem (y - 2004 + cdiv (y - 2004) 4) 7)"
| "cron_dst_days IRAQ_DST y = (if crem y 4 \<noteq> 0 then (91, 274) else (92, 275))"
| "cron_dst_days AU2_DST y =
     (280 - crem (y - 2001 + cdiv (y - 2000) 4) 7,
      90 - crem (y - 2002 + cdiv (y - 2000) 4) 7)"
| "cron_dst_days AU3_DST y =
     (280 - crem (y - 2001 + cdiv (y - 2000) 4) 7,
      80 - crem (y - 1999 + cdiv (y - 1996) 4) 7)"
| "cron_dst_days NEEDNOT_DST y = (0, 0)"

definition cron_dst_flag :: "dst_region \<Rightarrow> tm \<Rightarrow> int" where
  "cron_dst_flag dst_region st =
     (let current_year = 1900 + tm_year st;
          last_left_day = tm_yday st;
          last_left_hour = tm_hour st;
          (startDay, endDay) = cron_dst_days dst_region current_year
      in if dst_region = AU_DST \<or> dst_region = AU2_DST \<or> dst_region = AU3_DST then
           (let d1 = (if current_year = 2006
                      then last_left_day + 1 + (if dst_region = AU_DST then 2 else 0)
                      else last_left_day);
                d2 = (if current_year = 2007 \<and> d1 + 2 > endDay then d1 + 1 else d1)
            in if d2 \<ge> startDay \<or> d2 \<le> endDay then 1 else 0)
         else if dst_region = IRAQ_DST \<or> dst_region = AF_DST \<or> dst_region = SA_DST
                 \<or> dst_region = CHILE_DST then
           (if last_left_day \<ge> startDay - 1 \<and> last_left_day \<le> endDay - 1 then 1 else 0)
         else if dst_region = EU_DST then
           (if last_left_day \<ge> startDay - 1 \<and> last_left_day \<le> endDay - 1
            then (if last_left_day = startDay - 1 \<and> last_left_hour < 1
                     \<or> last_left_day = endDay - 1 \<and> last_left_hour \<ge> 1 then 0 else 1)
            else 0)
         else if dst_region = NA_DST then
           (let (startDay, endDay) =
                  (if current_year = 2005 then (92, 302)
                   else if current_year = 2006 then (91, 301)
                   else (startDay, endDay + 1))
            in if last_left_day \<ge> startDay \<and> last_left_day \<le> endDay
               then (if last_left_day = startDay \<and> last_left_hour < 2
                        \<or> last_left_day = endDay \<and> last_left_hour \<ge> 2 then 0 else 1)
               else 0)
         else 0)"

text \<open>
  The region is \<^verbatim>\<open>TimeZone[tzone].dst\<close>; an index outside the table reads past the array, which
  the model reports as \<^const>\<open>None\<close>.
\<close>

definition cron_tz_entry :: "int \<Rightarrow> TZ_S option" where
  "cron_tz_entry tzone = (if 0 \<le> tzone \<and> tzone < int (length cron_TimeZone)
                     then Some (cron_TimeZone ! nat tzone) else None)"

definition cron_daylight_saving :: "int \<Rightarrow> int \<Rightarrow> int option" where
  "cron_daylight_saving tzone time =
     map_option (\<lambda>e. cron_dst_flag (dst e) (localtime time)) (cron_tz_entry tzone)"

section \<open>Properties\<close>

lemma cron_table: "cron_TimeZone = TimeZone"
  by (simp only: cron_TimeZone_def TimeZone_def)

lemma cron_days: "cron_dst_days r y = dst_days r y"
  by (cases r) (simp_all add: cron_is_leap_year_def is_leap_year_def)

lemma cron_flag: "cron_dst_flag r st = dst_flag r st"
  unfolding cron_dst_flag_def dst_flag_def cron_days ..

text \<open>
  C12. The cron daemon and the NTP client apply the same daylight-saving rules: for every time-zone
  index and every time the two copies return the same answer, including the index error.
\<close>

theorem cron_daylight_saving_eq:
  "cron_daylight_saving tzone t = daylight_saving tzone t \<and> cron_TimeZone = TimeZone"
  unfolding cron_daylight_saving_def daylight_saving_def cron_tz_entry_def tz_entry_def
    cron_table cron_flag by simp

end
