(* ===== verification/Cron_Daemon.thy ===== *)
theory Cron_Daemon
  imports Crontab Cron_Daylight
begin

text \<open>
  The main loop of the cron daemon (\<^verbatim>\<open>cron/cron.c\<close>): the switch of the clock when daylight saving
  begins or ends, the digits written to the real-time clock, the check of the crontab and the sleep
  until the next minute.  The configuration store is an argument; the theorems name what they need
  of it (\<open>conf_law\<close>).  Time elapsed between two readings of the clock is an argument too.
\<close>

section \<open>The clock\<close>

definition convert :: "int \<Rightarrow> byte list" where
  "convert n = [of_int (cdiv n 10), of_int (crem n 10)]"

definition set_rtc :: "tm \<Rightarrow> byte list" where
  "set_rtc gmt_now =
     [2, 0, 0, 0] @ convert (tm_year gmt_now) @ convert (tm_mon gmt_now) @ convert (tm_mday gmt_now)
     @ convert (tm_hour gmt_now) @ convert (tm_min gmt_now) @ convert (tm_sec gmt_now)"

text \<open>
  The configuration: \<^verbatim>\<open>PRO_GetInt\<close> and \<^verbatim>\<open>PRO_SetInt\<close> of \<^verbatim>\<open>MAN_SUMMER_CHANGED\<close>, and the fields
  \<^verbatim>\<open>d_sav\<close> and \<^verbatim>\<open>t_index\<close> of \<^verbatim>\<open>TIME_FMT_ReadSystemData\<close>.
\<close>

record 'c conf_ops =
  pro_get :: "'c \<Rightarrow> int option"
  pro_set :: "int \<Rightarrow> 'c \<Rightarrow> 'c"
  time_fmt :: "'c \<Rightarrow> bool \<times> int"

definition conf_law :: "'c conf_ops \<Rightarrow> bool" where
  "conf_law ops \<longleftrightarrow> (\<forall>v c. pro_get ops (pro_set ops v c) = Some v
     \<and> time_fmt ops (pro_set ops v c) = time_fmt ops c)"

datatype dst_event = DST_CHG_ENTER | DST_CHG_LEAVE

record 'c daemon =
  clk :: int
  conf :: 'c
  cst :: cron
  rtc :: "byte list"
  events :: "dst_event list"

text \<open>
  The daylight-saving part of an iteration.  \<open>e1\<close> seconds pass before the second reading of the clock
  and \<open>e2\<close> before the one for the real-time clock.  An index outside the table is \<^const>\<open>None\<close>.
\<close>

definition dst_switch :: "'c conf_ops \<Rightarrow> int \<Rightarrow> int \<Rightarrow> 'c daemon \<Rightarrow> 'c daemon option" where
  "dst_switch ops e1 e2 d =
     (let t = clk d;
          dsv = (case pro_get ops (conf d) of Some v \<Rightarrow> v | None \<Rightarrow> 0);
          (d_sav, t_index) = time_fmt ops (conf d)
      in if \<not> d_sav then Some d
         else case cron_daylight_saving t_index t of
                None \<Rightarrow> None
              | Some ret \<Rightarrow>
                  (if ret = dsv then Some d
                   else let t1 = t + e1;
                            stm = mktime (localtime t1);
                            (stm, ev, flag) = (if dsv \<noteq> 0 then (stm - 3600, DST_CHG_LEAVE, 0)
                                               else (stm + 3600, DST_CHG_ENTER, 1))
                        in Some (d\<lparr>clk := stm + e2, conf := pro_set ops flag (conf d),
                                   rtc := set_rtc (localtime (stm + e2)),
                                   events := events d @ [ev]\<rparr>)))"

text \<open>The loop that moves the next wake-up behind the present.\<close>

function next_delay :: "int \<Rightarrow> int \<Rightarrow> int" where
  "next_delay target now = (if target - now > 0 then target - now else next_delay (target + 60) now)"
  by auto
termination by (relation "measure (\<lambda>(target, now). nat (now - target + 1))") auto

declare next_delay.simps [simp del]

text \<open>
  One iteration of the main loop: the state when the daemon goes to sleep, the jobs it started and
  the seconds it sleeps.  \<open>e3\<close> seconds pass before the last reading of the clock.
\<close>

record inputs =
  in_users :: users
  in_bufsiz :: nat
  in_file :: "crontab_file option"
  in_vfork :: "centry \<Rightarrow> bool"
  e1 :: int
  e2 :: int
  e3 :: int

definition iteration :: "'c conf_ops \<Rightarrow> inputs \<Rightarrow> 'c daemon \<Rightarrow> ('c daemon \<times> spawn list \<times> int) option" where
  "iteration ops i d =
     (case dst_switch ops (e1 i) (e2 i) d of
        None \<Rightarrow> None
      | Some d' \<Rightarrow>
          (let now = localtime (clk d);
               target = clk d + 60 - tm_sec now;
               c = snd (load_file (in_users i) (in_bufsiz i) (in_file i) (cst d'));
               (msgs, jobs) = check_runs (in_vfork i) now (tasklist c);
               d'' = d'\<lparr>clk := clk d' + e3 i, cst := c\<lparr>messages := messages c @ msgs\<rparr>\<rparr>
           in Some (d'', jobs, next_delay target (clk d''))))"

text \<open>\<^verbatim>\<open>while (delay > 0) delay = sleep(delay)\<close>: the daemon wakes \<open>late\<close> seconds after the time asked for.\<close>

definition wake :: "int \<Rightarrow> int \<Rightarrow> 'c daemon \<Rightarrow> 'c daemon" where
  "wake delay late d = d\<lparr>clk := clk d + delay + late\<rparr>"

text \<open>The start of the daemon: the default crontab is written and the flag is set to the rules.\<close>

definition main_init :: "'c conf_ops \<Rightarrow> 'c daemon \<Rightarrow> ('c daemon \<times> string) option" where
  "main_init ops d =
     (let (d_sav, t_index) = time_fmt ops (conf d)
      in if \<not> d_sav then Some (d, create_file)
         else case cron_daylight_saving t_index (clk d) of
                None \<Rightarrow> None
              | Some dsv \<Rightarrow> Some (d\<lparr>conf := pro_set ops dsv (conf d)\<rparr>, create_file))"

section \<open>Sleeping\<close>

lemma next_delay_pos: "0 < next_delay target now"
  by (induction target now rule: next_delay.induct) (subst next_delay.simps, simp)

lemma next_delay_minute: "(now + next_delay target now) mod 60 = target mod 60"
proof (induction target now rule: next_delay.induct)
  case (1 target now)
  have "(target + 60) mod 60 = target mod 60" by simp
  with 1 show ?case by (subst next_delay.simps) auto
qed

lemma next_delay_le: "next_delay target now \<le> max 60 (target - now)"
proof (induction target now rule: next_delay.induct)
  case (1 target now)
  then show ?case by (subst next_delay.simps) auto
qed

lemma next_delay_ahead: "now < target \<Longrightarrow> next_delay target now = target - now"
  by (simp add: next_delay.simps)

section \<open>Switching\<close>

lemma cron_saving: "cron_daylight_saving z t = daylight_saving z t"
  unfolding cron_daylight_saving_def daylight_saving_def cron_tz_entry_def tz_entry_def
    cron_table cron_flag ..

lemma saving_na:
  "tz_entry z = Some e \<Longrightarrow> dst e = NA_DST \<Longrightarrow>
   cron_daylight_saving z t = Some (dst_flag NA_DST (localtime t))"
  by (simp add: cron_saving daylight_saving_def)

text \<open>What a switch does, given the answer of the rules.\<close>

lemma dst_switch_keep:
  assumes "pro_get ops (conf d) = Some v" "time_fmt ops (conf d) = (True, z)"
    and "cron_daylight_saving z (clk d) = Some v"
  shows "dst_switch ops a b d = Some d"
  using assms by (simp add: dst_switch_def)

lemma dst_switch_leave:
  assumes "pro_get ops (conf d) = Some 1" "time_fmt ops (conf d) = (True, z)"
    and "cron_daylight_saving z (clk d) = Some 0"
  shows "dst_switch ops a b d = Some (d\<lparr>clk := clk d + a - 3600 + b, conf := pro_set ops 0 (conf d),
     rtc := set_rtc (localtime (clk d + a - 3600 + b)), events := events d @ [DST_CHG_LEAVE]\<rparr>)"
  using assms by (simp add: dst_switch_def mktime_localtime Let_def)

lemma dst_switch_enter:
  assumes "pro_get ops (conf d) = Some 0" "time_fmt ops (conf d) = (True, z)"
    and "cron_daylight_saving z (clk d) = Some 1"
  shows "dst_switch ops a b d = Some (d\<lparr>clk := clk d + a + 3600 + b, conf := pro_set ops 1 (conf d),
     rtc := set_rtc (localtime (clk d + a + 3600 + b)), events := events d @ [DST_CHG_ENTER]\<rparr>)"
  using assms by (simp add: dst_switch_def mktime_localtime Let_def)

lemma iteration_parts:
  assumes "dst_switch ops (e1 i) (e2 i) d = Some d'"
  shows "\<exists>jobs c. iteration ops i d = Some (d'\<lparr>clk := clk d' + e3 i, cst := c\<rparr>, jobs,
      next_delay (clk d + 60 - clk d mod 60) (clk d' + e3 i))"
  using assms by (auto simp: iteration_def Let_def tm_sec_mod split: prod.splits)

section \<open>Properties\<close>

text \<open>
  C4. Every minute is checked once: when the daylight-saving state does not change, an iteration starts
  exactly the jobs due at its time, and the daemon, going to sleep within the same minute and waking less
  than a minute late, finds itself in the following minute; it sleeps at least one and at most sixty
  seconds.
\<close>

theorem cron_every_minute:
  assumes "dst_switch ops (e1 i) (e2 i) d = Some d"
    and "0 \<le> e3 i" and "clk d mod 60 + e3 i < 60" and "0 \<le> late" and "late < 60"
  shows "\<exists>d' jobs delay. iteration ops i d = Some (d', jobs, delay)
    \<and> jobs = snd (check_runs (in_vfork i) (localtime (clk d))
        (tasklist (snd (load_file (in_users i) (in_bufsiz i) (in_file i) (cst d)))))
    \<and> 0 < delay \<and> delay \<le> 60
    \<and> clk (wake delay late d') div 60 = clk d div 60 + 1"
proof -
  define n where "n = clk d div 60"
  define m where "m = clk d mod 60"
  have c: "clk d = 60 * n + m" "0 \<le> m" by (simp_all add: n_def m_def)
  have dl: "next_delay (clk d + 60 - m) (clk d + e3 i) = 60 - m - e3 i"
    using assms(3) by (subst next_delay_ahead) (simp_all add: m_def)
  have "(clk d + e3 i + (60 - m - e3 i) + late) div 60 = n + 1"
    using c assms(4,5) by (intro int_div_pos_eq [of _ _ _ late]) simp_all
  then show ?thesis
    using assms(1,2,3) dl c(2)
    unfolding iteration_def Let_def tm_sec_mod wake_def n_def [symmetric] m_def [symmetric]
    by (auto split: prod.splits)
qed

text \<open>A configuration store in memory, and a daemon in the Pacific zone.\<close>

definition mem_ops :: "(int option \<times> bool \<times> int) conf_ops" where
  "mem_ops = \<lparr>pro_get = fst, pro_set = (\<lambda>v c. (Some v, snd c)), time_fmt = snd\<rparr>"

lemma mem_law: "conf_law mem_ops"
  by (simp add: conf_law_def mem_ops_def)

definition sample_daemon :: "int \<Rightarrow> int \<Rightarrow> int \<Rightarrow> (int option \<times> bool \<times> int) daemon" where
  "sample_daemon z flag t =
     \<lparr>clk = t, conf = (Some flag, True, z), cst = fresh_cron, rtc = [], events = []\<rparr>"

definition sample_inputs :: inputs where
  "sample_inputs = \<lparr>in_users = sample_users, in_bufsiz = 4096, in_file = None,
     in_vfork = (\<lambda>_. True), e1 = 0, e2 = 0, e3 = 1\<rparr>"

theorem cron_every_minute_witness:
  "\<exists>d' jobs delay. iteration mem_ops sample_inputs (sample_daemon 0 0 1172743803) = Some (d', jobs, delay)
    \<and> clk (wake delay 2 d') div 60 = 1172743803 div 60 + 1"
proof -
  have "dst_switch mem_ops (e1 sample_inputs) (e2 sample_inputs) (sample_daemon 0 0 1172743803)
      = Some (sample_daemon 0 0 1172743803)"
    by (rule dst_switch_keep [of _ _ 0 0])
      (simp_all add: mem_ops_def sample_daemon_def cron_saving daylight_saving_def tz_entry_def
        TimeZone_def dst_flag_def Let_def split: prod.splits)
  from cron_every_minute [OF this, of 2] show ?thesis
    by (auto simp: sample_inputs_def sample_daemon_def)
qed

text \<open>
  C10. The end of daylight saving in a North American zone is acted on once: in the first hour after the
  switching time a daemon whose flag is set puts the clock back by one hour, clears the flag and writes
  the real-time clock; it then sleeps through the repeated hour (its wake-up time was computed before
  the switch), and when it wakes, less than an hour late, it does not switch again.
\<close>

theorem cron_leaves_once:
  assumes "conf_law ops" and "time_fmt ops (conf d) = (True, z)" and "tz_entry z = Some en"
    and "dst en = NA_DST" and "pro_get ops (conf d) = Some 1" and "2007 \<le> y" and "y \<le> 2099"
    and "na_stop y \<le> clk d" and "clk d < na_stop y + 3600"
    and "0 \<le> e1 i" and "0 \<le> e2 i" and "0 \<le> e3 i" and "e1 i + e2 i + e3 i < 60"
    and "0 \<le> late" and "late < 3600"
  shows "\<exists>d' jobs delay. iteration ops i d = Some (d', jobs, delay)
    \<and> events d' = events d @ [DST_CHG_LEAVE] \<and> pro_get ops (conf d') = Some 0
    \<and> clk d' = clk d + (e1 i + e2 i + e3 i) - 3600 \<and> 3540 < delay
    \<and> dst_switch ops a b (wake delay late d') = Some (wake delay late d')"
proof -
  have off: "cron_daylight_saving z t = Some 0" if "na_stop y \<le> t" "t < na_stop y + 86400" for t
    using that assms(6,7) na_bounds [of y] saving_na [OF assms(3,4), of t] na.saving_window [of y t]
    by simp
  define d1 where "d1 = d\<lparr>clk := clk d + e1 i - 3600 + e2 i, conf := pro_set ops 0 (conf d),
     rtc := set_rtc (localtime (clk d + e1 i - 3600 + e2 i)), events := events d @ [DST_CHG_LEAVE]\<rparr>"
  have sw: "dst_switch ops (e1 i) (e2 i) d = Some d1"
    using dst_switch_leave [OF assms(5,2)] off [of "clk d"] assms(8,9) by (simp add: d1_def)
  let ?w = "next_delay (clk d + 60 - clk d mod 60) (clk d1 + e3 i)"
  have m: "0 \<le> clk d mod 60" "clk d mod 60 < 60" by simp_all
  have w: "?w = 60 - clk d mod 60 + 3600 - (e1 i + e2 i + e3 i)"
    using assms(13) m by (subst next_delay_ahead) (simp_all add: d1_def)
  obtain jobs c where it: "iteration ops i d = Some (d1\<lparr>clk := clk d1 + e3 i, cst := c\<rparr>, jobs, ?w)"
    using iteration_parts [OF sw] by blast
  define d2 where "d2 = d1\<lparr>clk := clk d1 + e3 i, cst := c\<rparr>"
  define u where "u = wake ?w late d2"
  have u: "clk u = clk d + 60 - clk d mod 60 + late" "conf u = pro_set ops 0 (conf d)"
    unfolding u_def wake_def w d2_def by (simp_all add: d1_def)
  have "cron_daylight_saving z (clk u) = Some 0"
    unfolding u(1) using assms(8,9,14,15) m by (intro off) linarith+
  then have "dst_switch ops a b u = Some u"
    using assms(1,2) u(2) by (intro dst_switch_keep [of _ _ 0 z]) (simp_all add: conf_law_def)
  moreover have "3540 < ?w" unfolding w using assms(13) m by linarith
  moreover have "clk d2 = clk d + (e1 i + e2 i + e3 i) - 3600"
    "events d2 = events d @ [DST_CHG_LEAVE]" "pro_get ops (conf d2) = Some 0"
    using assms(1) by (simp_all add: d2_def d1_def conf_law_def)
  ultimately show ?thesis using it unfolding u_def d2_def [symmetric] by blast
qed

theorem cron_leaves_once_witness:
  "\<exists>d' jobs delay. iteration mem_ops sample_inputs (sample_daemon 4 1 (na_stop 2007 + 3)) = Some (d', jobs, delay)
    \<and> events d' = [DST_CHG_LEAVE] \<and> 3540 < delay
    \<and> dst_switch mem_ops 0 0 (wake delay 1 d') = Some (wake delay 1 d')"
proof -
  have z: "tz_entry 4 = Some (TimeZone ! 4)" "dst (TimeZone ! 4) = NA_DST"
    by (simp_all add: tz_entry_def TimeZone_def)
  show ?thesis
    using cron_leaves_once [OF mem_law _ z, of "sample_daemon 4 1 (na_stop 2007 + 3)" 2007 sample_inputs 1 0 0]
    by (auto simp: sample_inputs_def sample_daemon_def mem_ops_def)
qed

text \<open>
  C11. The beginning of daylight saving in a European zone is acted on once: in the first hour after the
  switching time a daemon whose flag is clear puts the clock forward by one hour and sets the flag; it
  sleeps at most a minute and does not switch again when it wakes, less than an hour late.
\<close>

theorem cron_enters_once:
  assumes "conf_law ops" and "time_fmt ops (conf d) = (True, z)" and "tz_entry z = Some en"
    and "dst en = EU_DST" and "pro_get ops (conf d) = Some 0" and "2002 \<le> y" and "y \<le> 2099"
    and "eu_start y \<le> clk d" and "clk d < eu_start y + 3600"
    and "0 \<le> e1 i" and "0 \<le> e2 i" and "0 \<le> e3 i" and "e1 i + e2 i + e3 i < 60"
    and "0 \<le> late" and "late < 3600"
  shows "\<exists>d' jobs delay. iteration ops i d = Some (d', jobs, delay)
    \<and> events d' = events d @ [DST_CHG_ENTER] \<and> pro_get ops (conf d') = Some 1
    \<and> clk d' = clk d + (e1 i + e2 i + e3 i) + 3600 \<and> 0 < delay \<and> delay \<le> 60
    \<and> dst_switch ops a b (wake delay late d') = Some (wake delay late d')"
proof -
  have on: "cron_daylight_saving z t = Some 1" if "eu_start y \<le> t" "t < eu_start y + 86400" for t
  proof -
    have "t < eu_stop y" using that(2) eu_bounds(2) [of y] by linarith
    then show ?thesis using that(1) assms(3,4,6,7) eu.saving_window [of y t]
      by (simp add: cron_saving daylight_saving_def)
  qed
  define d1 where "d1 = d\<lparr>clk := clk d + e1 i + 3600 + e2 i, conf := pro_set ops 1 (conf d),
     rtc := set_rtc (localtime (clk d + e1 i + 3600 + e2 i)), events := events d @ [DST_CHG_ENTER]\<rparr>"
  have sw: "dst_switch ops (e1 i) (e2 i) d = Some d1"
    using dst_switch_enter [OF assms(5,2)] on [of "clk d"] assms(8,9) by (simp add: d1_def)
  define w where "w = next_delay (clk d + 60 - clk d mod 60) (clk d1 + e3 i)"
  have c1: "clk d1 + e3 i = clk d + (e1 i + e2 i + e3 i) + 3600" by (simp add: d1_def)
  have "clk d + 60 - clk d mod 60 - (clk d1 + e3 i) \<le> 60"
    unfolding c1 using assms(10-12) pos_mod_sign [of 60 "clk d"] by linarith
  then have w: "0 < w" "w \<le> 60"
    using next_delay_pos next_delay_le [of "clk d + 60 - clk d mod 60" "clk d1 + e3 i"]
    unfolding w_def by (simp, linarith)
  obtain jobs c where it: "iteration ops i d = Some (d1\<lparr>clk := clk d1 + e3 i, cst := c\<rparr>, jobs, w)"
    using iteration_parts [OF sw] unfolding w_def by blast
  define d2 where "d2 = d1\<lparr>clk := clk d1 + e3 i, cst := c\<rparr>"
  define u where "u = wake w late d2"
  have u: "clk u = clk d1 + e3 i + w + late" "conf u = pro_set ops 1 (conf d)"
    unfolding u_def wake_def d2_def by (simp_all add: d1_def)
  have "cron_daylight_saving z (clk u) = Some 1"
    unfolding u(1) c1 using assms(8-15) w by (intro on) linarith+
  then have "dst_switch ops a b u = Some u"
    using assms(1,2) u(2) by (intro dst_switch_keep [of _ _ 1 z]) (simp_all add: conf_law_def)
  moreover have "clk d2 = clk d + (e1 i + e2 i + e3 i) + 3600"
    "events d2 = events d @ [DST_CHG_ENTER]" "pro_get ops (conf d2) = Some 1"
    using assms(1) by (simp_all add: d2_def d1_def conf_law_def)
  ultimately show ?thesis using it w unfolding u_def d2_def [symmetric] by blast
qed

theorem cron_enters_once_witness:
  "\<exists>d' jobs delay. iteration mem_ops sample_inputs (sample_daemon 27 0 (eu_start 2007)) = Some (d', jobs, delay)
    \<and> events d' = [DST_CHG_ENTER] \<and> 0 < delay \<and> delay \<le> 60
    \<and> dst_switch mem_ops 0 0 (wake delay 1 d') = Some (wake delay 1 d')"
proof -
  have z: "tz_entry 27 = Some (TimeZone ! 27)" "dst (TimeZone ! 27) = EU_DST"
    by (simp_all add: tz_entry_def TimeZone_def)
  show ?thesis
    using cron_enters_once [OF mem_law _ z, of "sample_daemon 27 0 (eu_start 2007)" 2007 sample_inputs 1 0 0]
    by (auto simp: sample_inputs_def sample_daemon_def mem_ops_def)
qed

text \<open>
  A restart in the repeated hour loses an hour: the daemon that starts (with the clock already put
  back) in the hour before the North American switching time sets its flag again, whatever the flag was,
  and after the hour it puts the clock back a second time.
\<close>

theorem cron_restart_leaves_again:
  assumes "conf_law ops" and "time_fmt ops (conf d) = (True, z)" and "tz_entry z = Some en"
    and "dst en = NA_DST" and "2007 \<le> y" and "y \<le> 2099"
    and "na_stop y - 3600 \<le> clk d" and "clk d < na_stop y"
    and "na_stop y \<le> clk d + s" and "clk d + s < na_stop y + 3600"
  shows "\<exists>d' d''. main_init ops d = Some (d', create_file)
    \<and> dst_switch ops 0 0 (d'\<lparr>clk := clk d + s\<rparr>) = Some d'' \<and> clk d'' = clk d + s - 3600"
proof -
  have sav: "cron_daylight_saving z t = Some (if t < na_stop y then 1 else 0)"
    if "na_stop y - 3600 \<le> t" "t < na_stop y + 3600" for t
    using that assms(5,6) na_bounds(2) [of y] saving_na [OF assms(3,4), of t] na.saving_window [of y t]
    by simp
  define d' where "d' = d\<lparr>conf := pro_set ops 1 (conf d)\<rparr>"
  have "main_init ops d = Some (d', create_file)"
    using assms(2,7,8) sav [of "clk d"] by (simp add: main_init_def d'_def)
  moreover have "pro_get ops (conf (d'\<lparr>clk := clk d + s\<rparr>)) = Some 1"
    "time_fmt ops (conf (d'\<lparr>clk := clk d + s\<rparr>)) = (True, z)"
    "cron_daylight_saving z (clk (d'\<lparr>clk := clk d + s\<rparr>)) = Some 0"
    using assms(1,2,7-10) sav [of "clk d + s"] by (simp_all add: d'_def conf_law_def)
  ultimately show ?thesis using dst_switch_leave by fastforce
qed

theorem cron_restart_leaves_again_witness:
  "\<exists>d' d''. main_init mem_ops (sample_daemon 4 0 (na_stop 2007 - 1800)) = Some (d', create_file)
    \<and> dst_switch mem_ops 0 0 (d'\<lparr>clk := na_stop 2007\<rparr>) = Some d'' \<and> clk d'' = na_stop 2007 - 3600"
proof -
  have z: "tz_entry 4 = Some (TimeZone ! 4)" "dst (TimeZone ! 4) = NA_DST"
    by (simp_all add: tz_entry_def TimeZone_def)
  show ?thesis
    using cron_restart_leaves_again [OF mem_law _ z,
        of "sample_daemon 4 0 (na_stop 2007 - 1800)" 2007 1800]
    by (auto simp: sample_daemon_def mem_ops_def)
qed

end
