(* ===== verification/Cron_Parent.thy ===== *)
theory Cron_Parent
  imports Camera_Prelude "HOL-Library.AList"
begin

text \<open>
  The parent process of a cron job (\<^verbatim>\<open>cron/cron-parent.c\<close>): the command line with its \<^verbatim>\<open>%\<close> characters,
  redirection and search path (\<^verbatim>\<open>parseargs\<close>), the user and environment (\<^verbatim>\<open>changeuser\<close>,
  \<^verbatim>\<open>setenviron\<close>), the file descriptors (\<^verbatim>\<open>setupfds\<close>), the mail process (\<^verbatim>\<open>handlestdout\<close>), the
  standard input (\<^verbatim>\<open>sendstdin\<close>) and their composition.  The answers of \<^verbatim>\<open>stat\<close>, \<^verbatim>\<open>open\<close> and \<^verbatim>\<open>write\<close> are
  arguments.
\<close>

section \<open>The command line\<close>

text \<open>
  The loop that replaces the percent characters works in place: \<open>p\<close> is the write index, \<open>q\<close> the read
  index.  It does not terminate the text it has written.
\<close>

function mangle_loop :: "string \<Rightarrow> nat \<Rightarrow> nat \<Rightarrow> string" where
  "mangle_loop buf p q =
     (if length buf \<le> q \<or> buf ! q = NUL then buf
      else if buf ! q = CHR ''%'' then
        (if q + 1 < length buf \<and> buf ! (q + 1) = CHR ''%''
         then mangle_loop (buf[p := buf ! q]) (p + 1) (q + 2)
         else mangle_loop (buf[p := NL]) (p + 1) (q + 1))
      else mangle_loop (buf[p := buf ! q]) (p + 1) (q + 1))"
  by auto
termination by (relation "measure (\<lambda>(buf, p, q). length buf - q)") auto

declare mangle_loop.simps [simp del]

definition cstring :: "string \<Rightarrow> string" where
  "cstring buf = takeWhile (\<lambda>c. c \<noteq> NUL) buf"

text \<open>The text up to the first newline is the command, the rest the standard input.\<close>

definition split_stdin :: "string \<Rightarrow> string \<times> string option" where
  "split_stdin args =
     (if NL \<in> set args
      then (takeWhile (\<lambda>c. c \<noteq> NL) args, Some (tl (dropWhile (\<lambda>c. c \<noteq> NL) args)))
      else (args, None))"

datatype parent_error = No_command | Multiple_output | No_output_file | No_path | Not_found

text \<open>The words that successive calls of \<^verbatim>\<open>strtok\<close> deliver.\<close>

function words_of :: "(char \<Rightarrow> bool) \<Rightarrow> string \<Rightarrow> string list" where
  "words_of delim s = (case strtok delim s of None \<Rightarrow> [] | Some (t, r) \<Rightarrow> t # words_of delim r)"
  by auto
termination by (relation "measure (\<lambda>(delim, s). length s)") (auto dest: strtok_shorter)

declare words_of.simps [simp del]

fun build_av :: "string list \<Rightarrow> nat \<Rightarrow> string list \<Rightarrow> string option \<Rightarrow> parent_error + (string list \<times> string option)" where
  "build_av [] i av outfile = Inr (av, outfile)"
| "build_av (p # ps) i av outfile =
     (if \<not> i < 100 then Inr (av, outfile)
      else if hd p = CHR ''>'' then
        (if outfile \<noteq> None then Inl Multiple_output
         else if tl p = [] then
           (case ps of [] \<Rightarrow> Inl No_output_file | f # ps' \<Rightarrow> build_av ps' i av (Some f))
         else build_av ps i av (Some (tl p)))
      else build_av ps (i + 1) (av @ [p]) outfile)"

text \<open>The answer of \<^verbatim>\<open>stat\<close> on a candidate, and the test of its execute permission.\<close>

record file_stat =
  fs_uid :: int
  fs_gid :: int
  fs_mode :: u32

definition executable :: "int \<Rightarrow> int \<Rightarrow> file_stat \<Rightarrow> bool" where
  "executable uid gid b =
     (if fs_uid b = uid then fs_mode b AND 0x40 \<noteq> 0
      else if fs_gid b = gid then fs_mode b AND 0x8 \<noteq> 0
      else fs_mode b AND 0x1 \<noteq> 0)"

fun find_path :: "(string \<Rightarrow> file_stat option) \<Rightarrow> int \<Rightarrow> int \<Rightarrow> string list \<Rightarrow> string \<Rightarrow> string option" where
  "find_path stat uid gid [] cmd = None"
| "find_path stat uid gid (r # rs) cmd =
     (let q = r @ CHR ''/'' # cmd
      in case stat q of
           None \<Rightarrow> find_path stat uid gid rs cmd
         | Some b \<Rightarrow> if executable uid gid b then Some q else find_path stat uid gid rs cmd)"

text \<open>
  \<^verbatim>\<open>strtok\<close> cuts the string that \<^verbatim>\<open>getenv\<close> returned, which is the environment itself: what is left of
  the variable is the text up to the end of the first directory.
\<close>

definition colon :: "char \<Rightarrow> bool" where
  "colon c \<longleftrightarrow> c = CHR '':''"

definition cut_path :: "string \<Rightarrow> string" where
  "cut_path p = takeWhile colon p @ takeWhile (\<lambda>c. \<not> colon c) (dropWhile colon p)"

type_synonym environment = "(string \<times> string) list"

record parsed =
  av :: "string list"
  stdinstr :: "string option"
  outfile :: "string option"
  path :: string
  envp_left :: environment

definition parseargs ::
  "(string \<Rightarrow> file_stat option) \<Rightarrow> int \<Rightarrow> int \<Rightarrow> environment \<Rightarrow> string \<Rightarrow> parent_error + parsed" where
  "parseargs stat uid gid env args =
     (let (cmd, stdin) = split_stdin (cstring (mangle_loop (args @ [NUL]) 0 0))
      in case words_of blank cmd of
           [] \<Rightarrow> Inl No_command
         | a0 # ws \<Rightarrow>
             (case build_av ws 1 [a0] None of
                Inl e \<Rightarrow> Inl e
              | Inr (vs, out) \<Rightarrow>
                  (if hd a0 = CHR ''/''
                   then Inr \<lparr>av = vs, stdinstr = stdin, outfile = out, path = a0, envp_left = env\<rparr>
                   else case map_of env ''PATH'' of
                          None \<Rightarrow> Inl No_path
                        | Some p \<Rightarrow>
                            (case words_of colon p of
                               [] \<Rightarrow> Inl No_path
                             | dirs \<Rightarrow>
                                 (case find_path stat uid gid dirs a0 of
                                    None \<Rightarrow> Inl Not_found
                                  | Some q \<Rightarrow> Inr \<lparr>av = vs, stdinstr = stdin, outfile = out, path = q,
                                      envp_left = AList.update ''PATH'' (cut_path p) env\<rparr>)))))"

section \<open>User, environment and descriptors\<close>

datatype syscall = Initgroups string int | Setgid int | Setuid int

definition changeuser :: "int \<Rightarrow> string \<Rightarrow> syscall list" where
  "changeuser uid user = [Initgroups user uid, Setgid uid, Setuid uid]"

record job_env =
  jenv :: environment
  mailuser :: "string option"
  mailhost :: "string option"
  hname :: "string option"
  workdir :: string

definition setenviron :: "environment \<Rightarrow> string \<Rightarrow> job_env" where
  "setenviron env user =
     (let env = (if map_of env ''PATH'' = None then env @ [(''PATH'', ''/bin:/usr/bin:/etc'')] else env)
      in \<lparr>jenv = env,
          mailuser = (case map_of env ''MAILTO'' of
                        None \<Rightarrow> Some user
                      | Some s \<Rightarrow> if s = ''nobody'' then None else Some s),
          mailhost = map_of env ''MAILHOST'',
          hname = map_of env ''HOSTNAME'',
          workdir = (case map_of env ''HOME'' of None \<Rightarrow> ''/tmp'' | Some s \<Rightarrow> s)\<rparr>)"

text \<open>
  File descriptors: a table from numbers to what they refer to.  \<^verbatim>\<open>open\<close> and \<^verbatim>\<open>pipe\<close> take the lowest free
  numbers; the pipes are numbered by their use.
\<close>

datatype fd_obj = Null_in | Null_out | Out_file string | Out_r | Out_w | In_r | In_w

type_synonym fds = "nat \<Rightarrow> fd_obj option"

definition lowest_free :: "fds \<Rightarrow> nat" where
  "lowest_free t = hd (filter (\<lambda>i. t i = None) [0..<64])"

definition open_fd :: "fd_obj \<Rightarrow> fds \<Rightarrow> nat \<times> fds" where
  "open_fd x t = (let i = lowest_free t in (i, t(i \<mapsto> x)))"

definition pipe_fds :: "fd_obj \<Rightarrow> fd_obj \<Rightarrow> fds \<Rightarrow> (nat \<times> nat) \<times> fds" where
  "pipe_fds r w t = (let (i, t) = open_fd r t; (j, t) = open_fd w t in ((i, j), t))"

definition dup2 :: "nat \<Rightarrow> nat \<Rightarrow> fds \<Rightarrow> fds" where
  "dup2 i j t = t(j := t i)"

definition close_fd :: "nat \<Rightarrow> fds \<Rightarrow> fds" where
  "close_fd i t = t(i := None)"

definition PLISTENFD :: nat where "PLISTENFD = 8"
definition PSENDFD :: nat where "PSENDFD = 9"

text \<open>\<open>creates\<close> tells whether the output file can be opened.\<close>

definition setup_output :: "bool \<Rightarrow> string option \<Rightarrow> bool \<Rightarrow> fds \<Rightarrow> fds" where
  "setup_output mail out creates t =
     (if \<not> mail
      then let (i, t) = (case out of
                           Some f \<Rightarrow> if creates then open_fd (Out_file f) t else open_fd Null_out t
                         | None \<Rightarrow> open_fd Null_out t);
               t = dup2 i 1 t; t = dup2 i 2 t
           in close_fd i t
      else let ((r, w), t) = pipe_fds Out_r Out_w t;
               t = dup2 w 2 t; t = dup2 r PLISTENFD t
           in close_fd r t)"

definition setup_input :: "bool \<Rightarrow> fds \<Rightarrow> fds" where
  "setup_input has_stdin t =
     (if has_stdin
      then let ((r, w), t) = pipe_fds In_r In_w t; t = dup2 w PSENDFD t in close_fd w t
      else snd (open_fd Null_in t))"

definition setupfds :: "bool \<Rightarrow> string option \<Rightarrow> bool \<Rightarrow> bool \<Rightarrow> fds \<Rightarrow> fds" where
  "setupfds mail out creates has_stdin t =
     setup_input has_stdin (setup_output mail out creates (fold close_fd [0..<64] t))"

text \<open>The argument vector of the mail process.\<close>

definition handlestdout :: "job_env \<Rightarrow> string \<Rightarrow> string list option" where
  "handlestdout e exe =
     (case (mailuser e, mailhost e) of
        (Some u, Some h) \<Rightarrow>
          Some ([''cron-mail'', ''-s'', ''Output from: '' @ exe]
                @ (case hname e of None \<Rightarrow> [] | Some n \<Rightarrow> [''-H'', n])
                @ [''-L'', ''-S'', h, u])
      | _ \<Rightarrow> None)"

text \<open>
  \<^verbatim>\<open>sendstdin\<close>: the results of the successive \<^verbatim>\<open>write\<close> calls are given, \<^const>\<open>None\<close> being an error; the
  model's result is what was written, and \<^const>\<open>None\<close> when the results do not suffice.  The character in
  front of an empty text is the terminator of the command.
\<close>

fun send_loop :: "string \<Rightarrow> nat option list \<Rightarrow> string option" where
  "send_loop s rs =
     (if s = [] then Some []
      else case rs of
             [] \<Rightarrow> None
           | None # _ \<Rightarrow> Some []
           | Some n # rs' \<Rightarrow> map_option (\<lambda>t. take n s @ t) (send_loop (drop n s) rs'))"

definition sendstdin :: "string option \<Rightarrow> nat option list \<Rightarrow> string option" where
  "sendstdin stdin rs =
     (case stdin of
        None \<Rightarrow> Some []
      | Some s \<Rightarrow>
          map_option (\<lambda>t. t @ (if s \<noteq> [] \<and> last s = NL then [] else [NL])) (send_loop s rs))"

text \<open>The whole process: what the job is started with.\<close>

record started =
  st_calls :: "syscall list"
  st_path :: string
  st_argv :: "string list"
  st_env :: environment
  st_dir :: string
  st_child_fds :: fds
  st_mail :: "string list option"
  st_stdin :: "string option"

definition cron_parent_main ::
  "(string \<Rightarrow> file_stat option) \<Rightarrow> bool \<Rightarrow> environment \<Rightarrow> string list \<Rightarrow> fds \<Rightarrow> nat option list
   \<Rightarrow> (parent_error + started) option" where
  "cron_parent_main stat creates env argv fds rs =
     (if length argv \<noteq> 4 then None
      else let uid = atoi (argv ! 2); user = argv ! 3; e = setenviron env user
           in case parseargs stat uid uid (jenv e) (argv ! 1) of
                Inl err \<Rightarrow> Some (Inl err)
              | Inr p \<Rightarrow>
                  (let t = setupfds (mailuser e \<noteq> None \<and> mailhost e \<noteq> None) (outfile p) creates
                             (stdinstr p \<noteq> None) fds
                   in Some (Inr \<lparr>st_calls = changeuser uid user, st_path = path p, st_argv = av p,
                        st_env = envp_left p, st_dir = workdir e,
                        st_child_fds = close_fd PSENDFD (close_fd PLISTENFD t),
                        st_mail = handlestdout e (path p),
                        st_stdin = sendstdin (stdinstr p) rs\<rparr>)))"

section \<open>Percent characters\<close>

text \<open>The documented meaning: a pair stands for one percent character, a single one for a newline.\<close>

fun mangle :: "string \<Rightarrow> string" where
  "mangle [] = []"
| "mangle [c] = (if c = CHR ''%'' then [NL] else [c])"
| "mangle (c # d # cs) =
     (if c = CHR ''%'' then if d = CHR ''%'' then CHR ''%'' # mangle cs else NL # mangle (d # cs)
      else c # mangle (d # cs))"

fun has_pair :: "string \<Rightarrow> bool" where
  "has_pair (c # d # cs) \<longleftrightarrow> c = CHR ''%'' \<and> d = CHR ''%'' \<or> has_pair (d # cs)"
| "has_pair cs \<longleftrightarrow> False"

lemma mangle_length: "length (mangle s) \<le> length s"
  by (induction s rule: mangle.induct) auto

lemma mangle_length_pair: "length (mangle s) = length s \<longleftrightarrow> \<not> has_pair s"
proof (induction s rule: mangle.induct)
  case (3 c d cs)
  then show ?case using mangle_length [of cs] by auto
qed auto

text \<open>The invariant of the loop: \<open>done\<close> is written, \<open>gap\<close> is stale, \<open>s\<close> is still to be read.\<close>

lemma write_step:
  assumes "consumed \<noteq> []"
  shows "(ready @ gap @ consumed @ rest)[length ready := x]
    = (ready @ [x]) @ tl (gap @ consumed) @ rest"
  using assms by (cases gap; cases consumed) (simp_all add: list_update_append)

lemma mangle_loop_step:
  assumes "consumed \<noteq> []"
    and "mangle_loop (ready @ gap @ consumed @ rest) (length ready) (length ready + length gap) =
      mangle_loop ((ready @ gap @ consumed @ rest)[length ready := x]) (length ready + 1)
        (length ready + length gap + length consumed)"
    and "\<And>ready gap. mangle_loop (ready @ gap @ rest) (length ready) (length ready + length gap)
      = ready @ m @ drop (length m) (gap @ rest)"
  shows "mangle_loop (ready @ gap @ consumed @ rest) (length ready) (length ready + length gap) =
    ready @ (x # m) @ drop (length (x # m)) (gap @ consumed @ rest)"
proof -
  have l: "length (ready @ [x]) = length ready + 1" by simp
  have len: "length ready + 1 + length (tl (gap @ consumed))
      = length ready + length gap + length consumed"
    using assms(1) by (cases gap; cases consumed) simp_all
  have "mangle_loop (ready @ gap @ consumed @ rest) (length ready) (length ready + length gap) =
      mangle_loop ((ready @ [x]) @ tl (gap @ consumed) @ rest) (length (ready @ [x]))
        (length (ready @ [x]) + length (tl (gap @ consumed)))"
    unfolding assms(2) write_step [OF assms(1)] l len ..
  also have "\<dots> = (ready @ [x]) @ m @ drop (length m) (tl (gap @ consumed) @ rest)"
    by (rule assms(3))
  finally have "mangle_loop (ready @ gap @ consumed @ rest) (length ready) (length ready + length gap) =
      (ready @ [x]) @ m @ drop (length m) (tl (gap @ consumed) @ rest)" .
  moreover have "tl (gap @ consumed) @ rest = tl (gap @ consumed @ rest)"
    using assms(1) by (cases gap; cases consumed) simp_all
  ultimately show ?thesis by (simp add: drop_Suc del: drop_append)
qed

lemma mangle_loop_inv:
  "NUL \<notin> set s \<Longrightarrow>
   mangle_loop (ready @ gap @ s @ [NUL]) (length ready) (length ready + length gap) =
   ready @ mangle s @ drop (length (mangle s)) (gap @ s @ [NUL])"
proof (induction s arbitrary: ready gap rule: mangle.induct)
  case 1
  then show ?case by (subst mangle_loop.simps) (simp add: nth_append)
next
  case (2 c)
  have e: "mangle_loop (r @ g @ [NUL]) (length r) (length r + length g) = r @ [] @ drop (length []) (g @ [NUL])"
    for r g by (subst mangle_loop.simps) (simp add: nth_append)
  have "mangle_loop (ready @ gap @ [c] @ [NUL]) (length ready) (length ready + length gap) =
      ready @ (hd (mangle [c]) # []) @ drop (length (hd (mangle [c]) # [])) (gap @ [c] @ [NUL])"
    by (rule mangle_loop_step [OF _ _ e], simp)
      (subst mangle_loop.simps, use 2 in \<open>auto simp: nth_append\<close>)
  then show ?case by (simp split: if_splits)
next
  case (3 c d cs)
  let ?b = "ready @ gap @ c # d # cs @ [NUL]" and ?q = "length ready + length gap"
  have n: "?b ! ?q = c" "?b ! (?q + 1) = d" "?q + 1 < length ?b" "c \<noteq> NUL"
    using 3 by (auto simp: nth_append)
  show ?case
  proof (cases "c = CHR ''%'' \<and> d = CHR ''%''")
    case True
    have "mangle_loop (ready @ gap @ [c, d] @ cs @ [NUL]) (length ready) ?q =
      ready @ (CHR ''%'' # mangle cs) @ drop (length (CHR ''%'' # mangle cs)) (gap @ [c, d] @ cs @ [NUL])"
    proof (rule mangle_loop_step)
      show "mangle_loop (ready @ gap @ [c, d] @ cs @ [NUL]) (length ready) ?q =
          mangle_loop ((ready @ gap @ [c, d] @ cs @ [NUL])[length ready := CHR ''%''])
            (length ready + 1) (?q + length [c, d])"
        using True n by (subst mangle_loop.simps) simp
    qed (use 3 True in auto)
    then show ?thesis using True by simp
  next
    case False
    let ?x = "if c = CHR ''%'' then NL else c"
    have "mangle_loop (ready @ gap @ [c] @ d # cs @ [NUL]) (length ready) ?q =
      ready @ (?x # mangle (d # cs)) @ drop (length (?x # mangle (d # cs))) (gap @ [c] @ d # cs @ [NUL])"
    proof (rule mangle_loop_step)
      show "mangle_loop (ready @ gap @ [c] @ d # cs @ [NUL]) (length ready) ?q =
          mangle_loop ((ready @ gap @ [c] @ d # cs @ [NUL])[length ready := ?x])
            (length ready + 1) (?q + length [c])"
        using False n by (subst mangle_loop.simps) auto
      show "mangle_loop (ready @ gap @ d # cs @ [NUL]) (length ready) (length ready + length gap) =
          ready @ mangle (d # cs) @ drop (length (mangle (d # cs))) (gap @ d # cs @ [NUL])" for ready gap
        using 3 False by (cases "c = CHR ''%''") auto
    qed simp
    then show ?thesis using False by (auto split: if_splits)
  qed
qed

lemma mangle_loop_eq:
  "NUL \<notin> set s \<Longrightarrow>
   mangle_loop (s @ [NUL]) 0 0 = mangle s @ drop (length (mangle s)) (s @ [NUL])"
  using mangle_loop_inv [of s "[]" "[]"] by simp

lemma mangle_no_nul: "NUL \<notin> set s \<Longrightarrow> NUL \<notin> set (mangle s)"
  by (induction s rule: mangle.induct) auto

lemma cstring_append: "NUL \<notin> set s \<Longrightarrow> cstring (s @ t) = s @ cstring t"
  unfolding cstring_def by (subst takeWhile_append2) auto

lemma cstring_NUL [simp]: "cstring [NUL] = []"
  by (simp add: cstring_def)

lemma cstring_terminated: "NUL \<notin> set s \<Longrightarrow> cstring (s @ [NUL]) = s"
  by (simp add: cstring_append)

lemma mangled_text:
  assumes "NUL \<notin> set s"
  shows "cstring (mangle_loop (s @ [NUL]) 0 0) = mangle s @ drop (length (mangle s)) s"
proof -
  have "NUL \<notin> set (drop (length (mangle s)) s)" using assms by (meson in_set_dropD)
  moreover have "drop (length (mangle s)) (s @ [NUL]) = drop (length (mangle s)) s @ [NUL]"
    using mangle_length [of s] by simp
  ultimately show ?thesis
    using assms by (simp add: mangle_loop_eq cstring_append mangle_no_nul cstring_terminated
        del: drop_append)
qed

section \<open>Words\<close>








lemma build_av_hd: "build_av ws i vs o1 = Inr (b, o2) \<Longrightarrow> vs \<noteq> [] \<Longrightarrow> hd b = hd vs"
proof (induction ws arbitrary: i vs o1 rule: length_induct)
  case (1 ws)
  then have IH: "build_av ps j us o3 = Inr (b, o2) \<Longrightarrow> us \<noteq> [] \<Longrightarrow> hd b = hd us"
    if "length ps < length ws" for ps j us o3
    using that by blast
  show ?case
  proof (cases ws)
    case Nil
    then show ?thesis using "1.prems" by simp
  next
    case (Cons p ps)
    consider (stop) "\<not> i < 100" | (out) "i < 100" "hd p = CHR ''>''" | (word) "i < 100" "hd p \<noteq> CHR ''>''"
      by blast
    then show ?thesis
    proof cases
      case out
      then have "build_av ws i vs o1 = (if o1 \<noteq> None then Inl Multiple_output
          else if tl p = [] then (case ps of [] \<Rightarrow> Inl No_output_file | f # ps' \<Rightarrow> build_av ps' i vs (Some f))
          else build_av ps i vs (Some (tl p)))"
        unfolding Cons build_av.simps by simp
      with "1.prems"(1) have "(\<exists>f ps'. ps = f # ps' \<and> build_av ps' i vs (Some f) = Inr (b, o2))
          \<or> build_av ps i vs (Some (tl p)) = Inr (b, o2)"
        by (simp split: if_splits list.splits del: build_av.simps)
      then show ?thesis
      proof (elim disjE exE conjE)
        fix f ps'
        assume "ps = f # ps'" "build_av ps' i vs (Some f) = Inr (b, o2)"
        then show ?thesis using Cons "1.prems"(2) by (intro IH [of ps']) simp_all
      next
        assume "build_av ps i vs (Some (tl p)) = Inr (b, o2)"
        then show ?thesis using Cons "1.prems"(2) by (intro IH [of ps]) simp_all
      qed
    qed (use "1.prems" Cons IH [of ps "i + 1" "vs @ [p]" o1] in simp_all)
  qed
qed







section \<open>Descriptors\<close>

lemma fold_close_fd: "fold close_fd xs t i = (if i \<in> set xs then None else t i)"
  by (induction xs arbitrary: t) (auto simp: close_fd_def)

lemma lowest_free_0: "t 0 = None \<Longrightarrow> lowest_free t = 0"
  by (simp add: lowest_free_def upt_rec)

lemma lowest_free_1: "t 0 = Some x \<Longrightarrow> t 1 = None \<Longrightarrow> lowest_free t = 1"
  by (simp add: lowest_free_def upt_rec)

lemma lowest_free_3:
  "t 0 = Some x \<Longrightarrow> t 1 = Some y \<Longrightarrow> t 2 = Some z \<Longrightarrow> t 3 = None \<Longrightarrow> lowest_free t = 3"
  by (simp add: lowest_free_def upt_rec numeral_2_eq_2 numeral_3_eq_3)

lemma setup_output_eq:
  assumes "\<And>i. i < 64 \<Longrightarrow> t i = None"
  shows "setup_output mail out creates t =
    (if mail then t(1 \<mapsto> Out_w, 2 \<mapsto> Out_w, 8 \<mapsto> Out_r)
     else let x = if out \<noteq> None \<and> creates then Out_file (the out) else Null_out
          in t(1 \<mapsto> x, 2 \<mapsto> x))"
proof -
  have n: "t 0 = None" "t 1 = None" "t 2 = None" "t 8 = None" using assms by simp_all
  have o: "close_fd 0 (dup2 0 2 (dup2 0 1 (t(0 \<mapsto> x)))) = t(1 \<mapsto> x, 2 \<mapsto> x)" for x
    using n by (auto simp: fun_eq_iff close_fd_def dup2_def)
  have f: "open_fd x t = (0, t(0 \<mapsto> x))" for x
    using n by (simp add: open_fd_def lowest_free_0)
  have p: "pipe_fds Out_r Out_w t = ((0, 1), t(0 \<mapsto> Out_r, 1 \<mapsto> Out_w))"
    using n unfolding pipe_fds_def f by (simp add: open_fd_def lowest_free_1 [of _ Out_r])
  have "close_fd 0 (dup2 0 8 (dup2 1 2 (t(0 \<mapsto> Out_r, 1 \<mapsto> Out_w)))) =
      t(1 \<mapsto> Out_w, 2 \<mapsto> Out_w, 8 \<mapsto> Out_r)"
    using n by (auto simp: fun_eq_iff close_fd_def dup2_def)
  with o show ?thesis
    by (cases mail; cases out) (simp_all add: setup_output_def f p PLISTENFD_def Let_def)
qed

lemma setup_input_eq:
  assumes "t 0 = None" "t 1 = Some x" "t 2 = Some y" "t 3 = None"
  shows "setup_input has_stdin t = (if has_stdin then t(0 \<mapsto> In_r, 9 \<mapsto> In_w) else t(0 \<mapsto> Null_in))"
proof -
  have f: "open_fd z t = (0, t(0 \<mapsto> z))" for z
    using assms by (simp add: open_fd_def lowest_free_0)
  have "lowest_free (t(0 \<mapsto> In_r)) = 3"
    using assms by (intro lowest_free_3 [of _ In_r x y]) simp_all
  then have p: "pipe_fds In_r In_w t = ((0, 3), t(0 \<mapsto> In_r, 3 \<mapsto> In_w))"
    unfolding pipe_fds_def f by (simp add: open_fd_def)
  have "close_fd 3 (dup2 3 9 (t(0 \<mapsto> In_r, 3 \<mapsto> In_w))) = t(0 \<mapsto> In_r, 9 \<mapsto> In_w)"
    using assms by (auto simp: fun_eq_iff close_fd_def dup2_def)
  then show ?thesis by (simp add: setup_input_def f p PSENDFD_def)
qed

section \<open>Properties\<close>

text \<open>
  The in-place replacement of percent characters: for every command text, the buffer read back holds
  the documented translation followed by the stale end of the original, so the documented text is what
  the job gets exactly when the command contains no doubled percent character.
\<close>

theorem percent_mangling:
  assumes "NUL \<notin> set s"
  shows "cstring (mangle_loop (s @ [NUL]) 0 0) = mangle s @ drop (length (mangle s)) s
    \<and> (cstring (mangle_loop (s @ [NUL]) 0 0) = mangle s \<longleftrightarrow> \<not> has_pair s)"
proof -
  have "drop (length (mangle s)) s = [] \<longleftrightarrow> \<not> has_pair s"
    using mangle_length [of s] mangle_length_pair [of s] by auto
  then show ?thesis using mangled_text [OF assms] by simp
qed

theorem percent_mangling_witness:
  "cstring (mangle_loop (''a%%b'' @ [NUL]) 0 0) = mangle ''a%%b'' @ drop (length (mangle ''a%%b'')) ''a%%b''
   \<and> mangle ''a%%b'' = ''a%b'' \<and> drop (length (mangle ''a%%b'')) ''a%%b'' = ''b''"
  using percent_mangling [of "''a%%b''"] by simp



text \<open>
  Searching a relative program damages the job's environment: whenever the search succeeds, the
  variable \<^verbatim>\<open>PATH\<close> passed to the job is cut down to its first directory.
\<close>

theorem parseargs_cuts_path:
  assumes "parseargs stat uid gid env args = Inr r" and "hd (hd (av r)) \<noteq> CHR ''/''"
    and "map_of env ''PATH'' = Some (d @ CHR '':'' # dirs)" and "d \<noteq> []" and "CHR '':'' \<notin> set d"
  shows "map_of (envp_left r) ''PATH'' = Some d"
proof -
  have "cut_path (d @ CHR '':'' # dirs) = d"
    using assms(4,5) by (cases d) (auto simp: cut_path_def colon_def takeWhile_append)
  moreover obtain cmd stdin where cs: "split_stdin (cstring (mangle_loop (args @ [NUL]) 0 0)) = (cmd, stdin)"
    by fastforce
  moreover obtain a0 ws where ws: "words_of blank cmd = a0 # ws"
    using assms(1) cs by (cases "words_of blank cmd") (auto simp: parseargs_def)
  moreover obtain vs out where vs: "build_av ws 1 [a0] None = Inr (vs, out)"
    using assms(1) cs ws by (cases "build_av ws 1 [a0] None") (auto simp: parseargs_def)
  moreover have "hd vs = a0" using build_av_hd [OF vs] by simp
  moreover have "av r = vs"
    using assms(1) cs ws vs
    by (auto simp: parseargs_def Let_def split: if_splits option.splits list.splits)
  ultimately show ?thesis
    using assms(1-3)
    by (auto simp: parseargs_def Let_def update_conv split: option.splits list.splits)
qed

theorem parseargs_cuts_path_witness:
  "\<exists>r. parseargs (\<lambda>q. if q = ''/bin/date'' then Some \<lparr>fs_uid = 0, fs_gid = 0, fs_mode = 0x1ED\<rparr> else None)
      0 0 [(''PATH'', ''/sbin:/bin'')] ''date -u'' = Inr r
    \<and> path r = ''/bin/date'' \<and> map_of (envp_left r) ''PATH'' = Some ''/sbin''"
proof -
  let ?st = "\<lambda>q. if q = ''/bin/date'' then Some \<lparr>fs_uid = 0, fs_gid = 0, fs_mode = 0x1ED\<rparr> else None"
  have "parseargs ?st 0 0 [(''PATH'', ''/sbin:/bin'')] ''date -u'' =
      Inr \<lparr>av = [''date'', ''-u''], stdinstr = None, outfile = None, path = ''/bin/date'',
           envp_left = [(''PATH'', ''/sbin'')]\<rparr>" by code_simp
  with parseargs_cuts_path [OF this, of "''/sbin''" "''/bin''"] show ?thesis by simp
qed

text \<open>
  The descriptors of a job: whatever was open before, after \<^verbatim>\<open>setupfds\<close> the job has its input at 0 and
  its output at 1 and 2, the parent its two pipe ends at 8 and 9 when they are needed, and no other
  descriptor below 64 is open.
\<close>

theorem setupfds_layout:
  "setupfds mail out creates has_stdin t 0 = Some (if has_stdin then In_r else Null_in)
   \<and> setupfds mail out creates has_stdin t 1 =
       Some (if mail then Out_w
             else if out \<noteq> None \<and> creates then Out_file (the out) else Null_out)
   \<and> setupfds mail out creates has_stdin t 2 = setupfds mail out creates has_stdin t 1
   \<and> setupfds mail out creates has_stdin t 8 = (if mail then Some Out_r else None)
   \<and> setupfds mail out creates has_stdin t 9 = (if has_stdin then Some In_w else None)
   \<and> {i. i < 64 \<and> setupfds mail out creates has_stdin t i \<noteq> None} \<subseteq> {0, 1, 2, 8, 9}"
proof -
  define t0 where "t0 = fold close_fd [0..<64] t"
  have t0: "t0 i = None" if "i < 64" for i using that by (simp add: t0_def fold_close_fd)
  define t1 where "t1 = setup_output mail out creates t0"
  note t1 = setup_output_eq [of t0, OF t0, of mail out creates, folded t1_def]
  define x where "x = (if mail then Out_w
      else if out \<noteq> None \<and> creates then Out_file (the out) else Null_out)"
  have t1v: "t1 1 = Some x" "t1 2 = Some x" "t1 8 = (if mail then Some Out_r else None)"
    "t1 9 = None" "t1 0 = None" "t1 3 = None"
    using t0 by (simp_all add: t1 Let_def x_def)
  have "setup_input has_stdin t1 =
      (if has_stdin then t1(0 \<mapsto> In_r, 9 \<mapsto> In_w) else t1(0 \<mapsto> Null_in))"
    using t1v by (intro setup_input_eq [of _ x x])
  then have u: "setupfds mail out creates has_stdin t =
      (if has_stdin then t1(0 \<mapsto> In_r, 9 \<mapsto> In_w) else t1(0 \<mapsto> Null_in))"
    by (simp add: setupfds_def t0_def [symmetric] t1_def [symmetric])
  have "t1 i = None" if "i < 64" "i \<notin> {1, 2, 8}" for i
    using that t0 [of i] by (auto simp: t1 Let_def)
  then have "{i. i < 64 \<and> setupfds mail out creates has_stdin t i \<noteq> None} \<subseteq> {0, 1, 2, 8, 9}"
    unfolding u by (auto split: if_splits)
  then show ?thesis unfolding u x_def [symmetric] using t1v by simp
qed

text \<open>
  C36. The whole standard input reaches the job: when every write accepts at least one character, the
  loop ends and the text is sent completely, with a newline added unless it ends with one.
\<close>

theorem sendstdin_complete:
  assumes "list_all (\<lambda>r. case r of None \<Rightarrow> False | Some n \<Rightarrow> 0 < n) rs" and "length s \<le> length rs"
  shows "sendstdin (Some s) rs = Some (s @ (if s \<noteq> [] \<and> last s = NL then [] else [NL]))"
proof -
  have "send_loop s rs = Some s" using assms
  proof (induction s rs rule: send_loop.induct)
    case (1 s rs)
    then show ?case by (cases rs; cases "hd rs") auto
  qed
  then show ?thesis by (simp add: sendstdin_def)
qed

theorem sendstdin_complete_witness:
  "sendstdin (Some ''hello'') [Some 2, Some 1, Some 9, Some 1, Some 1] = Some (''hello'' @ [NL])"
  using sendstdin_complete [of "[Some 2, Some 1, Some 9, Some 1, Some 1]" "''hello''"] by simp

end
