(* ===== verification/Float_Round.thy ===== *)
theory Float_Round
  imports Camera_Prelude
begin

text \<open>
  Binary floating point as the C programs use it: a value is a rational number and \<open>fl p\<close> rounds to
  the nearest number with a significand of \<open>p\<close> bits, ties to the even one (\<open>p\<close> is 24 for
  \<^verbatim>\<open>float\<close> and 53 for \<^verbatim>\<open>double\<close>).  No operation of the programs overflows or underflows, so the
  exponent is unbounded here.
\<close>

text \<open>The exponent of a positive number: \<open>2 ^ ilog2 x \<le> x < 2 ^ (ilog2 x + 1)\<close>.\<close>

definition ilog2 :: "rat \<Rightarrow> int" where
  "ilog2 x = (if 1 \<le> x then int (floorlog 2 (nat \<lfloor>x\<rfloor>)) - 1
              else - int (floorlog 2 (nat (\<lceil>1 / x\<rceil> - 1))))"

definition pow2 :: "int \<Rightarrow> rat" where
  "pow2 e = (if 0 \<le> e then 2 ^ nat e else 1 / 2 ^ nat (- e))"

definition round_even :: "rat \<Rightarrow> int" where
  "round_even x =
     (let n = \<lfloor>x\<rfloor>; r = x - of_int n
      in if r < 1 / 2 then n else if 1 / 2 < r then n + 1 else if even n then n else n + 1)"

definition fl :: "nat \<Rightarrow> rat \<Rightarrow> rat" where
  "fl p x =
     (if x = 0 then 0
      else let u = pow2 (ilog2 \<bar>x\<bar> - (int p - 1)) in of_int (round_even (x / u)) * u)"

lemma pow2_pos [simp]: "0 < pow2 e"
  by (simp add: pow2_def)

lemma pow2_add: "pow2 (a + b) = pow2 a * pow2 b"
proof -
  have p: "pow2 e = (2 powi e)" for e
    by (simp add: pow2_def power_int_def inverse_eq_divide power_one_over)
  show ?thesis by (simp add: p power_int_add)
qed

lemma pow2_nat: "pow2 (int n) = 2 ^ n"
  by (simp add: pow2_def)

lemma pow2_neg: "pow2 (- int n) = 1 / 2 ^ n"
  by (cases "n = 0") (simp_all add: pow2_def)

lemma pow2_not_0 [simp]: "pow2 e \<noteq> 0"
  using pow2_pos [of e] by linarith

lemma pow2_mono: "a \<le> b \<Longrightarrow> pow2 a \<le> pow2 b"
proof -
  assume "a \<le> b"
  then obtain n where "b = a + int n" using zle_iff_zadd by blast
  moreover have "pow2 a * 1 \<le> pow2 a * 2 ^ n"
    using pow2_pos [of a] by (intro mult_left_mono) (simp_all add: less_imp_le)
  ultimately show ?thesis by (simp add: pow2_add pow2_nat)
qed

lemma floorlog_2: "floorlog 2 n \<le> k \<longleftrightarrow> n < 2 ^ k"
  by (simp add: floorlog_le_iff)

lemma ilog2_le: assumes "0 < x" shows "pow2 (ilog2 x) \<le> x"
proof (cases "1 \<le> x")
  case True
  define n where "n = nat \<lfloor>x\<rfloor>"
  have n: "1 \<le> n" "of_nat n \<le> x"
    using True by (auto simp: n_def le_nat_iff of_nat_nat)
  then obtain k where k: "floorlog 2 n = Suc k"
    using floorlog_2 [of n 0] by (cases "floorlog 2 n") auto
  then have "2 ^ k \<le> n" using floorlog_2 [of n k] by simp
  then have "(2::rat) ^ k \<le> of_nat n" by (metis of_nat_le_iff of_nat_numeral of_nat_power)
  with n(2) have "2 ^ k \<le> x" by linarith
  with k True show ?thesis by (simp add: ilog2_def n_def [symmetric] pow2_nat)
next
  case False
  define m where "m = nat (\<lceil>1 / x\<rceil> - 1)"
  have "1 < 1 / x" using False assms by (simp add: less_divide_eq)
  then have "1 < \<lceil>1 / x\<rceil>" unfolding less_ceiling_iff by simp
  then have "\<lceil>1 / x\<rceil> = int m + 1" unfolding m_def by linarith
  moreover have "m < 2 ^ floorlog 2 m" using floorlog_2 [of m "floorlog 2 m"] by simp
  ultimately have "\<lceil>1 / x\<rceil> \<le> 2 ^ floorlog 2 m"
    by (metis add1_zle_eq of_nat_less_iff of_nat_numeral of_nat_power)
  then have "1 / x \<le> 2 ^ floorlog 2 m"
    by (metis ceiling_le_iff of_int_numeral of_int_power)
  then have "1 / 2 ^ floorlog 2 m \<le> x" using assms by (simp add: field_simps)
  then show ?thesis using False by (simp add: ilog2_def m_def pow2_neg)
qed

lemma ilog2_less: assumes "x < 2 ^ k" "0 < x" shows "ilog2 x < int k"
proof (rule ccontr)
  assume "\<not> ilog2 x < int k"
  then have "pow2 (int k) \<le> pow2 (ilog2 x)" by (intro pow2_mono) simp
  with ilog2_le [OF assms(2)] assms(1) show False by (simp add: pow2_nat)
qed

lemma round_even_error: "\<bar>of_int (round_even x) - x\<bar> \<le> 1 / 2"
proof -
  have "of_int \<lfloor>x\<rfloor> \<le> x" "x < of_int \<lfloor>x\<rfloor> + 1" by linarith+
  then show ?thesis by (auto simp: round_even_def Let_def abs_le_iff field_simps)
qed

lemma round_even_int [simp]: "round_even (of_int n) = n"
  by (simp add: round_even_def)

text \<open>The relative error of rounding, and the integers it does not change.\<close>

lemma fl_error: "\<bar>fl p x - x\<bar> \<le> \<bar>x\<bar> / 2 ^ p"
proof (cases "x = 0")
  case False
  define u where "u = pow2 (ilog2 \<bar>x\<bar> - (int p - 1))"
  have "0 < u" by (simp add: u_def)
  have "fl p x - x = (of_int (round_even (x / u)) - x / u) * u"
    using False \<open>0 < u\<close> by (simp add: fl_def u_def Let_def left_diff_distrib)
  then have "\<bar>fl p x - x\<bar> = \<bar>of_int (round_even (x / u)) - x / u\<bar> * u"
    using \<open>0 < u\<close> by (simp add: abs_mult)
  also have "\<dots> \<le> 1 / 2 * u"
    using round_even_error \<open>0 < u\<close> by (intro mult_right_mono) simp_all
  also have "\<dots> = pow2 (ilog2 \<bar>x\<bar>) / 2 ^ p"
  proof -
    have "u = pow2 (ilog2 \<bar>x\<bar>) * (pow2 (- int p) * pow2 1)"
      unfolding u_def pow2_add [symmetric] by (simp add: algebra_simps)
    then show ?thesis by (simp add: pow2_neg) (simp add: pow2_def)
  qed
  also have "\<dots> \<le> \<bar>x\<bar> / 2 ^ p"
    using ilog2_le [of "\<bar>x\<bar>"] False by (intro divide_right_mono) simp_all
  finally show ?thesis .
qed (simp add: fl_def)

lemma fl_int: assumes "\<bar>n\<bar> < 2 ^ p" shows "fl p (of_int n) = of_int n"
proof (cases "n = 0")
  case False
  define e where "e = ilog2 \<bar>of_int n\<bar> - (int p - 1)"
  have "\<bar>of_int n :: rat\<bar> < 2 ^ p"
    using assms by (metis of_int_abs of_int_less_iff of_int_numeral of_int_power)
  then have "e \<le> 0" using False ilog2_less [of "\<bar>of_int n\<bar>" p] by (simp add: e_def)
  then have "pow2 e = 1 / 2 ^ nat (- e)" using pow2_neg [of "nat (- e)"] by simp
  then obtain k where k: "pow2 e = 1 / 2 ^ k" by blast
  have "of_int n / pow2 e = (of_int (n * 2 ^ k) :: rat)" by (simp add: k)
  then have "round_even (of_int n / pow2 e) = n * 2 ^ k" by (simp only: round_even_int)
  then show ?thesis using False by (simp add: fl_def e_def [symmetric] Let_def k)
qed (simp add: fl_def)

text \<open>More generally, integers over a power of two.\<close>

lemma fl_dyadic: assumes "\<bar>n\<bar> < 2 ^ p" shows "fl p (of_int n / 2 ^ k) = of_int n / 2 ^ k"
proof (cases "n = 0")
  case False
  define x :: rat where "x = of_int n / 2 ^ k"
  have x: "0 < \<bar>x\<bar>" using False by (simp add: x_def)
  have "\<bar>of_int n :: rat\<bar> < 2 ^ p"
    using assms by (metis of_int_abs of_int_less_iff of_int_numeral of_int_power)
  then have "\<bar>x\<bar> < 2 ^ p / 2 ^ k" by (simp add: x_def divide_strict_right_mono)
  then have "\<bar>x\<bar> < pow2 (int p + - int k)" by (simp only: pow2_add pow2_nat pow2_neg) simp
  then have "ilog2 \<bar>x\<bar> < int p - int k"
    using ilog2_le [OF x] pow2_mono [of "int p + - int k" "ilog2 \<bar>x\<bar>"] by linarith
  then obtain j where j: "- (ilog2 \<bar>x\<bar> - (int p - 1)) = int k + int j"
    by (intro that [of "nat (int p - 1 - ilog2 \<bar>x\<bar> - int k)"]) simp
  define u where "u = pow2 (ilog2 \<bar>x\<bar> - (int p - 1))"
  have "ilog2 \<bar>x\<bar> - (int p - 1) = - int (k + j)" using j by simp
  then have "u = 1 / 2 ^ (k + j)" by (simp only: u_def pow2_neg)
  then have "x / u = of_int (n * 2 ^ j)" "of_int (n * 2 ^ j) * u = x" by (simp_all add: x_def power_add)
  then show ?thesis using False x unfolding x_def [symmetric]
    by (simp only: fl_def Let_def u_def [symmetric] round_even_int) simp
qed (simp add: fl_def)

lemma fl_bounds:
  assumes "0 \<le> x" shows "x - x / 2 ^ p \<le> fl p x" "fl p x \<le> x + x / 2 ^ p"
  using fl_error [of p x] assms by (simp_all add: abs_le_iff)

text \<open>Truncation of a value close to a given one.\<close>

lemma trunc_near:
  assumes "0 \<le> y" "x - d \<le> y" "y \<le> x + d"
  shows "x - d - 1 < of_int (trunc y)" "of_int (trunc y) \<le> x + d"
  using assms by (simp_all add: trunc_nonneg) linarith+

end
