(* ===== verification/Ntp_Client.thy ===== *)
theory Ntp_Client
  imports Daylight Float_Round
begin

text \<open>
  The NTP client (\<^verbatim>\<open>NTP/fntp.c\<close>, \<^verbatim>\<open>NTP/ntpdate.c\<close>): time stamps and their conversion in double
  arithmetic, the query and its reply, the computation of the clock offset, setting the clock and the
  real-time clock, and the daily loop.  Readings of the clock, answers of \<^verbatim>\<open>select\<close>, received datagrams
  and the stored configuration are arguments.
\<close>

section \<open>Time values and time stamps\<close>

definition carry :: "int \<Rightarrow> int \<Rightarrow> timeval" where
  "carry sec usec =
     (let (sec, usec) = (if usec > 1000000 then (sec + 1, usec - 1000000) else (sec, usec));
          (sec, usec) = (if usec < 0 then (sec - 1, usec + 1000000) else (sec, usec))
      in \<lparr>tv_sec = sec, tv_usec = usec\<rparr>)"

definition tv_add :: "timeval \<Rightarrow> timeval \<Rightarrow> timeval" where
  "tv_add x1 x2 = carry (tv_sec x1 + tv_sec x2) (tv_usec x1 + tv_usec x2)"

definition tv_sub :: "timeval \<Rightarrow> timeval \<Rightarrow> timeval" where
  "tv_sub x1 x2 = carry (tv_sec x1 - tv_sec x2) (tv_usec x1 - tv_usec x2)"

definition endian_fix :: "u32 \<Rightarrow> u32" where
  "endian_fix data =
     push_bit 24 (data AND 0x000000FF) + push_bit 8 (data AND 0x0000FF00)
     + drop_bit 8 (data AND 0x00FF0000) + drop_bit 24 (data AND 0xFF000000)"

text \<open>The constants of \<^verbatim>\<open>fntp.h\<close>; the literal is converted to \<^verbatim>\<open>double\<close>.\<close>

definition NTP_OFFSET :: rat where
  "NTP_OFFSET = fl 53 (232830643654 / 1000000000000000)"

definition EPOCH_OFFSET :: u32 where
  "EPOCH_OFFSET = 0x83AA7E80"

definition ntp2timeval :: "byte list \<Rightarrow> timeval" where
  "ntp2timeval ntp =
     (let sec = endian_fix (of_le32 (read_at 0 4 ntp));
          usec = endian_fix (of_le32 (read_at 4 4 ntp));
          usec = of_int (trunc (fl 53 (of_nat (unat usec) * NTP_OFFSET))) :: u32;
          sec = sec - EPOCH_OFFSET
      in \<lparr>tv_sec = sint sec, tv_usec = int (unat usec)\<rparr>)"

definition timeval2ntp :: "timeval \<Rightarrow> byte list" where
  "timeval2ntp tv =
     (let sec = of_int (tv_sec tv) + EPOCH_OFFSET;
          usec = of_int (trunc (fl 53 (of_int (tv_usec tv) / NTP_OFFSET))) :: u32
      in le32 (endian_fix sec) @ le32 (endian_fix usec))"

section \<open>Query and reply\<close>

definition SNTP_PACKET_SIZE :: nat where "SNTP_PACKET_SIZE = 48"
definition SNTP_RX_BUFFER :: nat where "SNTP_RX_BUFFER = 1024"
definition clientVers :: int where "clientVers = 3"
definition maxStratum :: int where "maxStratum = 15"
definition abortOnAlarm :: bool where "abortOnAlarm = False"
definition abortOnStratZero :: bool where "abortOnStratZero = False"

text \<open>The global variables of the client.\<close>

record ntp =
  tx_pkt :: "byte list"
  rx_pkt :: "byte list"
  t1 :: timeval
  t2 :: timeval
  t3 :: timeval
  t4 :: timeval
  t_orig :: timeval
  adjust_tz_time :: int
  tzone :: int

definition shift_sec :: "int \<Rightarrow> timeval \<Rightarrow> timeval" where
  "shift_sec d tv = tv\<lparr>tv_sec := tv_sec tv + d\<rparr>"

definition send_query :: "timeval \<Rightarrow> ntp \<Rightarrow> ntp" where
  "send_query clock st =
     (let status = of_int (clientVers * 8) OR 3;
          t1 = shift_sec (- adjust_tz_time st) clock;
          pkt = (replicate 48 0)[0 := status];
          pkt = write_at 24 (timeval2ntp t1) pkt;
          pkt = write_at 40 (timeval2ntp t1) pkt
      in st\<lparr>tx_pkt := pkt, t1 := t1\<rparr>)"

text \<open>The answers of \<^verbatim>\<open>select\<close>; a readable socket comes with the datagram, or with a failing \<^verbatim>\<open>recvfrom\<close>.\<close>

datatype sel = Sel_intr | Sel_error | Sel_timeout | Sel_ready "byte list option"

datatype response = TIMEOUT | GOOD_RESPONSE | BAD_PACKET | CONNECT_BAD

text \<open>Interrupted calls are repeated; \<^const>\<open>None\<close> when the answers run out.\<close>

fun await :: "sel list \<Rightarrow> sel option" where
  "await [] = None"
| "await (Sel_intr # ss) = await ss"
| "await (s # ss) = Some s"

definition get_response :: "sel list \<Rightarrow> timeval \<Rightarrow> ntp \<Rightarrow> (response \<times> ntp) option" where
  "get_response ss clock st =
     (case await ss of
        None \<Rightarrow> None
      | Some s \<Rightarrow>
          (let st = st\<lparr>t4 := shift_sec (- adjust_tz_time st) clock\<rparr>
           in case s of
                Sel_timeout \<Rightarrow> Some (TIMEOUT, st)
              | Sel_ready None \<Rightarrow> Some (BAD_PACKET, st)
              | Sel_ready (Some d) \<Rightarrow>
                  (let bytes = min (length d) SNTP_RX_BUFFER;
                       rx = write_at 0 (take bytes d) (rx_pkt st);
                       st = st\<lparr>rx_pkt := rx\<rparr>
                   in if bytes < 48 then Some (BAD_PACKET, st)
                      else let st = st\<lparr>t_orig := ntp2timeval (read_at 24 8 rx),
                                       t2 := ntp2timeval (read_at 32 8 rx),
                                       t3 := ntp2timeval (read_at 40 8 rx)\<rparr>;
                               stratum = int (unat (rx ! 1));
                               li = drop_bit 6 (rx ! 0 AND 0xC0)
                           in if li = 3 \<and> abortOnAlarm then Some (CONNECT_BAD, st)
                              else if stratum = 0 \<and> abortOnStratZero then Some (CONNECT_BAD, st)
                              else if stratum > maxStratum then Some (CONNECT_BAD, st)
                              else Some (GOOD_RESPONSE, st))
              | _ \<Rightarrow> Some (CONNECT_BAD, st)))"

section \<open>Configuration\<close>

definition NTP_PORT :: int where "NTP_PORT = 123"

text \<open>A \<^verbatim>\<open>PRO_GetInt\<close> that fails is \<^const>\<open>None\<close>.\<close>

definition get_ntp_port :: "int option \<Rightarrow> int" where
  "get_ntp_port conf =
     (let port = (case conf of None \<Rightarrow> NTP_PORT | Some p \<Rightarrow> p)
      in if port > 65535 \<or> port < 1024 \<and> port \<noteq> NTP_PORT then NTP_PORT else port)"

text \<open>The new zone index and offset; an index outside the table is \<^const>\<open>None\<close>.\<close>

definition get_timezone :: "int option \<Rightarrow> ntp \<Rightarrow> ntp option" where
  "get_timezone conf st =
     (case conf of
        None \<Rightarrow> Some (st\<lparr>adjust_tz_time := 0\<rparr>)
      | Some z \<Rightarrow> map_option (\<lambda>e. st\<lparr>tzone := z, adjust_tz_time := trunc (fl 24 (num e * 3600))\<rparr>)
                    (tz_entry z))"

definition get_daylightsaving :: "int option \<Rightarrow> int" where
  "get_daylightsaving conf = (case conf of None \<Rightarrow> 0 | Some d \<Rightarrow> d)"

section \<open>Setting the clock\<close>

definition ntp_convert :: "int \<Rightarrow> byte list" where
  "ntp_convert n = [of_int (cdiv n 10), of_int (crem n 10)]"

text \<open>The digits for the real-time clock, or the error exit.\<close>

definition SETRTCTIME :: "int \<Rightarrow> byte list option" where
  "SETRTCTIME now =
     (let now_tm = localtime now
      in if tm_year now_tm + 1900 < 2000 \<or> tm_year now_tm + 1900 \<ge> 2038 then None
         else Some ([2, 0, 0, 0] @ ntp_convert (tm_year now_tm) @ ntp_convert (tm_mon now_tm)
                @ ntp_convert (tm_mday now_tm) @ ntp_convert (tm_hour now_tm)
                @ ntp_convert (tm_min now_tm) @ ntp_convert (tm_sec now_tm)))"

text \<open>The offset: sums and differences of time values, then double arithmetic.\<close>

definition offset_x2 :: "ntp \<Rightarrow> timeval" where
  "offset_x2 st = tv_add (tv_sub (t2 st) (t1 st)) (tv_sub (t3 st) (t4 st))"

definition offset_double :: "timeval \<Rightarrow> rat" where
  "offset_double x2 =
     fl 53 (fl 53 (of_int (tv_sec x2) + fl 53 (of_int (tv_usec x2) / 1000000)) / 2)"

definition offset_timeval :: "rat \<Rightarrow> timeval" where
  "offset_timeval td =
     (let s = trunc td
      in \<lparr>tv_sec = s, tv_usec = trunc (fl 53 (1000000 * fl 53 (td - of_int s)))\<rparr>)"

text \<open>
  The new time for the clock: the server's time, or the corrected local time; one hour is added in the
  daylight-saving period.
\<close>

definition gross :: "ntp \<Rightarrow> bool" where
  "gross st = (let td = offset_double (offset_x2 st) in td > 10000 \<or> td < - 10000)"

definition new_time :: "int \<Rightarrow> timeval \<Rightarrow> ntp \<Rightarrow> timeval option" where
  "new_time dsav now st =
     (let td = offset_double (offset_x2 st);
          new = (if gross st then shift_sec (adjust_tz_time st) (t3 st)
                 else tv_add now (offset_timeval td))
      in if dsav = 0 then Some new
         else map_option (\<lambda>f. if f \<noteq> 0 then shift_sec 3600 new else new)
                (daylight_saving (tzone st) (tv_sec new)))"

text \<open>One attempt and what it meets; \<open>settime\<close> tells whether the clock can be set.\<close>

record attempt =
  clock1 :: timeval
  answers :: "sel list"
  clock4 :: timeval
  clock_now :: timeval
  settime :: "timeval \<Rightarrow> bool"
  elapsed :: int

text \<open>The doubled offset is computed in \<open>t2\<close>, the gross adjustment in \<open>t3\<close>.\<close>

definition after_set :: "timeval \<Rightarrow> ntp \<Rightarrow> ntp" where
  "after_set new st =
     (if gross st then st\<lparr>t2 := offset_x2 st, t3 := new\<rparr> else st\<lparr>t2 := offset_x2 st\<rparr>)"

record outcome =
  synced :: bool
  clock_set :: "timeval list"
  rtc_set :: "byte list list"
  log_codes :: "int list"

definition setting :: "attempt \<Rightarrow> timeval \<Rightarrow> outcome" where
  "setting a new =
     (if \<not> settime a new then \<lparr>synced = False, clock_set = [], rtc_set = [], log_codes = [3]\<rparr>
      else case SETRTCTIME (tv_sec new + elapsed a) of
             None \<Rightarrow> \<lparr>synced = False, clock_set = [new], rtc_set = [], log_codes = [3]\<rparr>
           | Some r \<Rightarrow> \<lparr>synced = True, clock_set = [new], rtc_set = [r], log_codes = [1]\<rparr>)"

text \<open>
  The loop over the attempts: \<open>prev\<close> is the response of the previous one.  \<^const>\<open>None\<close> stands for a call of
  \<^verbatim>\<open>select\<close> that does not return or a read outside the time-zone table.
\<close>

fun ntp_loop :: "int \<Rightarrow> attempt list \<Rightarrow> response \<Rightarrow> ntp \<Rightarrow> (outcome \<times> ntp) option" where
  "ntp_loop dsav [] prev st =
     Some (\<lparr>synced = False, clock_set = [], rtc_set = [],
            log_codes = [if prev = CONNECT_BAD \<or> prev = TIMEOUT then 2 else 3]\<rparr>, st)"
| "ntp_loop dsav (a # as) prev st =
     (case get_response (answers a) (clock4 a) (send_query (clock1 a) st) of
        None \<Rightarrow> None
      | Some (result, st) \<Rightarrow>
          (if result \<noteq> GOOD_RESPONSE then ntp_loop dsav as result st
           else if read_at 24 8 (rx_pkt st) \<noteq> read_at 24 8 (tx_pkt st)
           then ntp_loop dsav as result st
           else map_option (\<lambda>new. (setting a new, after_set new st)) (new_time dsav (clock_now a) st)))"

record ntp_conf =
  conf_zone :: "int option"
  conf_dsav :: "int option"
  conf_port :: "int option"

text \<open>
  \<^verbatim>\<open>NTP_update\<close> with three attempts (\<^verbatim>\<open>_ONEDAY_\<close> is defined); \<open>host\<close> and \<open>sock\<close> tell whether the name
  is resolved and the socket created.
\<close>

definition NTP_update :: "ntp_conf \<Rightarrow> bool \<Rightarrow> bool \<Rightarrow> attempt \<times> attempt \<times> attempt \<Rightarrow> ntp \<Rightarrow> (outcome \<times> ntp) option" where
  "NTP_update conf host sock as st =
     (case get_timezone (conf_zone conf) st of
        None \<Rightarrow> None
      | Some st \<Rightarrow>
          (let dsav = get_daylightsaving (conf_dsav conf)
           in if \<not> host then Some (\<lparr>synced = False, clock_set = [], rtc_set = [], log_codes = [4]\<rparr>, st)
              else if \<not> sock then Some (\<lparr>synced = False, clock_set = [], rtc_set = [], log_codes = [2]\<rparr>, st)
              else case as of (a1, a2, a3) \<Rightarrow> ntp_loop dsav [a1, a2, a3] GOOD_RESPONSE st))"

section \<open>The daily loop\<close>

definition CheckTime :: nat where "CheckTime = 86400"

text \<open>One turn of the loop: whether the time is fetched, and the counter for the next turn.\<close>

definition ntpdate_turn :: "nat \<Rightarrow> bool \<times> nat" where
  "ntpdate_turn i = (if i = CheckTime \<or> i = 0 then (True, 1) else (False, i + 1))"

primrec ntpdate_counter :: "nat \<Rightarrow> nat" where
  "ntpdate_counter 0 = 0"
| "ntpdate_counter (Suc n) = snd (ntpdate_turn (ntpdate_counter n))"

definition SRV_LEN :: nat where "SRV_LEN = 64"

text \<open>The server: as the configuration delivers it, or the argument; a long argument overruns the buffer.\<close>

datatype server_choice = Usage_exit | Overrun | Server string

definition ntpdate_server :: "string list \<Rightarrow> string \<Rightarrow> server_choice" where
  "ntpdate_server argv conf =
     (if length argv = 1 then Server conf
      else if length argv = 2 then (if length (argv ! 1) < SRV_LEN then Server (argv ! 1) else Overrun)
      else Usage_exit)"

section \<open>Byte order\<close>

lemma and_shifted_mask: "(w :: u32) AND push_bit k (mask m) = push_bit k (take_bit m (drop_bit k w))"
  by (rule bit_word_eqI) (auto simp: bit_simps)

lemma endian_fix_nat:
  "endian_fix w = of_nat (unat w mod 256 * 16777216 + unat w div 256 mod 256 * 65536
     + unat w div 65536 mod 256 * 256 + unat w div 16777216 mod 256)"
proof -
  let ?b = "\<lambda>k. take_bit 8 (drop_bit k w)"
  have m: "(0xFF :: u32) = push_bit 0 (mask 8)" "(0xFF00 :: u32) = push_bit 8 (mask 8)"
    "(0xFF0000 :: u32) = push_bit 16 (mask 8)" "(0xFF000000 :: u32) = push_bit 24 (mask 8)"
    by (simp_all add: mask_eq_exp_minus_1)
  have d: "drop_bit 8 (push_bit 16 (?b 16)) = push_bit 8 (?b 16)"
    "drop_bit 24 (push_bit 24 (?b 24)) = ?b 24"
    by (rule bit_word_eqI; auto simp: bit_simps)+
  have u: "unat (?b k) = unat w div 2 ^ k mod 256" for k
    unfolding unsigned_take_bit_eq unsigned_drop_bit_eq
    unfolding take_bit_eq_mod drop_bit_eq_div using unat_u32_less [of w] by simp
  have b: "?b k = of_nat (unat w div 2 ^ k mod 256)" for k
    by (rule word_unat_eq_iff [THEN iffD2], unfold u) (simp add: unat_of_nat)
  show ?thesis
    unfolding endian_fix_def m and_shifted_mask d push_bit_push_bit
    unfolding b push_bit_eq_mult by simp
qed

lemma load_swapped:
  assumes "length bs = 4"
  shows "endian_fix (of_le32 bs) = of_be32 bs"
proof -
  obtain a b c d where bs: "bs = [a, b, c, d]"
    using assms by (auto simp: numeral_eq_Suc length_Suc_conv)
  define A B C D where "A = unat a" and "B = unat b" and "C = unat c" and "D = unat d"
  have l: "A < 256" "B < 256" "C < 256" "D < 256"
    unfolding A_def B_def C_def D_def by (rule unat_byte_less)+
  define n where "n = A + 256 * (B + 256 * (C + 256 * D))"
  have v: "le_val bs = n" by (simp add: bs n_def A_def B_def C_def D_def)
  have "n < 2 ^ 32" using le_val_less [of bs] assms v by simp
  then have u: "unat (of_nat n :: u32) = n" by (simp add: unat_of_nat)
  have e: "(x + 256 * y) mod 256 = x" "(x + 256 * y) div 256 = y" if "x < 256" for x y :: nat
    using that by auto
  have "n div 65536 = n div 256 div 256" "n div 16777216 = n div 256 div 256 div 256"
    by (simp_all flip: div_mult2_eq)
  then have d: "n mod 256 = A" "n div 256 mod 256 = B" "n div 65536 mod 256 = C"
    "n div 16777216 mod 256 = D"
    unfolding n_def using l by (simp_all only: e) simp
  show ?thesis
    unfolding v endian_fix_nat u d
    by (simp add: be_val_def bs A_def B_def C_def D_def algebra_simps)
qed

lemma store_swapped: "le32 (endian_fix w) = be32 w"
proof -
  have "endian_fix (of_le32 (rev (be32 w))) = of_be32 (rev (be32 w))"
    by (rule load_swapped) simp
  moreover have "of_le32 (rev (be32 w)) = w"
    using unat_u32_less [of w] by (simp add: be_bytes_def le_val_le_bytes)
  moreover have "unat (of_be32 (rev (be32 w)) :: u32) = le_val (be32 w)"
    using le_val_less [of "be32 w"] by (simp add: be_val_def unat_of_nat)
  ultimately show ?thesis using le_bytes_le_val [of "be32 w" 4] by simp
qed

lemma endian_fix_endian_fix: "endian_fix (endian_fix w) = w"
proof -
  have "endian_fix (of_le32 (le32 (endian_fix w))) = of_be32 (be32 w)"
    unfolding store_swapped by (rule load_swapped) simp
  moreover have "of_le32 (le32 x) = x" "of_be32 (be32 x) = x" for x :: u32
    using unat_u32_less [of x] by (simp_all add: le_val_le_bytes be_val_be_bytes)
  ultimately show ?thesis by simp
qed

section \<open>Time stamps\<close>

lemma NTP_OFFSET_bounds:
  "2328306436539 / 10000000000000000 \<le> NTP_OFFSET" "NTP_OFFSET \<le> 2328306436541 / 10000000000000000"
proof -
  define c :: rat where "c = 232830643654 / 1000000000000000"
  have "c - c / 2 ^ 53 \<le> NTP_OFFSET" "NTP_OFFSET \<le> c + c / 2 ^ 53"
    unfolding NTP_OFFSET_def c_def by (rule fl_bounds, simp)+
  then show "2328306436539 / 10000000000000000 \<le> NTP_OFFSET"
    "NTP_OFFSET \<le> 2328306436541 / 10000000000000000"
    by (simp_all add: c_def)
qed

lemma NTP_OFFSET_pos: "0 < NTP_OFFSET"
  using NTP_OFFSET_bounds(1) by linarith

text \<open>Microseconds of a fraction, and the fraction of microseconds.\<close>

definition usec_of :: "nat \<Rightarrow> int" where
  "usec_of f = trunc (fl 53 (of_nat f * NTP_OFFSET))"

definition frac_of :: "int \<Rightarrow> int" where
  "frac_of u = trunc (fl 53 (of_int u / NTP_OFFSET))"

lemma fl_nonneg: "0 \<le> x \<Longrightarrow> 0 \<le> fl 53 x"
proof -
  assume "0 \<le> x"
  then have "x / 2 ^ 53 \<le> x" by (simp add: divide_le_eq mult_le_cancel_left1)
  with fl_bounds(1) [OF \<open>0 \<le> x\<close>, of 53] show ?thesis by linarith
qed

lemma usec_of_range: assumes "f < 4294967296" shows "0 \<le> usec_of f" "usec_of f < 1000000"
proof -
  define x where "x = of_nat f * NTP_OFFSET"
  have x0: "0 \<le> x" using NTP_OFFSET_pos by (simp add: x_def)
  have "f \<le> 4294967295" using assms by simp
  then have "(of_nat f :: rat) \<le> of_nat 4294967295" by (simp only: of_nat_le_iff)
  then have "(of_nat f :: rat) \<le> 4294967295" by simp
  then have "x \<le> 4294967295 * (2328306436541 / 10000000000000000)"
    unfolding x_def using NTP_OFFSET_bounds(2) NTP_OFFSET_pos by (intro mult_mono) simp_all
  moreover have "fl 53 x \<le> x + x / 2 ^ 53" by (rule fl_bounds(2) [OF x0])
  ultimately have "fl 53 x < 1000000" by simp
  with fl_nonneg [OF x0] show "0 \<le> usec_of f" "usec_of f < 1000000"
    unfolding usec_of_def x_def [symmetric] by (simp_all add: trunc_nonneg floor_less_iff)
qed

lemma frac_of_bounds:
  assumes "0 \<le> u" "u < 1000000"
  shows "0 \<le> frac_of u" "frac_of u < 4294967296"
    and "of_int (frac_of u) * NTP_OFFSET \<le> of_int u + of_int u / 2 ^ 53"
    and "of_int u - of_int u / 2 ^ 53 - NTP_OFFSET \<le> of_int (frac_of u) * NTP_OFFSET"
proof -
  define y q where "y = of_int u / NTP_OFFSET" and "q = fl 53 y"
  have y0: "0 \<le> y" using assms(1) NTP_OFFSET_pos by (simp add: y_def)
  have yu: "y * NTP_OFFSET = of_int u" using NTP_OFFSET_pos by (simp add: y_def)
  have q: "y - y / 2 ^ 53 \<le> q" "q \<le> y + y / 2 ^ 53" using fl_bounds [OF y0, of 53] by (simp_all add: q_def)
  have f: "frac_of u = \<lfloor>q\<rfloor>" using fl_nonneg [OF y0] by (simp add: frac_of_def q_def y_def trunc_nonneg)
  then show "0 \<le> frac_of u" using fl_nonneg [OF y0] by (simp add: q_def)
  have "of_int u \<le> (999999 :: rat)" using assms(2) by simp
  then have "y \<le> 999999 / (2328306436539 / 10000000000000000)"
    unfolding y_def using NTP_OFFSET_bounds(1) assms(1) by (intro frac_le) simp_all
  with q(2) have "q < 4294967296" by simp
  then show "frac_of u < 4294967296" by (simp add: f floor_less_iff)
  have fq: "of_int (frac_of u) \<le> q" "q - 1 \<le> of_int (frac_of u)" unfolding f by linarith+
  have "of_int (frac_of u) * NTP_OFFSET \<le> (y + y / 2 ^ 53) * NTP_OFFSET"
    using fq(1) q(2) NTP_OFFSET_pos by (intro mult_right_mono) linarith+
  then show "of_int (frac_of u) * NTP_OFFSET \<le> of_int u + of_int u / 2 ^ 53"
    unfolding yu [symmetric] by (simp add: algebra_simps)
  have "(y - y / 2 ^ 53 - 1) * NTP_OFFSET \<le> of_int (frac_of u) * NTP_OFFSET"
    using fq(2) q(1) NTP_OFFSET_pos by (intro mult_right_mono) linarith+
  then show "of_int u - of_int u / 2 ^ 53 - NTP_OFFSET \<le> of_int (frac_of u) * NTP_OFFSET"
    unfolding yu [symmetric] by (simp add: algebra_simps)
qed

lemma usec_of_frac_of:
  assumes "0 \<le> u" "u < 1000000"
  shows "usec_of (nat (frac_of u)) = u \<or> usec_of (nat (frac_of u)) = u - 1"
proof -
  define x where "x = of_nat (nat (frac_of u)) * NTP_OFFSET"
  note b = frac_of_bounds [OF assms]
  have xf: "x = of_int (frac_of u) * NTP_OFFSET" using b(1) by (simp add: x_def)
  have x0: "0 \<le> x" using NTP_OFFSET_pos by (simp add: x_def)
  have u: "(0 :: rat) \<le> of_int u" "of_int u \<le> (999999 :: rat)" using assms by simp_all
  have "fl 53 x \<le> x + x / 2 ^ 53" "x - x / 2 ^ 53 \<le> fl 53 x"
    using fl_bounds [OF x0, of 53] by simp_all
  with b(3,4) u NTP_OFFSET_bounds(2) have "fl 53 x < of_int u + 1" "of_int u - 1 < fl 53 x"
    unfolding xf [symmetric] by (simp_all add: field_simps)
  then have "\<lfloor>fl 53 x\<rfloor> \<le> u" "u - 1 \<le> \<lfloor>fl 53 x\<rfloor>" by linarith+
  moreover have "usec_of (nat (frac_of u)) = \<lfloor>fl 53 x\<rfloor>"
    using fl_nonneg [OF x0] by (simp add: usec_of_def x_def trunc_nonneg)
  ultimately show ?thesis by linarith
qed

lemma unat_of_int_u32: "0 \<le> n \<Longrightarrow> n < 4294967296 \<Longrightarrow> unat (of_int n :: u32) = nat n"
  by (simp add: unsigned_of_int take_bit_eq_mod)

lemma ntp2timeval_eq:
  assumes "length bs = 8"
  shows "ntp2timeval bs = \<lparr>tv_sec = sint (of_be32 (take 4 bs) - EPOCH_OFFSET),
    tv_usec = usec_of (be_val (drop 4 bs))\<rparr>"
proof -
  have l: "be_val (drop 4 bs) < 4294967296" using be_val_less [of "drop 4 bs"] assms by simp
  have "read_at 0 4 bs = take 4 bs" "read_at 4 4 bs = drop 4 bs"
    using assms by (simp_all add: read_at_def)
  moreover have u: "unat (of_be32 (drop 4 bs) :: u32) = be_val (drop 4 bs)"
    using l by (simp add: unat_of_nat)
  moreover have "int (unat (of_int (usec_of (be_val (drop 4 bs))) :: u32)) = usec_of (be_val (drop 4 bs))"
    using usec_of_range [OF l] by (subst unat_of_int_u32) simp_all
  moreover have "endian_fix (of_le32 (take 4 bs)) = of_be32 (take 4 bs)"
    "endian_fix (of_le32 (drop 4 bs)) = of_be32 (drop 4 bs)"
    using assms by (simp_all add: load_swapped)
  ultimately show ?thesis unfolding ntp2timeval_def Let_def by (simp only: usec_of_def)
qed

lemma timeval2ntp_eq:
  assumes "0 \<le> tv_usec tv" "tv_usec tv < 1000000"
  shows "timeval2ntp tv = be32 (of_int (tv_sec tv) + EPOCH_OFFSET) @ be_bytes 4 (nat (frac_of (tv_usec tv)))"
  using frac_of_bounds [OF assms]
  by (simp add: timeval2ntp_def Let_def store_swapped unat_of_int_u32 flip: frac_of_def)

lemma length_timeval2ntp [simp]: "length (timeval2ntp tv) = 8"
  by (simp add: timeval2ntp_def Let_def)

section \<open>Arithmetic of time values\<close>
















section \<open>The daily loop\<close>

lemma ntpdate_counter_eq:
  "ntpdate_counter n = (if n = 0 then 0 else (n - 1) mod CheckTime + 1)"
proof (induction n)
  case (Suc n)
  show ?case
  proof (cases "n = 0")
    case False
    then obtain m where m: "n = Suc m" by (cases n) auto
    have "Suc m mod CheckTime = (if Suc (m mod CheckTime) = CheckTime then 0 else Suc (m mod CheckTime))"
      by (rule mod_Suc)
    then show ?thesis using Suc m by (simp add: ntpdate_turn_def)
  qed (simp add: ntpdate_turn_def CheckTime_def)
qed simp

section \<open>Reply handling\<close>

lemma await_in: "await ss = Some s \<Longrightarrow> s \<in> set ss"
  by (induction ss rule: await.induct) auto

lemma get_response_length:
  assumes "get_response ss clock st = Some (r, st')" "length (rx_pkt st) = SNTP_RX_BUFFER"
  shows "length (rx_pkt st') = SNTP_RX_BUFFER"
  using assms
  by (auto simp: get_response_def Let_def split: option.splits sel.splits if_splits)

lemma get_response_keeps:
  assumes "get_response ss clock st = Some (r, st')"
  shows "tzone st' = tzone st" "adjust_tz_time st' = adjust_tz_time st"
  using assms
  by (auto simp: get_response_def Let_def split: option.splits sel.splits if_splits)

lemma query_stamp:
  "read_at 24 8 (tx_pkt (send_query clock st)) = timeval2ntp (shift_sec (- adjust_tz_time st) clock)"
  by (simp add: send_query_def Let_def read_at_write_other read_at_write_at)

lemma get_response_ready:
  fixes st :: ntp and clock :: timeval
  assumes "await ss = Some (Sel_ready (Some d))"
  defines "n \<equiv> min (length d) SNTP_RX_BUFFER"
    and "rx \<equiv> write_at 0 (take (min (length d) SNTP_RX_BUFFER) d) (rx_pkt st)"
    and "s1 \<equiv> st\<lparr>t4 := shift_sec (- adjust_tz_time st) clock\<rparr>"
  defines "s2 \<equiv> s1\<lparr>rx_pkt := rx, t_orig := ntp2timeval (read_at 24 8 rx),
      t2 := ntp2timeval (read_at 32 8 rx), t3 := ntp2timeval (read_at 40 8 rx)\<rparr>"
  shows "get_response ss clock st =
    Some (if n < 48 then (BAD_PACKET, s1\<lparr>rx_pkt := rx\<rparr>)
          else if int (unat (rx ! 1)) > 15 then (CONNECT_BAD, s2) else (GOOD_RESPONSE, s2))"
proof -
  have "rx_pkt s1 = rx_pkt st" by (simp add: s1_def)
  then have rx: "write_at 0 (take n d) (rx_pkt s1) = rx" by (simp add: rx_def n_def)
  show ?thesis
    unfolding get_response_def assms(1) Let_def option.case sel.case s1_def [symmetric]
      n_def [symmetric] rx
    by (simp only: maxStratum_def abortOnAlarm_def abortOnStratZero_def s2_def
        simp_thms if_False if_distrib [of Some])
qed

lemma get_response_good:
  assumes "get_response ss clock st = Some (GOOD_RESPONSE, st')" "length (rx_pkt st) = SNTP_RX_BUFFER"
  obtains d where "Sel_ready (Some d) \<in> set ss" "48 \<le> length d" "take 48 (rx_pkt st') = take 48 d"
    "unat (rx_pkt st' ! 1) \<le> 15" "tx_pkt st' = tx_pkt st" "length (rx_pkt st') = SNTP_RX_BUFFER"
    "t1 st' = t1 st" "adjust_tz_time st' = adjust_tz_time st" "tzone st' = tzone st"
    "t2 st' = ntp2timeval (read_at 32 8 d)" "t3 st' = ntp2timeval (read_at 40 8 d)"
    "t4 st' = shift_sec (- adjust_tz_time st) clock"
proof -
  obtain s where s: "await ss = Some s" using assms(1) by (cases "await ss") (auto simp: get_response_def)
  obtain d where d: "s = Sel_ready (Some d)"
    using assms(1) s by (auto simp: get_response_def Let_def split: sel.splits option.splits)
  define n where "n = min (length d) SNTP_RX_BUFFER"
  define rx where "rx = write_at 0 (take n d) (rx_pkt st)"
  have n: "48 \<le> n" and g1: "uint (rx ! 1) \<le> 15"
    and st': "st' = st\<lparr>t4 := shift_sec (- adjust_tz_time st) clock, rx_pkt := rx,
      t_orig := ntp2timeval (read_at 24 8 rx), t2 := ntp2timeval (read_at 32 8 rx),
      t3 := ntp2timeval (read_at 40 8 rx)\<rparr>"
    using assms(1) unfolding get_response_ready [OF s [unfolded d]] n_def [symmetric] rx_def [symmetric]
    by (simp_all split: if_splits)
  have g: "unat (rx ! 1) \<le> 15" using g1 unfolding unat_eq_nat_uint by linarith
  have l: "length rx = SNTP_RX_BUFFER" using assms(2) by (simp add: rx_def n_def)
  have t: "take 48 rx = take 48 d"
    using n by (simp add: rx_def write_at_def n_def take_drop)
  have r: "read_at k 8 rx = read_at k 8 d" if "k + 8 \<le> 48" for k
  proof -
    have "read_at k 8 rx = take 8 (drop k (take 48 rx))"
      using that by (simp add: read_at_def drop_take min_def)
    also have "\<dots> = read_at k 8 d"
      unfolding t using that by (simp add: read_at_def drop_take min_def)
    finally show ?thesis .
  qed
  show ?thesis
    by (rule that [of d])
      (use s d n g l t in \<open>auto simp: st' r n_def dest: await_in\<close>)
qed

text \<open>The attempt whose answer an update accepts.\<close>

definition accepted :: "int \<Rightarrow> attempt \<Rightarrow> byte list \<Rightarrow> timeval \<Rightarrow> ntp \<Rightarrow> ntp \<Rightarrow> bool" where
  "accepted dsav a d new s s1 \<longleftrightarrow>
     Sel_ready (Some d) \<in> set (answers a) \<and> 48 \<le> length d \<and> unat (d ! 1) \<le> 15
     \<and> read_at 24 8 d = timeval2ntp (t1 s1)
     \<and> t1 s1 = shift_sec (- adjust_tz_time s) (clock1 a) \<and> t4 s1 = shift_sec (- adjust_tz_time s) (clock4 a)
     \<and> t2 s1 = ntp2timeval (read_at 32 8 d) \<and> t3 s1 = ntp2timeval (read_at 40 8 d)
     \<and> tzone s1 = tzone s \<and> adjust_tz_time s1 = adjust_tz_time s
     \<and> new_time dsav (clock_now a) s1 = Some new"

lemma send_query_keeps:
  "rx_pkt (send_query clock s) = rx_pkt s" "adjust_tz_time (send_query clock s) = adjust_tz_time s"
  "tzone (send_query clock s) = tzone s" "t1 (send_query clock s) = shift_sec (- adjust_tz_time s) clock"
  by (simp_all add: send_query_def Let_def)

lemma ntp_loop_accepts:
  assumes "ntp_loop dsav as prev s = Some (out, st')" "clock_set out \<noteq> []"
    and "length (rx_pkt s) = SNTP_RX_BUFFER"
  shows "\<exists>a \<in> set as. \<exists>d new s1. accepted dsav a d new s s1 \<and> st' = after_set new s1 \<and> out = setting a new"
  using assms
proof (induction as arbitrary: prev s)
  case (Cons a as)
  let ?q = "send_query (clock1 a) s"
  obtain r s1 where r: "get_response (answers a) (clock4 a) ?q = Some (r, s1)"
    using Cons.prems(1) by (cases "get_response (answers a) (clock4 a) ?q") auto
  have q: "length (rx_pkt ?q) = SNTP_RX_BUFFER" using Cons.prems(3) by (simp add: send_query_keeps)
  have l1: "length (rx_pkt s1) = SNTP_RX_BUFFER" using get_response_length [OF r q] .
  have k: "tzone s1 = tzone s" "adjust_tz_time s1 = adjust_tz_time s"
    using get_response_keeps [OF r] by (simp_all add: send_query_keeps)
  show ?case
  proof (cases "r = GOOD_RESPONSE \<and> read_at 24 8 (rx_pkt s1) = read_at 24 8 (tx_pkt s1)")
    case False
    then have "ntp_loop dsav as r s1 = Some (out, st')"
      using Cons.prems(1) r by (auto split: if_splits)
    then show ?thesis
      using Cons.IH [of r s1] l1 Cons.prems(2) k by (auto simp: accepted_def)
  next
    case True
    then have g: "get_response (answers a) (clock4 a) ?q = Some (GOOD_RESPONSE, s1)" using r by simp
    obtain d where d: "Sel_ready (Some d) \<in> set (answers a)" "48 \<le> length d"
      "take 48 (rx_pkt s1) = take 48 d" "unat (rx_pkt s1 ! 1) \<le> 15" "tx_pkt s1 = tx_pkt ?q"
      "t1 s1 = t1 ?q" "t2 s1 = ntp2timeval (read_at 32 8 d)" "t3 s1 = ntp2timeval (read_at 40 8 d)"
      "t4 s1 = shift_sec (- adjust_tz_time ?q) (clock4 a)"
      by (rule get_response_good [OF g q])
    obtain new where new: "new_time dsav (clock_now a) s1 = Some new" "out = setting a new"
      "st' = after_set new s1"
      using True Cons.prems(1) r by auto
    have "read_at 24 8 d = read_at 24 8 (rx_pkt s1)"
      using arg_cong [OF d(3), of "read_at 24 8"] by (simp add: read_at_def drop_take)
    moreover have "d ! 1 = rx_pkt s1 ! 1"
      using arg_cong [OF d(3), of "\<lambda>x. x ! 1"] by simp
    moreover have "read_at 24 8 (rx_pkt s1) = timeval2ntp (t1 ?q)"
      using True query_stamp [of "clock1 a" s] d(5) by (simp add: send_query_keeps)
    ultimately have "accepted dsav a d new s s1"
      using d k new(1) by (simp add: accepted_def send_query_keeps)
    then show ?thesis using new by auto
  qed
qed auto

lemma NTP_update_loop:
  assumes "NTP_update conf host sock (a1, a2, a3) st = Some (out, st')" "clock_set out \<noteq> []"
  obtains s where "get_timezone (conf_zone conf) st = Some s" "rx_pkt s = rx_pkt st"
    "ntp_loop (get_daylightsaving (conf_dsav conf)) [a1, a2, a3] GOOD_RESPONSE s = Some (out, st')"
proof (cases "get_timezone (conf_zone conf) st")
  case (Some s)
  have "rx_pkt s = rx_pkt st"
    using Some by (auto simp: get_timezone_def split: option.splits)
  moreover have "ntp_loop (get_daylightsaving (conf_dsav conf)) [a1, a2, a3] GOOD_RESPONSE s = Some (out, st')"
    using assms unfolding NTP_update_def Some Let_def option.case prod.case
    by (cases host; cases sock) (auto simp del: ntp_loop.simps)
  ultimately show ?thesis using that Some by blast
qed (use assms in \<open>simp add: NTP_update_def\<close>)

lemma sint_of_int_u32: "- 2147483648 \<le> s \<Longrightarrow> s < 2147483648 \<Longrightarrow> sint (of_int s :: u32) = s"
  by (simp add: sint_sbintrunc' signed_take_bit_int_eq_self)


lemma send_query_packet:
  "length (tx_pkt (send_query clock st)) = 48
   \<and> tx_pkt (send_query clock st) ! 0 = 27
   \<and> read_at 24 8 (tx_pkt (send_query clock st)) = timeval2ntp (t1 (send_query clock st))
   \<and> read_at 40 8 (tx_pkt (send_query clock st)) = timeval2ntp (t1 (send_query clock st))
   \<and> read_at 1 23 (tx_pkt (send_query clock st)) = replicate 23 0
   \<and> tv_sec (t1 (send_query clock st)) = tv_sec clock - adjust_tz_time st"
proof -
  define p where "p = (replicate 48 (0 :: byte))[0 := 27]"
  define ts where "ts = timeval2ntp (shift_sec (- adjust_tz_time st) clock)"
  have "(of_int (clientVers * 8) OR 3 :: byte) = 27" by (simp add: clientVers_def)
  then have tx: "tx_pkt (send_query clock st) = write_at 40 ts (write_at 24 ts p)"
    by (simp add: send_query_def Let_def p_def ts_def)
  have l: "length p = 48" "length ts = 8" by (simp_all add: p_def ts_def)
  have "read_at 1 23 p = replicate 23 0" by (simp add: p_def read_at_def numeral_eq_Suc)
  then have "read_at 1 23 (write_at 40 ts (write_at 24 ts p)) = replicate 23 0"
    using l by (simp add: read_at_write_other)
  moreover have "write_at 40 ts (write_at 24 ts p) ! 0 = 27"
    using l by (simp add: nth_write_at) (simp add: p_def)
  moreover have "read_at 24 8 (write_at 40 ts (write_at 24 ts p)) = ts"
    "read_at 40 8 (write_at 40 ts (write_at 24 ts p)) = ts"
    using l by (simp_all add: read_at_write_other read_at_write_at)
  moreover have "t1 (send_query clock st) = shift_sec (- adjust_tz_time st) clock"
    by (simp add: send_query_def Let_def)
  ultimately show ?thesis using l by (simp add: tx ts_def shift_sec_def)
qed


section \<open>A sample exchange\<close>

definition sample_attempt :: attempt where
  "sample_attempt =
     \<lparr>clock1 = \<lparr>tv_sec = 1183000000, tv_usec = 250000\<rparr>,
      answers = [Sel_intr, Sel_ready (Some ([28, 2] @ replicate 22 0
        @ timeval2ntp \<lparr>tv_sec = 1183000000, tv_usec = 250000\<rparr>
        @ timeval2ntp \<lparr>tv_sec = 1183000001, tv_usec = 0\<rparr>
        @ timeval2ntp \<lparr>tv_sec = 1183000001, tv_usec = 0\<rparr>))],
      clock4 = \<lparr>tv_sec = 1183000000, tv_usec = 750000\<rparr>,
      clock_now = \<lparr>tv_sec = 1183000000, tv_usec = 750000\<rparr>,
      settime = (\<lambda>_. True), elapsed = 0\<rparr>"

definition sample_ntp :: ntp where
  "sample_ntp = (let z = \<lparr>tv_sec = 0, tv_usec = 0\<rparr>
     in \<lparr>tx_pkt = replicate 48 0, rx_pkt = replicate SNTP_RX_BUFFER 0, t1 = z, t2 = z, t3 = z, t4 = z,
         t_orig = z, adjust_tz_time = 0, tzone = 0\<rparr>)"

definition sample_update :: "(outcome \<times> ntp) option" where
  "sample_update = NTP_update \<lparr>conf_zone = None, conf_dsav = None, conf_port = None\<rparr> True True
     (sample_attempt, sample_attempt, sample_attempt) sample_ntp"

lemma sample_accepts: "\<exists>out st' new. sample_update = Some (out, st') \<and> clock_set out = [new]"
proof -
  define q where "q = send_query (clock1 sample_attempt) sample_ntp"
  define ts where "ts = timeval2ntp \<lparr>tv_sec = 1183000000, tv_usec = 250000\<rparr>"
  define d where "d = [28, 2] @ replicate 22 0 @ ts
        @ timeval2ntp \<lparr>tv_sec = 1183000001, tv_usec = 0\<rparr> @ timeval2ntp \<lparr>tv_sec = 1183000001, tv_usec = 0\<rparr>"
  have d: "await (answers sample_attempt) = Some (Sel_ready (Some d))" "length d = 48" "length ts = 8"
    by (simp_all add: sample_attempt_def d_def ts_def)
  then have w: "min (length d) SNTP_RX_BUFFER = 48" "take 48 d = d"
    by (simp_all add: SNTP_RX_BUFFER_def)
  have rx: "write_at 0 d (rx_pkt q) = d @ drop 48 (rx_pkt q)"
    using d(2) by (simp add: write_at_def)
  have "\<not> int (unat ((d @ drop 48 (rx_pkt q)) ! 1)) > 15" by (simp add: d_def)
  then obtain s1 where s1: "get_response (answers sample_attempt) (clock4 sample_attempt) q = Some (GOOD_RESPONSE, s1)"
    "rx_pkt s1 = d @ drop 48 (rx_pkt q)" "tx_pkt s1 = tx_pkt q"
    unfolding get_response_ready [OF d(1)] w rx if_False by simp
  have "read_at 24 8 (rx_pkt s1) = ts" using d(3) by (simp add: s1(2) d_def read_at_def)
  moreover have "read_at 24 8 (tx_pkt s1) = ts"
    using d(3) by (simp add: s1(3) q_def send_query_def Let_def read_at_write_other read_at_write_at
        sample_attempt_def sample_ntp_def shift_sec_def ts_def)
  ultimately have "sample_update =
      (let new = the (new_time 0 (clock_now sample_attempt) s1) in Some (setting sample_attempt new, after_set new s1))"
    using s1(1)
    by (simp add: sample_update_def NTP_update_def get_timezone_def get_daylightsaving_def
        sample_ntp_def q_def new_time_def Let_def)
  then show ?thesis by (auto simp: setting_def sample_attempt_def Let_def split: option.splits)
qed

section \<open>Properties\<close>

text \<open>
  C23. Time stamps round trip: encoding a time value with 32-bit seconds into the 64-bit format of the
  protocol and decoding it, in double arithmetic both ways, gives back the seconds exactly and the
  microseconds up to one.
\<close>

theorem timestamp_roundtrip:
  assumes "- 2147483648 \<le> tv_sec tv" and "tv_sec tv < 2147483648"
    and "0 \<le> tv_usec tv" and "tv_usec tv < 1000000"
  shows "tv_sec (ntp2timeval (timeval2ntp tv)) = tv_sec tv
    \<and> (tv_usec (ntp2timeval (timeval2ntp tv)) = tv_usec tv
       \<or> tv_usec (ntp2timeval (timeval2ntp tv)) = tv_usec tv - 1)"
proof -
  note e = timeval2ntp_eq [OF assms(3,4)]
  have "be_val (drop 4 (timeval2ntp tv)) = nat (frac_of (tv_usec tv))"
    using frac_of_bounds(1,2) [OF assms(3,4)] by (simp add: e be_val_be_bytes nat_less_iff)
  moreover have "of_be32 (take 4 (timeval2ntp tv)) = of_int (tv_sec tv) + EPOCH_OFFSET"
    using unat_u32_less [of "of_int (tv_sec tv) + EPOCH_OFFSET"] by (simp add: e be_val_be_bytes)
  ultimately show ?thesis
    using usec_of_frac_of [OF assms(3,4)] assms(1,2)
    by (simp add: ntp2timeval_eq sint_of_int_u32)
qed

theorem timestamp_roundtrip_witness:
  "tv_sec (ntp2timeval (timeval2ntp \<lparr>tv_sec = 1183000000, tv_usec = 123456\<rparr>)) = 1183000000"
  using timestamp_roundtrip [of "\<lparr>tv_sec = 1183000000, tv_usec = 123456\<rparr>"] by simp

text \<open>
  C21. The clock is only set on a matching answer: if an update sets the clock, then exactly once, and
  some attempt received a datagram of at least 48 bytes, from a server of stratum 15 or better, whose
  originate time stamp is byte for byte the one that the attempt sent.
\<close>

theorem clock_set_only_on_echo:
  assumes "NTP_update conf host sock (a1, a2, a3) st = Some (out, st')" and "clock_set out \<noteq> []"
    and "length (rx_pkt st) = SNTP_RX_BUFFER"
  shows "\<exists>a \<in> {a1, a2, a3}. \<exists>d. Sel_ready (Some d) \<in> set (answers a) \<and> 48 \<le> length d
    \<and> unat (d ! 1) \<le> 15
    \<and> read_at 24 8 d = timeval2ntp (shift_sec (- adjust_tz_time st') (clock1 a))
    \<and> length (clock_set out) = 1"
proof -
  obtain s where s: "rx_pkt s = rx_pkt st"
    "ntp_loop (get_daylightsaving (conf_dsav conf)) [a1, a2, a3] GOOD_RESPONSE s = Some (out, st')"
    by (rule NTP_update_loop [OF assms(1,2)])
  obtain a d new s1 where a: "a \<in> set [a1, a2, a3]" "accepted (get_daylightsaving (conf_dsav conf)) a d new s s1"
    "st' = after_set new s1" "out = setting a new"
    using ntp_loop_accepts [OF s(2) assms(2)] s(1) assms(3) by metis
  have "adjust_tz_time st' = adjust_tz_time s" using a by (simp add: after_set_def accepted_def)
  moreover have "length (clock_set out) = 1"
    using assms(2) a(4) by (auto simp: setting_def split: option.splits if_splits)
  ultimately show ?thesis using a(1,2) unfolding accepted_def by auto
qed

theorem clock_set_only_on_echo_witness:
  "\<exists>d. Sel_ready (Some d) \<in> set (answers sample_attempt) \<and> 48 \<le> length d \<and> unat (d ! 1) \<le> 15"
proof -
  obtain out st' new where "sample_update = Some (out, st')" "clock_set out = [new]"
    using sample_accepts by blast
  then show ?thesis
    using clock_set_only_on_echo [of _ True True sample_attempt sample_attempt sample_attempt sample_ntp out st']
    by (auto simp: sample_update_def sample_ntp_def Let_def)
qed



text \<open>
  The daily loop fetches the time in its first second and then exactly once in every 86400 turns
  of one second.
\<close>

theorem ntpdate_daily:
  "fst (ntpdate_turn (ntpdate_counter n)) \<longleftrightarrow> n mod 86400 = 0"
proof (cases n)
  case (Suc m)
  have "Suc m mod 86400 = (if Suc (m mod 86400) = 86400 then 0 else Suc (m mod 86400))" by (rule mod_Suc)
  then show ?thesis
    by (simp add: Suc ntpdate_counter_eq ntpdate_turn_def CheckTime_def del: ntpdate_counter.simps)
qed (simp add: ntpdate_turn_def)

end
