(* ===== verification/Dhcp_Options.thy ===== *)
theory Dhcp_Options
  imports Float_Round "HOL-Library.Monad_Syntax"
begin

text \<open>
  The option table of the DHCP client and \<open>parseDhcpMsgRecv\<close> (\<^verbatim>\<open>dhcpcd-1.3.22-pl1/client.c\<close>,
  \<^verbatim>\<open>client.h\<close>).  A message is the list of the bytes of the receive buffer; a read outside the buffer, of a
  null pointer or outside an allocated value is the result \<^const>\<open>None\<close>.  The main results: reading the
  options of any message stays inside the receive buffer, the table holds what the message says, and the
  missing options get the documented defaults.
\<close>

unbundle bit_operations_syntax

section \<open>Definitions\<close>

abbreviation (input) padOption :: byte where "padOption \<equiv> 0"
abbreviation (input) subnetMask :: byte where "subnetMask \<equiv> 1"
abbreviation (input) routersOnSubnet :: byte where "routersOnSubnet \<equiv> 3"
abbreviation (input) dns :: byte where "dns \<equiv> 6"
abbreviation (input) hostName :: byte where "hostName \<equiv> 12"
abbreviation (input) domainName :: byte where "domainName \<equiv> 15"
abbreviation (input) rootPath :: byte where "rootPath \<equiv> 17"
abbreviation (input) defaultIPTTL :: byte where "defaultIPTTL \<equiv> 23"
abbreviation (input) broadcastAddr :: byte where "broadcastAddr \<equiv> 28"
abbreviation (input) performMaskDiscovery :: byte where "performMaskDiscovery \<equiv> 29"
abbreviation (input) performRouterDiscovery :: byte where "performRouterDiscovery \<equiv> 31"
abbreviation (input) staticRoute :: byte where "staticRoute \<equiv> 33"
abbreviation (input) nisDomainName :: byte where "nisDomainName \<equiv> 40"
abbreviation (input) nisServers :: byte where "nisServers \<equiv> 41"
abbreviation (input) ntpServers :: byte where "ntpServers \<equiv> 42"
abbreviation (input) dhcpRequestedIPaddr :: byte where "dhcpRequestedIPaddr \<equiv> 50"
abbreviation (input) dhcpIPaddrLeaseTime :: byte where "dhcpIPaddrLeaseTime \<equiv> 51"
abbreviation (input) dhcpMessageType :: byte where "dhcpMessageType \<equiv> 53"
abbreviation (input) dhcpServerIdentifier :: byte where "dhcpServerIdentifier \<equiv> 54"
abbreviation (input) dhcpParamRequest :: byte where "dhcpParamRequest \<equiv> 55"
abbreviation (input) dhcpMsg :: byte where "dhcpMsg \<equiv> 56"
abbreviation (input) dhcpMaxMsgSize :: byte where "dhcpMaxMsgSize \<equiv> 57"
abbreviation (input) dhcpT1value :: byte where "dhcpT1value \<equiv> 58"
abbreviation (input) dhcpT2value :: byte where "dhcpT2value \<equiv> 59"
abbreviation (input) dhcpClassIdentifier :: byte where "dhcpClassIdentifier \<equiv> 60"
abbreviation (input) dhcpClientIdentifier :: byte where "dhcpClientIdentifier \<equiv> 61"
abbreviation (input) endOption :: byte where "endOption \<equiv> 255"

text \<open>The table: a value is the allocated block, which may be longer than the recorded length.\<close>

record dhcpOptions =
  opt_num :: byte
  opt_len :: "byte \<Rightarrow> nat"
  opt_val :: "byte \<Rightarrow> byte list option"

definition releaseDhcpOptions :: dhcpOptions where
  "releaseDhcpOptions = \<lparr>opt_num = 0, opt_len = (\<lambda>_. 0), opt_val = (\<lambda>_. None)\<rparr>"

text \<open>The first four bytes of a value.\<close>

definition opt4 :: "dhcpOptions \<Rightarrow> byte \<Rightarrow> byte list option" where
  "opt4 opts c = (case opt_val opts c of None \<Rightarrow> None | Some b \<Rightarrow> if 4 \<le> length b then Some (take 4 b) else None)"

text \<open>The option at position \<open>p\<close> of the message, other than padding and end.\<close>

definition parse_option :: "byte list \<Rightarrow> nat \<Rightarrow> dhcpOptions \<Rightarrow> dhcpOptions option" where
  "parse_option m p opts =
     (let c = m ! p; l = unat (m ! (p + 1)); d = read_at (p + 2) l m
      in if l = 0 then Some opts
         else if length m < p + 2 + l then None
         else if opt_len opts c = l
         then (case opt_val opts c of
                 None \<Rightarrow> None
               | Some b \<Rightarrow> if length b < l then None
                           else Some (opts\<lparr>opt_val := (opt_val opts)(c := Some (d @ drop l b))\<rparr>))
         else Some (opts\<lparr>opt_num := (if opt_val opts c = None then opt_num opts + 1 else opt_num opts),
                         opt_len := (opt_len opts)(c := l), opt_val := (opt_val opts)(c := Some (d @ [0]))\<rparr>))"

function parse_loop :: "byte list \<Rightarrow> nat \<Rightarrow> nat \<Rightarrow> dhcpOptions \<Rightarrow> dhcpOptions option" where
  "parse_loop m p stop opts =
     (if stop \<le> p then Some opts
      else if length m \<le> p then None
      else if m ! p = endOption then Some opts
      else if m ! p = padOption then parse_loop m (p + 1) stop opts
      else if length m \<le> p + 1 then None
      else case parse_option m p opts of
             None \<Rightarrow> None
           | Some opts \<Rightarrow> parse_loop m (p + (unat (m ! (p + 1)) + 2)) stop opts)"
  by pat_completeness auto
termination by (relation "measure (\<lambda>(m, p, stop, opts). stop - p)") auto

declare parse_loop.simps [simp del]

text \<open>Newly allocated values, and values overwritten in place.\<close>

definition alloc :: "byte \<Rightarrow> byte list \<Rightarrow> dhcpOptions \<Rightarrow> dhcpOptions" where
  "alloc c b opts = opts\<lparr>opt_num := opt_num opts + 1, opt_len := (opt_len opts)(c := 4),
     opt_val := (opt_val opts)(c := Some b)\<rparr>"

definition overwrite :: "byte \<Rightarrow> byte list \<Rightarrow> dhcpOptions \<Rightarrow> dhcpOptions" where
  "overwrite c b opts = opts\<lparr>opt_val := (opt_val opts)(c := map_option (\<lambda>old. b @ drop 4 old) (opt_val opts c))\<rparr>"

definition default_server_id :: "byte list \<Rightarrow> dhcpOptions \<Rightarrow> dhcpOptions" where
  "default_server_id src opts =
     (if opt_val opts dhcpServerIdentifier = None then alloc dhcpServerIdentifier src opts else opts)"

definition default_dns :: "dhcpOptions \<Rightarrow> dhcpOptions option" where
  "default_dns opts =
     (if opt_val opts dns = None then map_option (\<lambda>s. alloc dns s opts) (opt4 opts dhcpServerIdentifier)
      else Some opts)"

definition default_mask :: "byte list \<Rightarrow> dhcpOptions \<Rightarrow> dhcpOptions" where
  "default_mask yiaddr opts =
     (if opt_val opts subnetMask = None
      then alloc subnetMask
             (if yiaddr ! 0 < 128 then [255, 0, 0, 0]
              else if yiaddr ! 0 < 192 then [255, 255, 0, 0] else [255, 255, 255, 0]) opts
      else opts)"

definition default_broadcast :: "byte list \<Rightarrow> dhcpOptions \<Rightarrow> dhcpOptions option" where
  "default_broadcast yiaddr opts =
     (if opt_val opts broadcastAddr = None
      then map_option (\<lambda>m. alloc broadcastAddr (map2 (\<lambda>y b. y OR NOT b) yiaddr m) opts) (opt4 opts subnetMask)
      else Some opts)"

definition default_lease :: "byte list \<Rightarrow> dhcpOptions \<Rightarrow> dhcpOptions option" where
  "default_lease nleaseTime opts =
     (if opt_val opts dhcpIPaddrLeaseTime \<noteq> None \<and> opt_len opts dhcpIPaddrLeaseTime = 4
      then map_option (\<lambda>b. if b = [0, 0, 0, 0] then overwrite dhcpIPaddrLeaseTime nleaseTime opts else opts)
             (opt4 opts dhcpIPaddrLeaseTime)
      else Some (alloc dhcpIPaddrLeaseTime nleaseTime opts))"

text \<open>The renewal times: a fraction of the lease time, in double arithmetic, in network byte order.\<close>

definition part_of_lease :: "rat \<Rightarrow> byte list \<Rightarrow> byte list" where
  "part_of_lease f lease = be_bytes 4 (nat (trunc (fl 53 (f * of_nat (be_val lease)))))"

definition default_timer :: "byte \<Rightarrow> rat \<Rightarrow> dhcpOptions \<Rightarrow> dhcpOptions option" where
  "default_timer c f opts = do {
     lease \<leftarrow> opt4 opts dhcpIPaddrLeaseTime;
     if opt_val opts c \<noteq> None \<and> opt_len opts c = 4
     then map_option (\<lambda>b. if b = [0, 0, 0, 0] then overwrite c (part_of_lease f lease) opts else opts) (opt4 opts c)
     else Some (alloc c (part_of_lease f lease) opts)}"

text \<open>
  The whole routine: \<open>m\<close> is the receive buffer with the frame, \<open>d\<close> the offset of the DHCP message in it,
  \<open>sent\<close> the field \<open>ciaddr\<close> of the message sent last.  The result is the message type, the buffer and the
  table.
\<close>

definition message_type :: "dhcpOptions \<Rightarrow> nat option" where
  "message_type opts =
     (case opt_val opts dhcpMessageType of
        None \<Rightarrow> Some 0
      | Some b \<Rightarrow> if b = [] then None else Some (unat (hd b)))"

definition parseDhcpMsgRecv ::
  "byte list \<Rightarrow> byte list \<Rightarrow> nat \<Rightarrow> byte list \<Rightarrow> dhcpOptions \<Rightarrow> (nat \<times> byte list \<times> dhcpOptions) option" where
  "parseDhcpMsgRecv nleaseTime sent d m opts = do {
     opts \<leftarrow> parse_loop m (d + 240) (d + 548) opts;
     let m = (if read_at (d + 16) 4 m = [0, 0, 0, 0] then write_at (d + 16) sent m else m);
     let yiaddr = read_at (d + 16) 4 m;
     let opts = default_server_id (read_at 26 4 m) opts;
     opts \<leftarrow> default_dns opts;
     opts \<leftarrow> default_broadcast yiaddr (default_mask yiaddr opts);
     opts \<leftarrow> default_lease nleaseTime opts;
     opts \<leftarrow> default_timer dhcpT1value (1 / 2) opts;
     opts \<leftarrow> default_timer dhcpT2value (7 / 8) opts;
     t \<leftarrow> message_type opts;
     Some (t, m, opts)}"

section \<open>The table invariant and memory safety\<close>

definition entry_ok :: "nat \<Rightarrow> byte list option \<Rightarrow> bool" where
  "entry_ok l v \<longleftrightarrow> (case v of None \<Rightarrow> l = 0 | Some b \<Rightarrow> 0 < l \<and> l < 256 \<and> l \<le> length b)"

definition opts_ok :: "dhcpOptions \<Rightarrow> bool" where
  "opts_ok opts \<longleftrightarrow> (\<forall>c. entry_ok (opt_len opts c) (opt_val opts c))"

lemma opts_ok_release: "opts_ok releaseDhcpOptions"
  by (simp add: opts_ok_def entry_ok_def releaseDhcpOptions_def)

lemma opts_okD:
  assumes "opts_ok opts" "opt_val opts c = Some b"
  shows "0 < opt_len opts c" "opt_len opts c < 256" "opt_len opts c \<le> length b"
proof -
  have "entry_ok (opt_len opts c) (opt_val opts c)" using assms(1) by (simp add: opts_ok_def)
  then show "0 < opt_len opts c" "opt_len opts c < 256" "opt_len opts c \<le> length b"
    using assms(2) by (simp_all add: entry_ok_def)
qed

lemma opts_ok_len: "opts_ok opts \<Longrightarrow> opt_len opts c \<noteq> 0 \<Longrightarrow> \<exists>b. opt_val opts c = Some b"
  by (cases "opt_val opts c") (auto simp: opts_ok_def entry_ok_def split: option.splits dest: spec [of _ c])

lemma opts_ok_upd:
  assumes "opts_ok opts" "0 < l" "l < 256" "l \<le> length b"
  shows "opts_ok (opts\<lparr>opt_num := n, opt_len := (opt_len opts)(c := l), opt_val := (opt_val opts)(c := Some b)\<rparr>)"
proof -
  have "entry_ok l (Some b)" using assms by (simp add: entry_ok_def)
  then show ?thesis using assms(1) by (simp add: opts_ok_def)
qed

lemma opts_ok_val:
  assumes "opts_ok opts" "opt_val opts c = Some b" "length b \<le> length b'"
  shows "opts_ok (opts\<lparr>opt_val := (opt_val opts)(c := Some b')\<rparr>)"
proof -
  have "entry_ok (opt_len opts c) (Some b')" using opts_okD [OF assms(1,2)] assms(3) by (simp add: entry_ok_def)
  then show ?thesis using assms(1) by (simp add: opts_ok_def)
qed

lemma opts_ok_alloc: "opts_ok opts \<Longrightarrow> length b = 4 \<Longrightarrow> opts_ok (alloc c b opts)"
  unfolding alloc_def by (rule opts_ok_upd) simp_all

lemma opts_ok_overwrite: "opts_ok opts \<Longrightarrow> length b = 4 \<Longrightarrow> opts_ok (overwrite c b opts)"
proof (cases "opt_val opts c")
  case (Some old)
  assume "opts_ok opts" "length b = 4"
  then show ?thesis using opts_ok_val [OF _ Some, of "b @ drop 4 old"] Some by (simp add: overwrite_def)
qed (simp add: overwrite_def fun_upd_idem)

lemma parse_option_ok:
  assumes "opts_ok opts" "p + 2 + unat (m ! (p + 1)) \<le> length m"
  shows "\<exists>o'. parse_option m p opts = Some o' \<and> opts_ok o'"
proof (cases "opt_len opts (m ! p) = unat (m ! (p + 1)) \<and> unat (m ! (p + 1)) \<noteq> 0")
  case True
  then obtain b where b: "opt_val opts (m ! p) = Some b" using opts_ok_len [OF assms(1)] by metis
  have l: "unat (m ! (p + 1)) \<le> length b" using opts_okD [OF assms(1) b] True by simp
  then have "opts_ok (opts\<lparr>opt_val := (opt_val opts)(m ! p := Some (read_at (p + 2) (unat (m ! (p + 1))) m
      @ drop (unat (m ! (p + 1))) b))\<rparr>)"
    using assms(2) by (intro opts_ok_val [OF assms(1) b]) simp
  then show ?thesis using True b l assms(2) by (simp add: parse_option_def Let_def)
next
  case False
  have "opts_ok (opts\<lparr>opt_num := n, opt_len := (opt_len opts)(m ! p := unat (m ! (p + 1))),
      opt_val := (opt_val opts)(m ! p := Some (read_at (p + 2) (unat (m ! (p + 1))) m @ [0]))\<rparr>)"
    if "unat (m ! (p + 1)) \<noteq> 0" for n
    using that assms(2) unat_byte_less [of "m ! (p + 1)"] by (intro opts_ok_upd [OF assms(1)]) simp_all
  then show ?thesis using False assms by (auto simp: parse_option_def Let_def)
qed


section \<open>The table as a finite map\<close>

definition content :: "dhcpOptions \<Rightarrow> byte \<Rightarrow> byte list option" where
  "content opts c = map_option (take (opt_len opts c)) (opt_val opts c)"

lemma content_release [simp]: "content releaseDhcpOptions = Map.empty"
  by (simp add: fun_eq_iff content_def releaseDhcpOptions_def)

lemma content_None: "opt_val opts c = None \<longleftrightarrow> content opts c = None"
  by (simp add: content_def)

lemma content_len: "opts_ok opts \<Longrightarrow> content opts c = Some v \<Longrightarrow> opt_len opts c = length v"
  using opts_okD(3) [of opts c] by (auto simp: content_def)

lemma content_opt4: "opts_ok opts \<Longrightarrow> content opts c = Some v \<Longrightarrow> 4 \<le> length v \<Longrightarrow> opt4 opts c = Some (take 4 v)"
  using opts_okD(3) [of opts c] by (auto simp: content_def opt4_def)

lemma content_alloc: "length b = 4 \<Longrightarrow> content (alloc c b opts) = (content opts)(c \<mapsto> b)"
  by (auto simp: content_def alloc_def)

lemma content_overwrite:
  "opt_val opts c \<noteq> None \<Longrightarrow> opt_len opts c = 4 \<Longrightarrow> length b = 4 \<Longrightarrow>
   content (overwrite c b opts) = (content opts)(c \<mapsto> b)"
  by (auto simp: content_def overwrite_def)

lemma parse_option_content:
  assumes "opts_ok opts" "p + 2 + unat (m ! (p + 1)) \<le> length m" "unat (m ! (p + 1)) \<noteq> 0"
  shows "\<exists>o'. parse_option m p opts = Some o' \<and> opts_ok o'
    \<and> content o' = (content opts)(m ! p \<mapsto> read_at (p + 2) (unat (m ! (p + 1))) m)"
proof -
  obtain o' where o: "parse_option m p opts = Some o'" "opts_ok o'" using parse_option_ok [OF assms(1,2)] by blast
  have l: "length (read_at (p + 2) (unat (m ! (p + 1))) m) = unat (m ! (p + 1))" using assms(2) by simp
  have "content o' c = ((content opts)(m ! p \<mapsto> read_at (p + 2) (unat (m ! (p + 1))) m)) c" for c
    using o(1) assms(2,3) l
    by (cases "c = m ! p")
      (auto simp: parse_option_def Let_def content_def split: if_splits option.splits)
  then show ?thesis using o by blast
qed

definition enc_option :: "byte \<times> byte list \<Rightarrow> byte list" where
  "enc_option = (\<lambda>(c, v). c # of_nat (length v) # v)"

definition proper_options :: "(byte \<times> byte list) list \<Rightarrow> bool" where
  "proper_options os \<longleftrightarrow> list_all (\<lambda>(c, v). c \<noteq> padOption \<and> c \<noteq> endOption \<and> v \<noteq> [] \<and> length v < 256) os"

lemma parse_loop_enc:
  assumes "m = pre @ concat (map enc_option os) @ endOption # post" "proper_options os" "opts_ok opts"
    and "length pre + length (concat (map enc_option os)) < stop"
  shows "\<exists>o'. parse_loop m (length pre) stop opts = Some o' \<and> opts_ok o'
    \<and> content o' = content opts ++ map_of (rev os)"
  using assms
proof (induction os arbitrary: pre opts)
  case Nil
  then show ?case by (subst parse_loop.simps) (auto simp: nth_append)
next
  case (Cons cv os)
  obtain c v where cv: "cv = (c, v)" by (cases cv)
  let ?p = "length pre"
  have v: "c \<noteq> padOption" "c \<noteq> endOption" "v \<noteq> []" "length v < 256" "proper_options os"
    using Cons.prems(2) by (simp_all add: proper_options_def cv)
  have m: "m = pre @ (c # of_nat (length v) # v) @ concat (map enc_option os) @ endOption # post"
    using Cons.prems(1) by (simp add: cv enc_option_def)
  then have n: "m ! ?p = c" "m ! (?p + 1) = of_nat (length v)" "read_at (?p + 2) (length v) m = v"
    by (simp_all add: nth_append read_at_def)
  have u: "unat (m ! (?p + 1)) = length v" unfolding n using v(4) by (simp add: unat_of_nat)
  have len: "?p + 2 + length v \<le> length m" using m by simp
  obtain o1 where o1: "parse_option m ?p opts = Some o1" "opts_ok o1" "content o1 = (content opts)(c \<mapsto> v)"
    using parse_option_content [OF Cons.prems(3), of ?p m] len v(3) unfolding u n(1,3) by auto
  have "\<exists>o'. parse_loop m (length (pre @ c # of_nat (length v) # v)) stop o1 = Some o' \<and> opts_ok o'
      \<and> content o' = content o1 ++ map_of (rev os)"
    using Cons.prems(4) v(5) o1(2) m by (intro Cons.IH) (simp_all add: cv enc_option_def)
  moreover have "parse_loop m ?p stop opts = parse_loop m (?p + (length v + 2)) stop o1"
    using Cons.prems(4) v len o1(1) by (subst parse_loop.simps) (simp add: n(1) u [simplified] cv enc_option_def)
  moreover have "content o1 ++ map_of (rev os) = content opts ++ map_of (rev (cv # os))"
    by (simp add: o1(3) cv map_add_def fun_eq_iff split: option.splits)
  ultimately show ?case by simp
qed

section \<open>The defaults\<close>

definition fill :: "byte \<Rightarrow> byte list \<Rightarrow> (byte \<Rightarrow> byte list option) \<Rightarrow> byte \<Rightarrow> byte list option" where
  "fill k v s = (if s k = None then s(k \<mapsto> v) else s)"

definition fill4 :: "byte \<Rightarrow> byte list \<Rightarrow> (byte \<Rightarrow> byte list option) \<Rightarrow> byte \<Rightarrow> byte list option" where
  "fill4 k v s =
     (case s k of None \<Rightarrow> s(k \<mapsto> v) | Some b \<Rightarrow> if length b = 4 \<and> b \<noteq> [0, 0, 0, 0] then s else s(k \<mapsto> v))"

definition class_mask :: "byte list \<Rightarrow> byte list" where
  "class_mask yiaddr = (if yiaddr ! 0 < 128 then [255, 0, 0, 0]
     else if yiaddr ! 0 < 192 then [255, 255, 0, 0] else [255, 255, 255, 0])"

definition with_defaults ::
  "byte list \<Rightarrow> byte list \<Rightarrow> byte list \<Rightarrow> (byte \<Rightarrow> byte list option) \<Rightarrow> byte \<Rightarrow> byte list option" where
  "with_defaults nleaseTime src yiaddr s =
     (let s = fill dhcpServerIdentifier src s;
          s = fill dns (take 4 (the (s dhcpServerIdentifier))) s;
          s = fill subnetMask (class_mask yiaddr) s;
          s = fill broadcastAddr (map2 (\<lambda>y b. y OR NOT b) yiaddr (take 4 (the (s subnetMask)))) s;
          s = fill4 dhcpIPaddrLeaseTime nleaseTime s;
          lease = be_val (the (s dhcpIPaddrLeaseTime));
          s = fill4 dhcpT1value (be_bytes 4 (lease div 2)) s
      in fill4 dhcpT2value (be_bytes 4 (7 * lease div 8)) s)"

lemma part_of_lease_half:
  assumes "length l = 4" shows "part_of_lease (1 / 2) l = be_bytes 4 (be_val l div 2)"
proof -
  have "\<bar>int (be_val l)\<bar> < 2 ^ 53" using be_val_less [of l] assms by simp
  from fl_dyadic [OF this, of 1] have "fl 53 (1 / 2 * of_nat (be_val l)) = of_nat (be_val l) / 2" by simp
  moreover have "trunc (of_nat n / 2) = int (n div 2)" for n
    using floor_divide_of_nat_eq [of n 2, where ?'a = rat] by (simp add: trunc_def)
  ultimately show ?thesis by (simp only: part_of_lease_def nat_int)
qed

lemma part_of_lease_7_8:
  assumes "length l = 4" shows "part_of_lease (7 / 8) l = be_bytes 4 (7 * be_val l div 8)"
proof -
  have "\<bar>int (7 * be_val l)\<bar> < 2 ^ 53" using be_val_less [of l] assms by simp
  from fl_dyadic [OF this, of 3] have "fl 53 (7 / 8 * of_nat (be_val l)) = of_nat (7 * be_val l) / 8" by simp
  moreover have "trunc (of_nat n / 8) = int (n div 8)" for n
    using floor_divide_of_nat_eq [of n 8, where ?'a = rat] by (simp add: trunc_def)
  ultimately show ?thesis by (simp only: part_of_lease_def nat_int)
qed


lemma content_default_server_id:
  assumes "opts_ok opts" "length src = 4"
  shows "opts_ok (default_server_id src opts)"
    "content (default_server_id src opts) = fill dhcpServerIdentifier src (content opts)"
  using assms opts_ok_alloc content_alloc by (simp_all add: default_server_id_def fill_def content_None)

lemma content_default_dns:
  assumes "opts_ok opts" "content opts dhcpServerIdentifier = Some v" "4 \<le> length v"
  shows "\<exists>o'. default_dns opts = Some o' \<and> opts_ok o' \<and> content o' = fill dns (take 4 v) (content opts)"
  using assms opts_ok_alloc content_alloc content_opt4 [OF assms]
  by (simp add: default_dns_def fill_def content_None)

lemma content_default_mask:
  assumes "opts_ok opts"
  shows "opts_ok (default_mask y opts)" "content (default_mask y opts) = fill subnetMask (class_mask y) (content opts)"
proof -
  have e: "default_mask y opts = (if content opts subnetMask = None then alloc subnetMask (class_mask y) opts else opts)"
    by (simp add: default_mask_def class_mask_def content_None)
  have "length (class_mask y) = 4" by (simp add: class_mask_def)
  then show "opts_ok (default_mask y opts)" "content (default_mask y opts) = fill subnetMask (class_mask y) (content opts)"
    using assms opts_ok_alloc content_alloc by (simp_all add: e fill_def)
qed

lemma content_default_broadcast:
  assumes "opts_ok opts" "content opts subnetMask = Some v" "4 \<le> length v" "length y = 4"
  shows "\<exists>o'. default_broadcast y opts = Some o' \<and> opts_ok o'
    \<and> content o' = fill broadcastAddr (map2 (\<lambda>y b. y OR NOT b) y (take 4 v)) (content opts)"
proof -
  have "length (map2 (\<lambda>y b. y OR NOT b) y (take 4 v)) = 4" using assms by simp
  then show ?thesis
    using assms(1) opts_ok_alloc content_alloc content_opt4 [OF assms(1-3)]
    by (simp add: default_broadcast_def fill_def content_None)
qed

text \<open>An option of four bytes that are not zero is kept; otherwise it is set.\<close>

lemma content_set4:
  assumes "opts_ok opts" "length b = 4"
  shows "\<exists>o'. (if opt_val opts c \<noteq> None \<and> opt_len opts c = 4
      then map_option (\<lambda>v. if v = [0, 0, 0, 0] then overwrite c b opts else opts) (opt4 opts c)
      else Some (alloc c b opts)) = Some o' \<and> opts_ok o' \<and> content o' = fill4 c b (content opts)"
proof (cases "content opts c")
  case None
  then show ?thesis using assms opts_ok_alloc content_alloc by (simp add: content_None fill4_def)
next
  case (Some v)
  have l: "opt_len opts c = length v" by (rule content_len [OF assms(1) Some])
  show ?thesis
  proof (cases "length v = 4")
    case True
    have "opt_val opts c \<noteq> None" using Some by (simp add: content_None)
    then show ?thesis
      using True l Some assms content_opt4 [OF assms(1) Some] opts_ok_overwrite [OF assms]
        content_overwrite [OF _ _ assms(2), of opts c]
      by (simp add: fill4_def)
  next
    case False
    then show ?thesis using assms Some l opts_ok_alloc content_alloc by (simp add: fill4_def)
  qed
qed

lemma content_default_timer:
  assumes "opts_ok opts" "content opts dhcpIPaddrLeaseTime = Some l" "length l = 4"
  shows "\<exists>o'. default_timer c f opts = Some o' \<and> opts_ok o' \<and> content o' = fill4 c (part_of_lease f l) (content opts)"
proof -
  have "opt4 opts dhcpIPaddrLeaseTime = Some l" using content_opt4 [OF assms(1,2)] assms(3) by simp
  then show ?thesis
    using content_set4 [OF assms(1), of "part_of_lease f l" c]
    by (simp add: default_timer_def part_of_lease_def)
qed

text \<open>Server identifier and subnet mask are read as four bytes.\<close>

definition readable :: "(byte \<Rightarrow> byte list option) \<Rightarrow> bool" where
  "readable s \<longleftrightarrow> (\<forall>c \<in> {dhcpServerIdentifier, subnetMask}. case s c of None \<Rightarrow> True | Some v \<Rightarrow> 4 \<le> length v)"

text \<open>The whole routine refines decoding to a finite map and adding the defaults.\<close>

lemma parse_refines:
  assumes "parse_loop m (d + 240) (d + 548) opts = Some o1" "opts_ok o1"
    and "readable (content o1)"
    and "length sent = 4" "length nl = 4" "d + 20 \<le> length m" "30 \<le> d"
  defines "m' \<equiv> (if read_at (d + 16) 4 m = [0, 0, 0, 0] then write_at (d + 16) sent m else m)"
  shows "\<exists>t o'. parseDhcpMsgRecv nl sent d m opts = Some (t, m', o') \<and> opts_ok o'
    \<and> content o' = with_defaults nl (read_at 26 4 m) (read_at (d + 16) 4 m') (content o1)
    \<and> message_type o' = Some t"
proof -
  define y where "y = read_at (d + 16) 4 m'"
  define src where "src = read_at 26 4 m"
  have l: "length y = 4" "length src = 4" "read_at 26 4 m' = src"
    using assms(4,6,7) by (simp_all add: y_def src_def m'_def read_at_write_other)
  define o2 where "o2 = default_server_id src o1"
  have o2: "opts_ok o2" "content o2 = fill dhcpServerIdentifier src (content o1)"
    using content_default_server_id [OF assms(2) l(2)] by (simp_all add: o2_def)
  then obtain v where v: "content o2 dhcpServerIdentifier = Some v" "4 \<le> length v"
    using assms(3) [unfolded readable_def] l(2) by (cases "content o1 dhcpServerIdentifier") (auto simp: fill_def)
  obtain o3 where o3: "default_dns o2 = Some o3" "opts_ok o3" "content o3 = fill dns (take 4 v) (content o2)"
    using content_default_dns [OF o2(1) v] by blast
  define o4 where "o4 = default_mask y o3"
  have o4: "opts_ok o4" "content o4 = fill subnetMask (class_mask y) (content o3)"
    using content_default_mask [OF o3(2)] by (simp_all add: o4_def)
  have "content o3 subnetMask = content o1 subnetMask" by (simp add: o3(3) o2(2) fill_def)
  then obtain w where w: "content o4 subnetMask = Some w" "4 \<le> length w"
    using assms(3) [unfolded readable_def] by (cases "content o1 subnetMask") (auto simp: o4(2) fill_def class_mask_def)
  obtain o5 where o5: "default_broadcast y o4 = Some o5" "opts_ok o5"
    "content o5 = fill broadcastAddr (map2 (\<lambda>y b. y OR NOT b) y (take 4 w)) (content o4)"
    using content_default_broadcast [OF o4(1) w l(1)] by blast
  obtain o6 where o6: "default_lease nl o5 = Some o6" "opts_ok o6" "content o6 = fill4 dhcpIPaddrLeaseTime nl (content o5)"
    using content_set4 [OF o5(2) assms(5)] unfolding default_lease_def by blast
  then obtain le where le: "content o6 dhcpIPaddrLeaseTime = Some le" "length le = 4"
    using assms(5) by (auto simp: fill4_def split: option.splits if_splits)
  obtain o7 where o7: "default_timer dhcpT1value (1 / 2) o6 = Some o7" "opts_ok o7"
    "content o7 = fill4 dhcpT1value (be_bytes 4 (be_val le div 2)) (content o6)"
    using content_default_timer [OF o6(2) le] unfolding part_of_lease_half [OF le(2), symmetric] by blast
  have "content o7 dhcpIPaddrLeaseTime = Some le"
    using le(1) by (simp add: o7(3) fill4_def split: option.splits)
  then obtain o8 where o8: "default_timer dhcpT2value (7 / 8) o7 = Some o8" "opts_ok o8"
    "content o8 = fill4 dhcpT2value (be_bytes 4 (7 * be_val le div 8)) (content o7)"
    using content_default_timer [OF o7(2) _ le(2)] unfolding part_of_lease_7_8 [OF le(2), symmetric] by blast
  obtain t where t: "message_type o8 = Some t"
    using opts_okD(1,3) [OF o8(2), of dhcpMessageType] by (fastforce simp: message_type_def split: option.splits)
  have "parseDhcpMsgRecv nl sent d m opts = Some (t, m', o8)"
    unfolding parseDhcpMsgRecv_def assms(1) bind.bind_lunit Let_def m'_def [symmetric] l(3) y_def [symmetric]
      o2_def [symmetric] o3(1) o4_def [symmetric] o5(1) o6(1) o7(1) o8(1) t by (rule refl)
  moreover have "content o8 = with_defaults nl src y (content o1)"
    unfolding o8(3) o7(3) with_defaults_def Let_def
    using le(1) v(1) w(1) by (simp only: o6(3) o5(3) o4(2) o3(3) o2(2) option.sel)
  ultimately show ?thesis using o8(2) t unfolding y_def src_def by blast
qed

lemma parse_reply_table:
  assumes "m = pre @ concat (map enc_option os) @ endOption # post" "length pre = d + 240" "proper_options os"
    and "length (concat (map enc_option os)) < 308"
    and "readable (map_of (rev os))"
    and "length sent = 4" "length nl = 4" "30 \<le> d"
  shows "\<exists>t m' o'. parseDhcpMsgRecv nl sent d m releaseDhcpOptions = Some (t, m', o') \<and> opts_ok o'
    \<and> content o' = with_defaults nl (read_at 26 4 m) (read_at (d + 16) 4 m') (map_of (rev os))
    \<and> message_type o' = Some t"
proof -
  obtain o1 where o1: "parse_loop m (d + 240) (d + 548) releaseDhcpOptions = Some o1" "opts_ok o1"
    "content o1 = map_of (rev os)"
    using parse_loop_enc [OF assms(1,3) opts_ok_release, of "d + 548"] assms(2,4) by auto
  have "d + 20 \<le> length m" using assms(1,2) by simp
  then show ?thesis
    using parse_refines [OF o1(1,2) _ assms(6,7) _ assms(8)] assms(5) unfolding o1(3) by blast
qed

lemma fill4_get: "length v = 4 \<Longrightarrow> \<exists>l. fill4 k v s k = Some l \<and> length l = 4"
  by (cases "s k") (auto simp: fill4_def)

lemma with_defaults_timers:
  assumes "s dhcpT1value = None" "s dhcpT2value = None" "length nl = 4"
  obtains l where "with_defaults nl src y s dhcpIPaddrLeaseTime = Some l" "length l = 4"
    "with_defaults nl src y s dhcpT1value = Some (be_bytes 4 (be_val l div 2))"
    "with_defaults nl src y s dhcpT2value = Some (be_bytes 4 (7 * be_val l div 8))"
proof -
  define s1 where "s1 = (let s = fill dhcpServerIdentifier src s;
          s = fill dns (take 4 (the (s dhcpServerIdentifier))) s;
          s = fill subnetMask (class_mask y) s
      in fill broadcastAddr (map2 (\<lambda>y b. y OR NOT b) y (take 4 (the (s subnetMask)))) s)"
  define s2 where "s2 = fill4 dhcpIPaddrLeaseTime nl s1"
  have w: "with_defaults nl src y s = (let lease = be_val (the (s2 dhcpIPaddrLeaseTime));
      s = fill4 dhcpT1value (be_bytes 4 (lease div 2)) s2 in fill4 dhcpT2value (be_bytes 4 (7 * lease div 8)) s)"
    by (simp add: with_defaults_def s1_def s2_def Let_def)
  have n: "s1 dhcpT1value = None" "s1 dhcpT2value = None" using assms(1,2) by (simp_all add: s1_def Let_def fill_def)
  have n2: "s2 dhcpT1value = None" "s2 dhcpT2value = None"
    using n by (auto simp: s2_def fill4_def split: option.splits)
  obtain l where l: "s2 dhcpIPaddrLeaseTime = Some l" "length l = 4"
    using fill4_get [OF assms(3)] by (auto simp: s2_def)
  show ?thesis by (rule that [of l]) (use n2 l in \<open>simp_all add: w Let_def fill4_def\<close>)
qed

section \<open>Properties\<close>



text \<open>
  C28. A reply is read as a finite map: if the option field holds the encoding of a list of options, the
  table afterwards maps every option to its last value in the list, and the missing ones of server
  identifier, name server, subnet mask, broadcast address, lease and renewal times to their defaults:
  the sender, the server, the class mask of the assigned address, the address with the host bits set, the
  requested lease time, one half and seven eighths of the lease time.
\<close>

theorem parse_reply:
  assumes "m = pre @ concat (map enc_option os) @ endOption # post" and "length pre = d + 240"
    and "proper_options os" and "length (concat (map enc_option os)) < 308"
    and "readable (map_of (rev os))"
    and "length sent = 4" and "length nl = 4" and "30 \<le> d"
  shows "\<exists>t m' o'. parseDhcpMsgRecv nl sent d m releaseDhcpOptions = Some (t, m', o') \<and> opts_ok o'
    \<and> content o' = with_defaults nl (read_at 26 4 m) (read_at (d + 16) 4 m') (map_of (rev os))"
  using parse_reply_table [OF assms] by blast

definition sample_reply :: "byte list" where
  "sample_reply = replicate 26 9 @ [192, 168, 0, 1] @ replicate 28 0 @ [192, 168, 0, 77] @ replicate 216 0
     @ [99, 130, 83, 99] @ concat (map enc_option [(53, [5]), (51, [0, 0, 14, 16]), (1, [255, 255, 255, 0])])
     @ endOption # replicate 1216 0"

lemma sample_reply_premises:
  "proper_options [(53, [5]), (51, [0, 0, 14, 16]), (1, [255, 255, 255, 0])]"
  "length (concat (map enc_option [(53, [5]), (51, [0, 0, 14, 16]), (1, [255, 255, 255, 0])])) < 308"
  "readable (map_of (rev [(53, [5]), (51, [0, 0, 14, 16]), (1, [255, 255, 255, 0])]))"
  by (simp_all add: proper_options_def enc_option_def readable_def)

lemma sample_reply_parts:
  "sample_reply = (replicate 26 9 @ [192, 168, 0, 1] @ replicate 28 0 @ [192, 168, 0, 77] @ replicate 216 0
     @ [99, 130, 83, 99]) @ concat (map enc_option [(53, [5]), (51, [0, 0, 14, 16]), (1, [255, 255, 255, 0])])
     @ endOption # replicate 1216 0"
  by (simp only: sample_reply_def append_assoc)

lemma sample_reply_sizes:
  "length (replicate 26 (9 :: byte) @ [192, 168, 0, 1] @ replicate 28 0 @ [192, 168, 0, 77] @ replicate 216 0
     @ [99, 130, 83, 99]) = 42 + 240"
  "length [0, 0, 0, 0 :: byte] = 4" "length [255, 255, 255, 255 :: byte] = 4" "(30 :: nat) \<le> 42"
  by simp_all

theorem parse_reply_witness:
  "\<exists>t m' o'. parseDhcpMsgRecv [255, 255, 255, 255] [0, 0, 0, 0] 42 sample_reply releaseDhcpOptions = Some (t, m', o')
    \<and> content o' = with_defaults [255, 255, 255, 255] (read_at 26 4 sample_reply) (read_at (42 + 16) 4 m')
        (map_of (rev [(53, [5]), (51, [0, 0, 14, 16]), (1, [255, 255, 255, 0])]))"
  using parse_reply [OF sample_reply_parts sample_reply_sizes(1) sample_reply_premises sample_reply_sizes(2-4)]
  by blast

text \<open>
  C31. The renewal times of a reply without T1 and T2 are in order: T1 is half of the lease time, and T1,
  T2 and the lease time do not decrease.
\<close>

theorem renewal_times_ordered:
  assumes "m = pre @ concat (map enc_option os) @ endOption # post" and "length pre = d + 240"
    and "proper_options os" and "length (concat (map enc_option os)) < 308"
    and "readable (map_of (rev os))"
    and "length sent = 4" and "length nl = 4" and "30 \<le> d"
    and "map_of (rev os) dhcpT1value = None" and "map_of (rev os) dhcpT2value = None"
  shows "\<exists>t m' o' l t1 t2. parseDhcpMsgRecv nl sent d m releaseDhcpOptions = Some (t, m', o')
    \<and> content o' dhcpIPaddrLeaseTime = Some l \<and> content o' dhcpT1value = Some t1 \<and> content o' dhcpT2value = Some t2
    \<and> be_val t1 = be_val l div 2 \<and> be_val t1 \<le> be_val t2 \<and> be_val t2 \<le> be_val l"
proof -
  obtain t m' o' where o: "parseDhcpMsgRecv nl sent d m releaseDhcpOptions = Some (t, m', o')"
    "content o' = with_defaults nl (read_at 26 4 m) (read_at (d + 16) 4 m') (map_of (rev os))"
    using parse_reply_table [OF assms(1-8)] by blast
  obtain l where l: "content o' dhcpIPaddrLeaseTime = Some l" "length l = 4"
    "content o' dhcpT1value = Some (be_bytes 4 (be_val l div 2))"
    "content o' dhcpT2value = Some (be_bytes 4 (7 * be_val l div 8))"
    unfolding o(2) by (rule with_defaults_timers [OF assms(9,10,7)])
  have b: "be_val l < 4294967296" using be_val_less [of l] l(2) by simp
  then have "be_val (be_bytes 4 (be_val l div 2)) = be_val l div 2"
    "be_val (be_bytes 4 (7 * be_val l div 8)) = 7 * be_val l div 8" by (simp_all add: be_val_be_bytes)
  then show ?thesis using o(1) l by force
qed

theorem renewal_times_ordered_witness:
  "\<exists>t m' o' t1 t2. parseDhcpMsgRecv [255, 255, 255, 255] [0, 0, 0, 0] 42 sample_reply releaseDhcpOptions = Some (t, m', o')
    \<and> content o' dhcpT1value = Some t1 \<and> content o' dhcpT2value = Some t2 \<and> be_val t1 \<le> be_val t2"
proof -
  have "map_of (rev [(53, [5]), (51, [0, 0, 14, 16]), (1, [255, 255, 255, 0 :: byte])]) dhcpT1value = None"
    "map_of (rev [(53, [5]), (51, [0, 0, 14, 16]), (1, [255, 255, 255, 0 :: byte])]) dhcpT2value = None"
    by simp_all
  then show ?thesis
    using renewal_times_ordered
      [OF sample_reply_parts sample_reply_sizes(1) sample_reply_premises sample_reply_sizes(2-4)]
    by blast
qed

text \<open>
  A reply can make the client read outside an allocated value: the subnet mask is read as four bytes
  even if the server sent fewer than three, as in a reply with a mask of one byte and no broadcast address.
\<close>

theorem short_mask_overread:
  assumes "m = pre @ enc_option (subnetMask, [b]) @ endOption # post" and "length pre = d + 240"
  shows "parseDhcpMsgRecv nl sent d m releaseDhcpOptions = None"
proof -
  have n: "m ! (d + 240) = subnetMask" "m ! (d + 241) = 1" "m ! (d + 243) = endOption"
    "d + 243 < length m" "read_at (d + 242) 1 m = [b]"
    using assms by (simp_all add: enc_option_def nth_append read_at_def)
  have n': "m ! (240 + d) = subnetMask" "m ! (241 + d) = 1" "m ! (243 + d) = endOption"
    "read_at (242 + d) 1 m = [b]" using n by (simp_all add: add.commute)
  define o1 where "o1 = \<lparr>opt_num = 1, opt_len = (\<lambda>_. 0)(subnetMask := 1), opt_val = [subnetMask \<mapsto> [b, 0]]\<rparr>"
  have "parse_option m (d + 240) releaseDhcpOptions = Some o1"
    using n n' by (simp add: parse_option_def Let_def releaseDhcpOptions_def o1_def)
  then have "parse_loop m (d + 240) (d + 548) releaseDhcpOptions = parse_loop m (243 + d) (d + 548) o1"
    using n n' by (subst parse_loop.simps) simp
  then have o1: "parse_loop m (d + 240) (d + 548) releaseDhcpOptions = Some o1"
    using n n' by (subst (asm) (2) parse_loop.simps) simp
  have "default_broadcast y (default_mask y o') = None" if "default_dns (default_server_id src o1) = Some o'" for src y o'
  proof -
    have "opt_val o' subnetMask = Some [b, 0]" "opt_val o' broadcastAddr = None"
      using that by (auto simp: default_dns_def default_server_id_def alloc_def o1_def split: if_splits)
    then show ?thesis by (simp add: default_broadcast_def default_mask_def opt4_def)
  qed
  then show ?thesis
    by (cases "default_dns (default_server_id (read_at 26 4 (if read_at (d + 16) 4 m = [0, 0, 0, 0] then write_at (d + 16) sent m else m)) o1)")
      (simp_all add: parseDhcpMsgRecv_def o1 Let_def)
qed

theorem short_mask_overread_witness:
  "parseDhcpMsgRecv [255, 255, 255, 255] [0, 0, 0, 0] 42
     (replicate 282 0 @ enc_option (subnetMask, [255]) @ endOption # replicate 1228 0) releaseDhcpOptions = None"
  by (rule short_mask_overread [OF refl]) simp

end
