(* ===== verification/Udp_Ip.thy ===== *)
theory Udp_Ip
  imports Camera_Prelude
begin

text \<open>
  The UDP/IP headers of the DHCP client (\<^verbatim>\<open>dhcpcd-1.3.22-pl1/udpipgen.c\<close>): the Internet checksum
  \<open>in_cksum\<close>, the header generator \<open>udpipgen\<close> and the checker \<open>udpipchk\<close>, on the bytes of the packet.
  The main results are that a generated packet passes the check unchanged, and that the check finds every
  corruption of one byte of the data.
\<close>

unbundle bit_operations_syntax

section \<open>Definitions\<close>

abbreviation le16 :: "u16 \<Rightarrow> byte list" where "le16 w \<equiv> le_bytes 2 (unat w)"

text \<open>The bytes in memory of \<^verbatim>\<open>htons(n)\<close>, and the value of \<^verbatim>\<open>ntohs\<close> on two bytes.\<close>

abbreviation htons :: "nat \<Rightarrow> byte list" where "htons n \<equiv> be_bytes 2 n"
abbreviation ntohs :: "byte list \<Rightarrow> nat" where "ntohs bs \<equiv> be_val bs"

definition IPPROTO_UDP :: byte where "IPPROTO_UDP = 17"
definition IPDEFTTL :: byte where "IPDEFTTL = 64"
definition IPVERSION :: nat where "IPVERSION = 4"

definition ip_size :: nat where "ip_size = 20"
definition udphdr_size :: nat where "udphdr_size = 8"
definition udpiphdr_size :: nat where "udpiphdr_size = ip_size + udphdr_size"

text \<open>The words of a packet in memory, added up; an odd last byte counts for itself.\<close>

fun sum16 :: "byte list \<Rightarrow> nat" where
  "sum16 (a # b # bs) = unat a + 256 * unat b + sum16 bs"
| "sum16 [a] = unat a"
| "sum16 [] = 0"

definition in_cksum :: "byte list \<Rightarrow> u16" where
  "in_cksum bs =
     (let sum = sum16 bs;
          sum = sum div 65536 + sum mod 65536;
          sum = sum + sum div 65536
      in NOT (of_nat sum))"

text \<open>
  \<open>udpipgen\<close> on a packet and the identification counter.  The UDP checksum is computed over the packet with
  the pseudo header (\<^verbatim>\<open>struct ipovly\<close>) in place of the IP header.
\<close>

definition udp_part :: "u32 \<Rightarrow> u32 \<Rightarrow> byte list \<Rightarrow> byte list \<Rightarrow> nat \<Rightarrow> byte list \<Rightarrow> byte list" where
  "udp_part saddr daddr sport dport msglen buf =
     (let buf = write_at 0 (replicate 8 0) buf;
          buf = write_at 8 [0, IPPROTO_UDP] buf;
          buf = write_at 10 (htons (msglen + udphdr_size)) buf;
          buf = write_at 12 (le32 saddr) buf;
          buf = write_at 16 (le32 daddr) buf;
          buf = write_at 20 sport buf;
          buf = write_at 22 dport buf;
          buf = write_at 24 (read_at 10 2 buf) buf;
          buf = write_at 26 [0, 0] buf;
          sum = in_cksum (take (msglen + udpiphdr_size) buf);
          sum = (if sum = 0 then 0xFFFF else sum)
      in write_at 26 (le16 sum) buf)"

definition ip_part :: "u32 \<Rightarrow> u32 \<Rightarrow> nat \<Rightarrow> u16 \<Rightarrow> byte list \<Rightarrow> byte list" where
  "ip_part saddr daddr msglen ip_id ip =
     (let ip = write_at 0 [of_nat (16 * IPVERSION + 5), 0] ip;
          ip = write_at 2 (htons (msglen + udpiphdr_size)) ip;
          ip = write_at 4 (htons (unat ip_id)) ip;
          ip = write_at 6 [0, 0] ip;
          ip = write_at 8 [IPDEFTTL, IPPROTO_UDP] ip;
          ip = write_at 12 (le32 saddr) ip;
          ip = write_at 16 (le32 daddr) ip;
          ip = write_at 10 [0, 0] ip
      in write_at 10 (le16 (in_cksum ip)) ip)"

definition udpipgen ::
  "u32 \<Rightarrow> u32 \<Rightarrow> byte list \<Rightarrow> byte list \<Rightarrow> nat \<Rightarrow> byte list \<times> u16 \<Rightarrow> byte list \<times> u16" where
  "udpipgen saddr daddr sport dport msglen = (\<lambda>(buf, ip_id).
     (let buf = udp_part saddr daddr sport dport msglen buf;
          ip = ip_part saddr daddr msglen ip_id (read_at 0 ip_size buf)
      in (write_at 0 ip buf, ip_id + 1)))"

text \<open>
  \<open>udpipchk\<close>: the result and the packet afterwards.  With a header length below five words the header is
  moved in front of the packet, which is reported as \<open>Underrun\<close>.
\<close>

datatype chk = Chk int "byte list" | Underrun

definition ip_hl :: "byte list \<Rightarrow> nat" where
  "ip_hl buf = unat (buf ! 0) mod 16"

definition udpipchk :: "byte list \<Rightarrow> chk" where
  "udpipchk buf =
     (let hl = ip_hl buf * 4
      in if in_cksum (take hl buf) \<noteq> 0 then Chk (- 1) buf
         else if hl < ip_size then Underrun
         else let save_ip = read_at 0 ip_size buf;
                  n = hl - ip_size;
                  buf = write_at n save_ip buf
              in if read_at (n + 26) 2 buf = [0, 0] then Chk 0 buf
                 else let buf = write_at n (replicate 9 0) buf;
                          buf = write_at (n + 10) (read_at (n + 24) 2 buf) buf;
                          len = ntohs (read_at (n + 24) 2 buf) + ip_size
                      in if in_cksum (take len (drop n buf)) \<noteq> 0 then Chk (- 2) buf
                         else Chk 0 (write_at 0 save_ip buf))"

section \<open>The checksum\<close>

lemma sum16_append: "even (length xs) \<Longrightarrow> sum16 (xs @ ys) = sum16 xs + sum16 ys"
  by (induction xs rule: sum16.induct) auto

lemma sum16_bound: "sum16 bs \<le> 32768 * (length bs + 1)"
proof (induction bs rule: sum16.induct)
  case (1 a b bs)
  then show ?case using unat_byte_less [of a] unat_byte_less [of b] by simp
next
  case (2 a)
  then show ?case using unat_byte_less [of a] by simp
qed simp

text \<open>No overflow: the sum of a packet of at most 65534 bytes fits a signed int.\<close>

lemma sum16_int: "length bs < 65535 \<Longrightarrow> sum16 bs < 2147483648"
  using sum16_bound [of bs] by simp

lemma sum16_write_at:
  assumes "even k" "even (length xs)" "k + length xs \<le> length buf"
  shows "sum16 (write_at k xs buf) + sum16 (read_at k (length xs) buf) = sum16 buf + sum16 xs"
proof -
  have "buf = take k buf @ read_at k (length xs) buf @ drop (k + length xs) buf"
    by (simp add: read_at_def) (metis add.commute append_take_drop_id drop_drop)
  then have "sum16 buf = sum16 (take k buf) + (sum16 (read_at k (length xs) buf) + sum16 (drop (k + length xs) buf))"
    using assms by (metis add_leE length_read_at length_take min.absorb2 sum16_append)
  then show ?thesis using assms by (simp add: write_at_def sum16_append)
qed

definition fold16 :: "nat \<Rightarrow> nat" where
  "fold16 s = (let s = s div 65536 + s mod 65536 in (s + s div 65536) mod 65536)"

lemma fold16_cases:
  assumes "s < 4294967296"
  shows "fold16 s < 65536" "fold16 s mod 65535 = s mod 65535" "fold16 s = 0 \<longleftrightarrow> s = 0"
proof -
  define h l where "h = s div 65536" and "l = s mod 65536"
  have s: "s = 65536 * h + l" by (simp add: h_def l_def)
  have b: "h < 65536" "l < 65536" using assms by (simp_all add: h_def l_def)
  have m: "s mod 65535 = (h + l) mod 65535"
  proof -
    have "s = 65535 * h + (h + l)" using s by simp
    then show ?thesis by (metis mod_mult_self4)
  qed
  show "fold16 s < 65536" by (simp add: fold16_def Let_def)
  show "fold16 s mod 65535 = s mod 65535"
  proof (cases "h + l < 65536")
    case True
    then show ?thesis by (simp add: fold16_def Let_def h_def [symmetric] l_def [symmetric] m)
  next
    case False
    then have "(h + l) div 65536 = 1" using b by (simp add: div_nat_eqI)
    moreover have "(h + l + 1) mod 65536 = h + l + 1 - 65536" using False b by (simp add: mod_if)
    ultimately have "fold16 s = h + l - 65535"
      by (simp add: fold16_def Let_def h_def [symmetric] l_def [symmetric])
    then show ?thesis using False by (simp add: m le_mod_geq)
  qed
  show "fold16 s = 0 \<longleftrightarrow> s = 0"
  proof (cases "h + l < 65536")
    case True
    then show ?thesis by (simp add: fold16_def Let_def h_def [symmetric] l_def [symmetric] s)
  next
    case False
    then have "(h + l) div 65536 = 1" using b by (simp add: div_nat_eqI)
    moreover have "(h + l + 1) mod 65536 = h + l + 1 - 65536" using False b by (simp add: mod_if)
    ultimately have "fold16 s = h + l - 65535"
      by (simp add: fold16_def Let_def h_def [symmetric] l_def [symmetric])
    moreover have "0 < h + l - 65535" "0 < s" using False s by linarith+
    ultimately show ?thesis by simp
  qed
qed

lemma unat_not_of_nat: "unat (NOT (of_nat n :: u16)) = 65535 - n mod 65536"
proof -
  have "NOT (of_nat n :: u16) = - 1 - of_nat n" by (simp add: not_eq_complement)
  also have "\<dots> = - 1 - of_nat (n mod 65536)" by (simp add: word_of_nat_eq_iff take_bit_eq_mod)
  also have "\<dots> = of_nat 65535 - of_nat (n mod 65536)" by simp
  also have "\<dots> = of_nat (65535 - n mod 65536)" by (rule of_nat_diff [symmetric]) simp
  finally show ?thesis by (simp only: unat_of_nat) simp
qed

lemma unat_in_cksum: "unat (in_cksum bs) = 65535 - fold16 (sum16 bs)"
  by (simp only: in_cksum_def Let_def fold16_def unat_not_of_nat)

lemma in_cksum_zero_iff:
  assumes "sum16 bs < 4294967296"
  shows "in_cksum bs = 0 \<longleftrightarrow> 0 < sum16 bs \<and> 65535 dvd sum16 bs"
proof -
  note f = fold16_cases [OF assms]
  have "in_cksum bs = 0 \<longleftrightarrow> unat (in_cksum bs) = 0" by (simp add: unat_eq_0)
  also have "\<dots> \<longleftrightarrow> fold16 (sum16 bs) = 65535" using f(1) unat_in_cksum [of bs] by linarith
  also have "\<dots> \<longleftrightarrow> 0 < sum16 bs \<and> 65535 dvd sum16 bs"
  proof
    assume "fold16 (sum16 bs) = 65535"
    then show "0 < sum16 bs \<and> 65535 dvd sum16 bs" using f(2,3) by (simp add: dvd_eq_mod_eq_0)
  next
    assume "0 < sum16 bs \<and> 65535 dvd sum16 bs"
    then have "fold16 (sum16 bs) mod 65535 = 0" "0 < fold16 (sum16 bs)" using f(2,3) by (simp_all add: dvd_eq_mod_eq_0)
    then show "fold16 (sum16 bs) = 65535" using f(1) by (auto simp: mod_eq_0_iff_dvd elim!: dvdE)
  qed
  finally show ?thesis .
qed

text \<open>The checksum completes the sum to a positive multiple of 65535; so does 65535 in place of a zero.\<close>

lemma in_cksum_completes:
  assumes "sum16 bs < 4294967296"
  shows "65535 dvd sum16 bs + unat (in_cksum bs)" "0 < sum16 bs + unat (in_cksum bs)"
proof -
  note f = fold16_cases [OF assms]
  have "(sum16 bs + (65535 - fold16 (sum16 bs))) mod 65535 = (fold16 (sum16 bs) + (65535 - fold16 (sum16 bs))) mod 65535"
    using f(2) by (metis mod_add_left_eq)
  then show "65535 dvd sum16 bs + unat (in_cksum bs)"
    using f(1) by (simp add: unat_in_cksum dvd_eq_mod_eq_0)
  show "0 < sum16 bs + unat (in_cksum bs)"
    using f(1,3) by (auto simp: unat_in_cksum)
qed

section \<open>Generated headers\<close>

lemma write_at_front: "length p = k \<Longrightarrow> write_at k xs (p @ r) = p @ xs @ drop (length xs) r"
  by (simp add: write_at_def)

lemma read_at_middle: "length p = k \<Longrightarrow> length m = n \<Longrightarrow> read_at k n (p @ m @ r) = m"
  by (simp add: read_at_def)

definition pseudo_header :: "u32 \<Rightarrow> u32 \<Rightarrow> nat \<Rightarrow> byte list" where
  "pseudo_header saddr daddr msglen =
     (replicate 8 0 @ [0, 17] @ htons (msglen + 8)) @ le32 saddr @ le32 daddr"

lemma length_pseudo_header [simp]: "length (pseudo_header saddr daddr msglen) = 20"
  by (simp add: pseudo_header_def)

definition udp_sum :: "byte list \<Rightarrow> byte list \<Rightarrow> nat \<Rightarrow> byte list \<Rightarrow> u16" where
  "udp_sum ph ports msglen data =
     (let sum = in_cksum (ph @ ports @ htons (msglen + 8) @ [0, 0] @ take msglen data)
      in if sum = 0 then 0xFFFF else sum)"

lemma udp_part_eq:
  fixes saddr daddr :: u32 and msglen :: nat
  assumes "length sport = 2" "length dport = 2" "28 \<le> length buf"
  defines "ph \<equiv> pseudo_header saddr daddr msglen"
  shows "udp_part saddr daddr sport dport msglen buf =
    ph @ (sport @ dport @ htons (msglen + 8) @ le16 (udp_sum ph (sport @ dport) msglen (drop 28 buf))) @ drop 28 buf"
proof -
  let ?a = "replicate 8 0 @ [0, 17 :: byte]" and ?l = "htons (msglen + 8)"
  have 1: "write_at 0 (replicate 8 0) buf = replicate 8 0 @ drop 8 buf"
    by (simp add: write_at_def)
  have 2: "write_at 8 [0, IPPROTO_UDP] (replicate 8 0 @ drop 8 buf) = ?a @ drop 10 buf"
    by (subst write_at_front) (simp_all add: IPPROTO_UDP_def)
  have 3: "write_at 10 (htons (msglen + udphdr_size)) (?a @ drop 10 buf) = (?a @ ?l) @ drop 12 buf"
    by (subst write_at_front) (simp_all add: udphdr_size_def)
  have 4: "write_at 12 (le32 saddr) ((?a @ ?l) @ drop 12 buf) = ((?a @ ?l) @ le32 saddr) @ drop 16 buf"
    by (subst write_at_front) simp_all
  have 5: "write_at 16 (le32 daddr) (((?a @ ?l) @ le32 saddr) @ drop 16 buf) = ph @ drop 20 buf"
    by (subst write_at_front) (simp_all add: ph_def pseudo_header_def)
  have 6: "write_at 20 sport (ph @ drop 20 buf) = (ph @ sport) @ drop 22 buf"
    using assms by (subst write_at_front) simp_all
  have 7: "write_at 22 dport ((ph @ sport) @ drop 22 buf) = (ph @ sport @ dport) @ drop 24 buf"
    using assms by (subst write_at_front) simp_all
  have 8: "read_at 10 2 ((ph @ sport @ dport) @ drop 24 buf) = ?l"
    by (simp add: ph_def pseudo_header_def read_at_def)
  have 9: "write_at 24 ?l ((ph @ sport @ dport) @ drop 24 buf) = (ph @ sport @ dport @ ?l) @ drop 26 buf"
    using assms by (subst write_at_front) simp_all
  have 10: "write_at 26 z ((ph @ sport @ dport @ ?l) @ r) = (ph @ sport @ dport @ ?l) @ z @ drop (length z) r" for z r
    using assms by (subst write_at_front) simp_all
  have 11: "take (msglen + 28) ((ph @ sport @ dport @ ?l) @ [0, 0] @ drop 28 buf)
      = ph @ (sport @ dport) @ ?l @ [0, 0] @ take msglen (drop 28 buf)"
    using assms by simp
  show ?thesis
    unfolding udp_part_def Let_def 1 2 3 4 5 6 7 8 9 10
    using 11 by (simp add: udp_sum_def Let_def udpiphdr_size_def ip_size_def udphdr_size_def)
qed

definition ip_base :: "u32 \<Rightarrow> u32 \<Rightarrow> nat \<Rightarrow> u16 \<Rightarrow> byte list" where
  "ip_base saddr daddr msglen ip_id =
     ([0x45, 0] @ htons (msglen + 28) @ htons (unat ip_id) @ [0, 0, 64, 17]) @ [0, 0] @ le32 saddr @ le32 daddr"

definition ip_header :: "u32 \<Rightarrow> u32 \<Rightarrow> nat \<Rightarrow> u16 \<Rightarrow> byte list" where
  "ip_header saddr daddr msglen ip_id =
     ([0x45, 0] @ htons (msglen + 28) @ htons (unat ip_id) @ [0, 0, 64, 17])
     @ le16 (in_cksum (ip_base saddr daddr msglen ip_id)) @ le32 saddr @ le32 daddr"

lemma length_ip_header [simp]: "length (ip_header saddr daddr msglen ip_id) = 20"
  by (simp add: ip_header_def)

lemma ip_part_eq:
  assumes "length ip = 20"
  shows "ip_part saddr daddr msglen ip_id ip = ip_header saddr daddr msglen ip_id"
proof -
  let ?t = "htons (msglen + 28)" and ?i = "htons (unat ip_id)"
  let ?h = "[0x45, 0] @ ?t @ ?i @ [0, 0, 64, 17]"
  have 1: "write_at 0 [of_nat (16 * IPVERSION + 5), 0] ip = [0x45, 0] @ drop 2 ip"
    by (simp add: write_at_def IPVERSION_def numeral_2_eq_2)
  have 2: "write_at 2 ?t ([0x45, 0] @ drop 2 ip) = ([0x45, 0] @ ?t) @ drop 4 ip"
    by (subst write_at_front) simp_all
  have 3: "write_at 4 ?i (([0x45, 0] @ ?t) @ drop 4 ip) = ([0x45, 0] @ ?t @ ?i) @ drop 6 ip"
    by (subst write_at_front) simp_all
  have 4: "write_at 6 [0, 0] (([0x45, 0] @ ?t @ ?i) @ drop 6 ip) = ([0x45, 0] @ ?t @ ?i @ [0, 0]) @ drop 8 ip"
    by (subst write_at_front) simp_all
  have 5: "write_at 8 [IPDEFTTL, IPPROTO_UDP] (([0x45, 0] @ ?t @ ?i @ [0, 0]) @ drop 8 ip) = ?h @ drop 10 ip"
    by (subst write_at_front) (simp_all add: IPDEFTTL_def IPPROTO_UDP_def)
  have d: "drop 2 (drop 10 ip) = drop 12 ip" by simp
  have "drop 10 ip = take 2 (drop 10 ip) @ drop 12 ip"
    unfolding d [symmetric] by (rule append_take_drop_id [symmetric])
  then have 6: "write_at 12 (le32 saddr) (?h @ drop 10 ip) = (?h @ take 2 (drop 10 ip) @ le32 saddr) @ drop 16 ip"
    using assms write_at_front [of "?h @ take 2 (drop 10 ip)" 12 "le32 saddr" "drop 12 ip"] by simp
  have 7: "write_at 16 (le32 daddr) ((?h @ take 2 (drop 10 ip) @ le32 saddr) @ drop 16 ip)
      = ?h @ take 2 (drop 10 ip) @ le32 saddr @ le32 daddr"
    using assms by (subst write_at_front) simp_all
  have 8: "write_at 10 z (?h @ m @ le32 saddr @ le32 daddr) = ?h @ z @ le32 saddr @ le32 daddr"
    if "length z = 2" "length m = 2" for z m
    using that by (subst write_at_front) simp_all
  have l: "length (take 2 (drop 10 ip)) = 2" using assms by simp
  have z: "length [0, 0 :: byte] = 2" "length (le16 w) = 2" for w by simp_all
  have u: "udpiphdr_size = 28" by (simp add: udpiphdr_size_def ip_size_def udphdr_size_def)
  show ?thesis
    unfolding ip_part_def Let_def u 1 2 3 4 5 6 7 8 [OF z(1) l] 8 [OF z(2,1)]
    by (simp only: ip_header_def ip_base_def)
qed

lemma udpipgen_eq:
  fixes saddr daddr :: u32 and msglen :: nat
  assumes "length sport = 2" "length dport = 2" "28 \<le> length buf"
  defines "ph \<equiv> pseudo_header saddr daddr msglen"
  shows "udpipgen saddr daddr sport dport msglen (buf, ip_id) =
    (ip_header saddr daddr msglen ip_id @ (sport @ dport @ htons (msglen + 8)
       @ le16 (udp_sum ph (sport @ dport) msglen (drop 28 buf))) @ drop 28 buf, ip_id + 1)"
proof -
  have "read_at 0 ip_size (ph @ r) = ph" for r by (simp add: read_at_def ip_size_def ph_def)
  then show ?thesis
    using assms unfolding ph_def
    by (simp add: udpipgen_def Let_def udp_part_eq ip_part_eq write_at_def)
qed


section \<open>Checking\<close>

lemma sum16_le_bytes2: "sum16 (le16 w) = unat w"
proof -
  have "sum16 (le16 w) = unat w mod 256 + 256 * (unat w div 256 mod 256)"
    by (simp only: numeral_2_eq_2 le_bytes.simps sum16.simps unat_of_nat_byte add_0_right)
  moreover have "unat w div 256 < 256" using unsigned_less [of w] by (simp add: div_less_iff_less_mult)
  ultimately show ?thesis by simp
qed

lemma in_cksum_ip_header: "in_cksum (ip_header saddr daddr msglen ip_id) = 0"
proof -
  let ?b = "ip_base saddr daddr msglen ip_id" and ?h = "ip_header saddr daddr msglen ip_id"
  have "sum16 ?h = sum16 ?b + unat (in_cksum ?b)"
    by (simp add: ip_header_def ip_base_def sum16_append sum16_le_bytes2)
  moreover have "sum16 ?b < 4294967296" "sum16 ?h < 4294967296"
    using sum16_bound [of ?b] sum16_bound [of ?h] by (simp_all add: ip_base_def)
  ultimately show ?thesis using in_cksum_completes [of ?b] in_cksum_zero_iff [of ?h] by simp
qed

lemma udp_sum_nonzero: "udp_sum ph ports msglen data \<noteq> 0"
  by (simp add: udp_sum_def Let_def)

text \<open>The sum over the pseudo header, the UDP header and the data is a positive multiple of 65535.\<close>

lemma udp_sum_completes:
  assumes "length ph = 20" "length ports = 4" "msglen \<le> length data" "msglen + 28 < 65535"
  defines "p \<equiv> ph @ ports @ htons (msglen + 8) @ le16 (udp_sum ph ports msglen data) @ take msglen data"
  shows "65535 dvd sum16 p" "0 < sum16 p"
proof -
  let ?z = "ph @ ports @ htons (msglen + 8) @ [0, 0] @ take msglen data"
  have "sum16 ?z < 4294967296" using sum16_int [of ?z] assms by simp
  note c = in_cksum_completes [OF this]
  have "sum16 p = sum16 ?z + unat (udp_sum ph ports msglen data)"
    using assms(1,2) by (simp add: p_def sum16_append sum16_le_bytes2)
  moreover have "unat (udp_sum ph ports msglen data) = (if in_cksum ?z = 0 then 65535 else unat (in_cksum ?z))"
    by (simp add: udp_sum_def Let_def)
  ultimately show "65535 dvd sum16 p" "0 < sum16 p" using c by (simp_all split: if_splits)
qed

text \<open>The steps of the check on a packet with a header of five words.\<close>

lemma udpipchk_plain:
  fixes r :: "byte list"
  assumes "length h = 20" "length u = 8" "h ! 0 = 0x45" "h ! 9 = 17" "in_cksum h = 0" "drop 6 u \<noteq> [0, 0]"
  defines "len \<equiv> ntohs (read_at 4 2 u)"
  defines "p \<equiv> (replicate 9 0 @ [17] @ read_at 4 2 u @ drop 12 h) @ u @ r"
  shows "udpipchk (h @ u @ r) = (if in_cksum (take (len + 20) p) \<noteq> 0 then Chk (- 2) p else Chk 0 (h @ u @ r))"
proof -
  have hl: "ip_hl (h @ u @ r) * 4 = 20" using assms(1,3) by (simp add: ip_hl_def nth_append)
  have t: "take 20 (h @ u @ r) = h" "read_at 0 20 (h @ u @ r) = h" "write_at 0 h (h @ u @ r) = h @ u @ r"
    using assms(1) by (simp_all add: read_at_def write_at_def)
  have s: "read_at 26 2 (h @ u @ r) = drop 6 u" using assms(1,2) by (simp add: read_at_def)
  have s4: "read_at 24 2 (g @ u @ r) = read_at 4 2 u" if "length g = 20" for g
    using assms(1,2) that by (simp add: read_at_def)
  have w1: "write_at 0 (replicate 9 0) (h @ u @ r) = (replicate 9 0 @ drop 9 h) @ u @ r"
    using assms(1) by (simp add: write_at_def)
  have d9: "drop 9 h = 17 # drop 10 h" using assms(1,4) Cons_nth_drop_Suc [of 9 h] by simp
  have w2: "write_at 10 l ((replicate 9 0 @ drop 9 h) @ u @ r) = (replicate 9 0 @ [17] @ l @ drop 12 h) @ u @ r"
    if "length l = 2" for l
    using assms(1) that write_at_front [of "replicate 9 0 @ [17]" 10 l "drop 10 h @ u @ r"] by (simp add: d9)
  have l: "length (read_at 4 2 u) = 2" "length (replicate 9 0 @ drop 9 h) = 20"
    "length (replicate 9 0 @ [17] @ read_at 4 2 u @ drop 12 h) = 20" using assms(1,2) by simp_all
  have w3: "write_at 0 h p = h @ u @ r" using l(3) assms(1) by (simp add: p_def write_at_def)
  have c: "\<not> (20 :: nat) < 20" "(20 :: nat) - 20 = 0" "0 + n = (n :: nat)" for n by simp_all
  note w2' = w2 [OF l(1), folded p_def]
  have s4p: "read_at 24 2 p = read_at 4 2 u" unfolding p_def by (rule s4 [OF l(3)])
  show ?thesis
    unfolding udpipchk_def Let_def hl ip_size_def c t s w1 s4 [OF l(2)] w2' s4p
      len_def [symmetric] w3
    using assms(5,6) by simp
qed

text \<open>A changed byte changes the sum by less than 65535.\<close>

lemma sum16_update:
  "i < length xs \<Longrightarrow>
   int (sum16 (xs[i := v])) - int (sum16 xs) = (if even i then 1 else 256) * (int (unat v) - int (unat (xs ! i)))"
proof (induction xs arbitrary: i rule: sum16.induct)
  case (1 a b bs)
  show ?case
  proof (cases i)
    case (Suc j)
    then show ?thesis using 1 by (cases j) (simp_all split: if_splits)
  qed simp
qed simp_all

lemma sum16_update_detected:
  assumes "i < length xs" "v \<noteq> xs ! i" "65535 dvd sum16 xs"
  shows "\<not> 65535 dvd sum16 (xs[i := v])"
proof
  assume "65535 dvd sum16 (xs[i := v])"
  then have "(65535 :: int) dvd int (sum16 (xs[i := v])) - int (sum16 xs)"
    using assms(3) by (intro dvd_diff) (metis int_dvd_int_iff of_nat_numeral)+
  moreover define d where "d = int (unat v) - int (unat (xs ! i))"
  ultimately have "(65535 :: int) dvd (if even i then 1 else 256) * d"
    using sum16_update [OF assms(1), of v] by simp
  moreover have "\<bar>d\<bar> \<le> 255" using unat_byte_less [of v] unat_byte_less [of "xs ! i"] by (simp only: d_def)
  moreover have "d \<noteq> 0" using assms(2) by (auto simp: d_def dest: unsigned_word_eqI)
  ultimately show False
    using dvd_imp_le_int [of "(if even i then 1 else 256) * d" 65535] by (simp add: abs_mult split: if_splits)
qed

text \<open>The packet that \<open>udpipgen\<close> makes, in three parts.\<close>

definition packet_parts :: "byte list \<Rightarrow> nat \<Rightarrow> byte list \<Rightarrow> byte list \<Rightarrow> byte list \<Rightarrow> bool" where
  "packet_parts ph msglen data h u \<longleftrightarrow>
     (\<forall>r. udpipchk (h @ u @ r) =
       (if in_cksum (take (msglen + 28) ((ph @ u) @ r)) \<noteq> 0 then Chk (- 2) ((ph @ u) @ r) else Chk 0 (h @ u @ r)))
     \<and> 65535 dvd sum16 (ph @ u @ take msglen data) \<and> 0 < sum16 (ph @ u @ take msglen data)
     \<and> length h = 20 \<and> length u = 8"

lemma generated_packet:
  assumes "length sport = 2" "length dport = 2" "msglen + 28 \<le> length buf" "msglen + 28 < 65535"
  obtains h u where "fst (udpipgen saddr daddr sport dport msglen (buf, ip_id)) = h @ u @ drop 28 buf"
    "packet_parts (pseudo_header saddr daddr msglen) msglen (drop 28 buf) h u"
proof -
  define ph where "ph = pseudo_header saddr daddr msglen"
  define h where "h = ip_header saddr daddr msglen ip_id"
  define s where "s = udp_sum ph (sport @ dport) msglen (drop 28 buf)"
  define u where "u = sport @ dport @ htons (msglen + 8) @ le16 s"
  have l: "length h = 20" "length u = 8" "length ph = 20" using assms by (simp_all add: h_def u_def ph_def)
  have h: "h ! 0 = 0x45" "h ! 9 = 17" "in_cksum h = 0"
    by (simp_all add: h_def in_cksum_ip_header) (simp_all add: ip_header_def nth_append)
  have "sum16 (le16 s) \<noteq> 0" using udp_sum_nonzero by (simp add: sum16_le_bytes2 s_def unat_eq_0)
  then have z: "drop 6 u \<noteq> [0, 0]" using assms by (auto simp: u_def)
  have r: "read_at 4 2 u = htons (msglen + 8)" using assms by (simp add: u_def read_at_def)
  have n: "ntohs (htons (msglen + 8)) + 20 = msglen + 28" using assms by (simp add: be_val_be_bytes)
  have "drop 12 h = le32 saddr @ le32 daddr" by (simp add: h_def ip_header_def)
  then have p: "(replicate 9 0 @ [17] @ htons (msglen + 8) @ drop 12 h) @ u @ r = (ph @ u) @ r" for r
    by (simp add: ph_def pseudo_header_def replicate_add [of 8 1, simplified])
  have "length (sport @ dport) = 4" "msglen \<le> length (drop 28 buf)" using assms by simp_all
  note c = udp_sum_completes [OF l(3) this assms(4), folded s_def]
  have e: "ph @ (sport @ dport) @ htons (msglen + 8) @ le16 s @ r = ph @ u @ r" for r by (simp add: u_def)
  note k = udpipchk_plain [OF l(1,2) h z, unfolded r n p]
  have "fst (udpipgen saddr daddr sport dport msglen (buf, ip_id)) = h @ u @ drop 28 buf"
    using assms by (simp add: udpipgen_eq h_def u_def s_def ph_def)
  moreover have "packet_parts ph msglen (drop 28 buf) h u"
    unfolding packet_parts_def using k c [unfolded e] l(1,2) by blast
  ultimately show ?thesis unfolding ph_def by (rule that)
qed

lemma udpipgen_accepted:
  assumes "length sport = 2" and "length dport = 2" and "msglen + 28 \<le> length buf" and "msglen + 28 < 65535"
  shows "udpipchk (fst (udpipgen saddr daddr sport dport msglen (buf, ip_id)))
    = Chk 0 (fst (udpipgen saddr daddr sport dport msglen (buf, ip_id)))"
proof -
  obtain h u where g: "fst (udpipgen saddr daddr sport dport msglen (buf, ip_id)) = h @ u @ drop 28 buf"
    and k: "packet_parts (pseudo_header saddr daddr msglen) msglen (drop 28 buf) h u"
    by (rule generated_packet [OF assms, of saddr daddr ip_id])
  let ?p = "pseudo_header saddr daddr msglen @ u @ take msglen (drop 28 buf)"
  have "take (msglen + 28) ((pseudo_header saddr daddr msglen @ u) @ drop 28 buf) = ?p" using k by (simp add: packet_parts_def)
  moreover have "sum16 ?p < 4294967296" using sum16_int [of ?p] k assms(3,4) by (simp add: packet_parts_def)
  ultimately show ?thesis using g k in_cksum_zero_iff [of ?p] by (simp add: packet_parts_def)
qed

section \<open>Properties\<close>

text \<open>
  C29. A generated packet passes the check: for every data, addresses, ports and identification, the
  packet that \<open>udpipgen\<close> makes has a correct IP header checksum and a correct UDP checksum for
  \<open>udpipchk\<close>, which leaves it as it is.
\<close>

theorem udpipchk_accepts_udpipgen:
  assumes "length sport = 2" and "length dport = 2" and "msglen + 28 \<le> length buf" and "msglen + 28 < 65535"
  shows "udpipchk (fst (udpipgen saddr daddr sport dport msglen (buf, ip_id)))
    = Chk 0 (fst (udpipgen saddr daddr sport dport msglen (buf, ip_id)))"
  by (rule udpipgen_accepted [OF assms])

theorem udpipchk_accepts_udpipgen_witness:
  "udpipchk (fst (udpipgen 0 0xFFFFFFFF [0, 68] [0, 67] 2 (replicate 40 7, 9)))
    = Chk 0 (fst (udpipgen 0 0xFFFFFFFF [0, 68] [0, 67] 2 (replicate 40 7, 9)))"
  using udpipchk_accepts_udpipgen [of "[0, 68]" "[0, 67]" 2 "replicate 40 7" 0 "0xFFFFFFFF" 9] by simp

text \<open>
  The check finds every corruption of one byte: if one byte of the data of a generated packet is
  replaced by another value, \<open>udpipchk\<close> returns -2.
\<close>

theorem udpipchk_detects_corruption:
  assumes "length sport = 2" and "length dport = 2" and "msglen + 28 \<le> length buf" and "msglen + 28 < 65535"
    and "i < msglen" and "v \<noteq> buf ! (28 + i)"
  shows "\<exists>p. udpipchk ((fst (udpipgen saddr daddr sport dport msglen (buf, ip_id)))[28 + i := v]) = Chk (- 2) p"
proof -
  obtain h u where g: "fst (udpipgen saddr daddr sport dport msglen (buf, ip_id)) = h @ u @ drop 28 buf"
    and k: "packet_parts (pseudo_header saddr daddr msglen) msglen (drop 28 buf) h u"
    by (rule generated_packet [OF assms(1-4), of saddr daddr ip_id])
  define r where "r = (drop 28 buf)[i := v]"
  let ?p = "pseudo_header saddr daddr msglen @ u @ take msglen (drop 28 buf)"
  have b: "(h @ u @ drop 28 buf)[28 + i := v] = h @ u @ r"
    using k by (simp add: packet_parts_def list_update_append r_def)
  have t: "take (msglen + 28) ((pseudo_header saddr daddr msglen @ u) @ r) = ?p[28 + i := v]"
    using k assms(5) by (simp add: packet_parts_def list_update_append r_def take_update_swap)
  have d: "65535 dvd sum16 ?p" using k by (simp add: packet_parts_def)
  have "\<not> 65535 dvd sum16 (?p[28 + i := v])"
    using sum16_update_detected [OF _ _ d, of "28 + i" v] k assms(3,5,6) by (simp add: packet_parts_def nth_append)
  moreover have "sum16 (?p[28 + i := v]) < 4294967296" using sum16_int [of "?p[28 + i := v]"] k assms(3,4) by (simp add: packet_parts_def)
  ultimately have "in_cksum (take (msglen + 28) ((pseudo_header saddr daddr msglen @ u) @ r)) \<noteq> 0"
    using in_cksum_zero_iff unfolding t by blast
  then show ?thesis using k unfolding g b packet_parts_def by simp
qed

theorem udpipchk_detects_corruption_witness:
  "\<exists>p. udpipchk ((fst (udpipgen 0 0xFFFFFFFF [0, 68] [0, 67] 2 (replicate 40 7, 9)))[28 + 1 := 8]) = Chk (- 2) p"
  by (rule udpipchk_detects_corruption) simp_all

text \<open>
  A header length below five words is not refused: the four bytes 41 00 BE FF have a correct header
  checksum over their own length of one word, and the header is then moved in front of the packet.
\<close>

theorem udpipchk_underrun:
  "udpipchk ([0x41, 0x00, 0xBE, 0xFF] @ rest) = Underrun"
proof -
  have "sum16 [0x41, 0x00, 0xBE, 0xFF] = 65535" by simp
  then have "in_cksum [0x41, 0x00, 0xBE, 0xFF] = 0" by (subst in_cksum_zero_iff) (simp_all only:, simp_all)
  then show ?thesis by (simp add: udpipchk_def ip_hl_def ip_size_def Let_def)
qed

end
