(* ===== verification/Dhcp_Message.thy ===== *)
theory Dhcp_Message
  imports Dhcp_Options Udp_Ip
begin

text \<open>
  The messages of the DHCP client (\<^verbatim>\<open>dhcpcd-1.3.22-pl1/buildmsg.c\<close>): the Ethernet frame that each of the
  eight builders leaves in \<^verbatim>\<open>UdpIpMsgSend\<close>.  Frames are lists of 1514 bytes; the DHCP message starts at
  offset 42, its option field at 278.  A builder that reads the server identifier has the result
  \<^const>\<open>None\<close> when there is none.
\<close>

section \<open>Definitions\<close>

definition ETH_ALEN :: nat where "ETH_ALEN = 6"
definition CLASS_ID_MAX_LEN :: nat where "CLASS_ID_MAX_LEN = 48"
definition CLIENT_ID_MAX_LEN :: nat where "CLIENT_ID_MAX_LEN = 48"
definition MAC_BCAST_ADDR :: "byte list" where "MAC_BCAST_ADDR = replicate 6 0xFF"
definition INADDR_BROADCAST :: u32 where "INADDR_BROADCAST = 0xFFFFFFFF"
definition MAGIC_COOKIE :: nat where "MAGIC_COOKIE = 0x63825363"
definition BROADCAST_FLAG :: nat where "BROADCAST_FLAG = 0x8000"
definition DHCP_CLIENT_PORT :: nat where "DHCP_CLIENT_PORT = 68"
definition DHCP_SERVER_PORT :: nat where "DHCP_SERVER_PORT = 67"
definition IPPACKET_SIZE :: nat where "IPPACKET_SIZE = 1500"

text \<open>Sizes and offsets of \<^verbatim>\<open>struct dhcpMessage\<close> in the frame.\<close>

definition dhcpMessage_size :: nat where "dhcpMessage_size = 548"
definition frame_size :: nat where "frame_size = 14 + IPPACKET_SIZE"

definition DHCP_DISCOVER :: nat where "DHCP_DISCOVER = 1"
definition DHCP_OFFER :: nat where "DHCP_OFFER = 2"
definition DHCP_REQUEST :: nat where "DHCP_REQUEST = 3"
definition DHCP_DECLINE :: nat where "DHCP_DECLINE = 4"
definition DHCP_ACK :: nat where "DHCP_ACK = 5"
definition DHCP_NAK :: nat where "DHCP_NAK = 6"
definition DHCP_RELEASE :: nat where "DHCP_RELEASE = 7"
definition DHCP_INFORM :: nat where "DHCP_INFORM = 8"

text \<open>
  The interface data.  \<open>class_id\<close> and \<open>client_id\<close> are the arrays with what lies behind their ends if they
  are overrun.
\<close>

record dhcpInterface =
  version :: "byte list"
  ciaddr :: u32
  siaddr :: u32
  class_len :: nat
  client_len :: nat
  if_xid :: u32
  shaddr :: "byte list"
  class_id :: "byte list"
  client_id :: "byte list"

text \<open>The settings from the command line; the host name includes its terminating zero.\<close>

record dhcp_conf =
  HostName :: "byte list option"
  BeRFC1541 :: bool
  BroadcastResp :: bool
  nleaseTime :: "byte list"
  ClientHwAddr :: "byte list"

definition classIDsetup :: "byte list \<Rightarrow> dhcpInterface \<Rightarrow> dhcpInterface" where
  "classIDsetup uname i =
     i\<lparr>class_len := length uname,
       class_id := write_at 0 (take (CLASS_ID_MAX_LEN - 1) uname @ [0]) (class_id i)\<rparr>"

definition clientIDsetup :: "byte list option \<Rightarrow> dhcp_conf \<Rightarrow> dhcpInterface \<Rightarrow> dhcpInterface" where
  "clientIDsetup ClientID conf i =
     (case ClientID of
        Some cid \<Rightarrow> i\<lparr>client_id := write_at 0 ([dhcpClientIdentifier, of_nat (length cid + 1), 0] @ cid) (client_id i),
                     client_len := length cid + 3\<rparr>
      | None \<Rightarrow> i\<lparr>client_id := write_at 0 ([dhcpClientIdentifier, of_nat (ETH_ALEN + 1), 1] @ ClientHwAddr conf)
                                 (client_id i),
                 client_len := ETH_ALEN + 3\<rparr>)"

text \<open>Writing through the pointer \<open>p\<close>.\<close>

definition emit :: "byte list \<Rightarrow> nat \<times> byte list \<Rightarrow> nat \<times> byte list" where
  "emit xs = (\<lambda>(p, buf). (p + length xs, write_at p xs buf))"

definition put_options :: "byte list list \<Rightarrow> byte list \<Rightarrow> byte list" where
  "put_options chunks buf = snd (fold emit chunks (282, buf))"

text \<open>The Ethernet header and the fixed fields; \<open>timed\<close>: with elapsed time and broadcast flag.\<close>

definition dhcp_head :: "dhcp_conf \<Rightarrow> byte list \<Rightarrow> u32 \<Rightarrow> bool \<Rightarrow> byte list" where
  "dhcp_head conf dhost xid timed =
     (let buf = replicate frame_size 0;
          buf = write_at 0 dhost buf;
          buf = write_at 6 (ClientHwAddr conf) buf;
          buf = write_at 12 (htons 0x0800) buf;
          buf = write_at 42 [1, 1, of_nat ETH_ALEN] buf;
          buf = write_at 46 (le32 xid) buf;
          buf = (if timed then write_at 50 (htons 10) buf else buf);
          buf = (if timed \<and> BroadcastResp conf then write_at 52 (htons BROADCAST_FLAG) buf else buf);
          buf = write_at 70 (ClientHwAddr conf) buf
      in write_at 278 (be_bytes 4 MAGIC_COOKIE) buf)"

definition set_ciaddr :: "u32 \<Rightarrow> byte list \<Rightarrow> byte list" where
  "set_ciaddr a buf = write_at 54 (le32 a) buf"

text \<open>The options that several messages share.\<close>

definition type_chunk :: "nat \<Rightarrow> byte list" where
  "type_chunk t = [dhcpMessageType, 1, of_nat t]"

definition size_chunk :: "byte list" where
  "size_chunk = [dhcpMaxMsgSize, 2] @ htons dhcpMessage_size"

definition requested_chunk :: "u32 \<Rightarrow> byte list" where
  "requested_chunk a = [dhcpRequestedIPaddr, 4] @ le32 a"

definition param_chunk :: "byte list" where
  "param_chunk = [dhcpParamRequest, 14, subnetMask, routersOnSubnet, dns, hostName, domainName, rootPath,
     defaultIPTTL, broadcastAddr, performMaskDiscovery, performRouterDiscovery, staticRoute, nisDomainName,
     nisServers, ntpServers]"

definition host_chunk :: "dhcp_conf \<Rightarrow> byte list" where
  "host_chunk conf = (case HostName conf of None \<Rightarrow> [] | Some h \<Rightarrow> [hostName, of_nat (length h)] @ h)"

definition class_chunk :: "dhcpInterface \<Rightarrow> byte list" where
  "class_chunk i = [dhcpClassIdentifier, of_nat (class_len i)] @ take (class_len i) (class_id i @ client_id i)"

definition client_chunk :: "dhcpInterface \<Rightarrow> byte list" where
  "client_chunk i = take (client_len i) (client_id i)"

definition lease_chunk :: "dhcpOptions \<Rightarrow> byte list option" where
  "lease_chunk opts =
     (if opt_val opts dhcpIPaddrLeaseTime = None then Some []
      else map_option (\<lambda>l. [dhcpIPaddrLeaseTime, 4] @ l) (opt4 opts dhcpIPaddrLeaseTime))"

definition udp_send :: "u32 \<Rightarrow> u32 \<Rightarrow> byte list \<Rightarrow> u16 \<Rightarrow> byte list \<times> u16" where
  "udp_send saddr daddr buf ip_id =
     (let (pkt, ip_id) = udpipgen saddr daddr (htons DHCP_CLIENT_PORT) (htons DHCP_SERVER_PORT)
                           dhcpMessage_size (drop 14 buf, ip_id)
      in (take 14 buf @ pkt, ip_id))"

definition buildDhcpDiscover :: "dhcp_conf \<Rightarrow> dhcpInterface \<Rightarrow> u32 \<Rightarrow> u16 \<Rightarrow> byte list \<times> u16" where
  "buildDhcpDiscover conf i xid ip_id =
     (let buf = dhcp_head conf MAC_BCAST_ADDR xid True;
          buf = (if ciaddr i \<noteq> 0 \<and> BeRFC1541 conf then set_ciaddr (ciaddr i) buf else buf);
          buf = put_options [type_chunk DHCP_DISCOVER, size_chunk,
                  if ciaddr i \<noteq> 0 \<and> \<not> BeRFC1541 conf then requested_chunk (ciaddr i) else [],
                  [dhcpIPaddrLeaseTime, 4] @ nleaseTime conf, param_chunk, host_chunk conf, class_chunk i,
                  client_chunk i, [endOption]] buf
      in udp_send 0 INADDR_BROADCAST buf ip_id)"

definition buildDhcpRequest ::
  "dhcp_conf \<Rightarrow> dhcpInterface \<Rightarrow> dhcpOptions \<Rightarrow> u32 \<Rightarrow> u16 \<Rightarrow> (byte list \<times> u16) option" where
  "buildDhcpRequest conf i opts xid ip_id = do {
     sid \<leftarrow> opt4 opts dhcpServerIdentifier;
     lease \<leftarrow> lease_chunk opts;
     let buf = dhcp_head conf MAC_BCAST_ADDR xid True;
     let buf = (if BeRFC1541 conf then set_ciaddr (ciaddr i) buf else buf);
     let buf = put_options [type_chunk DHCP_REQUEST, size_chunk, [dhcpServerIdentifier, 4] @ sid,
                 if BeRFC1541 conf then [] else requested_chunk (ciaddr i), lease, param_chunk, host_chunk conf,
                 class_chunk i, client_chunk i, [endOption]] buf;
     Some (udp_send 0 INADDR_BROADCAST buf ip_id)}"

definition buildDhcpRenew ::
  "dhcp_conf \<Rightarrow> dhcpInterface \<Rightarrow> dhcpOptions \<Rightarrow> u32 \<Rightarrow> u16 \<Rightarrow> (byte list \<times> u16) option" where
  "buildDhcpRenew conf i opts xid ip_id = do {
     lease \<leftarrow> lease_chunk opts;
     let buf = set_ciaddr (ciaddr i) (dhcp_head conf (shaddr i) xid True);
     let buf = put_options [type_chunk DHCP_REQUEST, size_chunk, lease, param_chunk, host_chunk conf,
                 class_chunk i, client_chunk i, [endOption]] buf;
     Some (udp_send (ciaddr i) (siaddr i) buf ip_id)}"

definition buildDhcpRebind ::
  "dhcp_conf \<Rightarrow> dhcpInterface \<Rightarrow> dhcpOptions \<Rightarrow> u32 \<Rightarrow> u16 \<Rightarrow> (byte list \<times> u16) option" where
  "buildDhcpRebind conf i opts xid ip_id = do {
     lease \<leftarrow> lease_chunk opts;
     let buf = set_ciaddr (ciaddr i) (dhcp_head conf MAC_BCAST_ADDR xid True);
     let buf = put_options [type_chunk DHCP_REQUEST, size_chunk, lease, param_chunk, host_chunk conf,
                 class_chunk i, client_chunk i, [endOption]] buf;
     Some (udp_send (ciaddr i) INADDR_BROADCAST buf ip_id)}"

definition buildDhcpReboot :: "dhcp_conf \<Rightarrow> dhcpInterface \<Rightarrow> u32 \<Rightarrow> u16 \<Rightarrow> byte list \<times> u16" where
  "buildDhcpReboot conf i xid ip_id =
     (let buf = dhcp_head conf MAC_BCAST_ADDR xid True;
          buf = (if BeRFC1541 conf then set_ciaddr (ciaddr i) buf else buf);
          buf = put_options [type_chunk DHCP_REQUEST, size_chunk,
                  if BeRFC1541 conf then [] else requested_chunk (ciaddr i),
                  [dhcpIPaddrLeaseTime, 4] @ nleaseTime conf, param_chunk, host_chunk conf, class_chunk i,
                  client_chunk i, [endOption]] buf
      in udp_send 0 INADDR_BROADCAST buf ip_id)"

text \<open>The release copies the pointer to the server identifier, \<open>ptr\<close>, not the identifier.\<close>

definition buildDhcpRelease :: "dhcp_conf \<Rightarrow> dhcpInterface \<Rightarrow> u32 \<Rightarrow> u32 \<Rightarrow> u16 \<Rightarrow> byte list \<times> u16" where
  "buildDhcpRelease conf i ptr xid ip_id =
     (let buf = set_ciaddr (ciaddr i) (dhcp_head conf (shaddr i) xid False);
          buf = put_options [type_chunk DHCP_RELEASE, [dhcpServerIdentifier, 4] @ le32 ptr, client_chunk i,
                  [endOption]] buf
      in udp_send (ciaddr i) (siaddr i) buf ip_id)"

definition buildDhcpDecline ::
  "dhcp_conf \<Rightarrow> dhcpInterface \<Rightarrow> dhcpOptions \<Rightarrow> u32 \<Rightarrow> u16 \<Rightarrow> (byte list \<times> u16) option" where
  "buildDhcpDecline conf i opts xid ip_id = do {
     sid \<leftarrow> opt4 opts dhcpServerIdentifier;
     let buf = dhcp_head conf (shaddr i) xid False;
     let buf = (if BeRFC1541 conf then set_ciaddr (ciaddr i) buf else buf);
     let buf = put_options [type_chunk DHCP_DECLINE, [dhcpServerIdentifier, 4] @ sid,
                 if BeRFC1541 conf then [] else requested_chunk (ciaddr i), client_chunk i, [endOption]] buf;
     Some (udp_send 0 (siaddr i) buf ip_id)}"

definition buildDhcpInform :: "dhcp_conf \<Rightarrow> dhcpInterface \<Rightarrow> u32 \<Rightarrow> u32 \<Rightarrow> u16 \<Rightarrow> byte list \<times> u16" where
  "buildDhcpInform conf i inform_ipaddr xid ip_id =
     (let buf = set_ciaddr inform_ipaddr (dhcp_head conf MAC_BCAST_ADDR xid True);
          buf = put_options [type_chunk DHCP_INFORM, size_chunk, param_chunk, host_chunk conf, class_chunk i,
                  client_chunk i, [endOption]] buf
      in udp_send 0 INADDR_BROADCAST buf ip_id)"

section \<open>Frames\<close>

lemma write_at_append:
  assumes "p + length (xs @ ys) \<le> length buf"
  shows "write_at (p + length xs) ys (write_at p xs buf) = write_at p (xs @ ys) buf"
  using assms by (simp add: write_at_def add.assoc add.commute add.left_commute)

lemma fold_emit:
  "p + length (concat cs) \<le> length buf \<Longrightarrow>
   fold emit cs (p, buf) = (p + length (concat cs), write_at p (concat cs) buf)"
proof (induction cs arbitrary: p buf)
  case Nil
  then show ?case by (simp add: write_at_def)
next
  case (Cons c cs)
  then have "fold emit cs (p + length c, write_at p c buf)
      = (p + length c + length (concat cs), write_at (p + length c) (concat cs) (write_at p c buf))"
    by (intro Cons.IH) simp
  moreover have "emit c (p, buf) = (p + length c, write_at p c buf)" by (simp add: emit_def)
  ultimately show ?case using Cons.prems write_at_append [of p c "concat cs" buf] by (simp add: add.assoc)
qed

lemma put_options_eq:
  "length buf = 1514 \<Longrightarrow> length (concat cs) \<le> 1232 \<Longrightarrow> put_options cs buf = write_at 282 (concat cs) buf"
  by (simp add: put_options_def fold_emit)

lemma dhcp_head_facts:
  assumes "length dhost = 6" "length (ClientHwAddr conf) = 6"
  shows "length (dhcp_head conf dhost xid timed) = 1514"
    "read_at 278 4 (dhcp_head conf dhost xid timed) = be_bytes 4 MAGIC_COOKIE"
  using assms by (simp_all add: dhcp_head_def Let_def frame_size_def IPPACKET_SIZE_def ETH_ALEN_def read_at_write_at)

lemma set_ciaddr_facts:
  assumes "length buf = 1514"
  shows "length (set_ciaddr a buf) = 1514" "read_at 278 4 (set_ciaddr a buf) = read_at 278 4 buf"
  using assms by (simp_all add: set_ciaddr_def read_at_write_other)

text \<open>The headers that \<open>udpipgen\<close> adds do not touch the Ethernet header and the message.\<close>

lemma udp_send_frame:
  assumes "length buf = 1514"
  shows "length (fst (udp_send s d buf ip_id)) = 1514" "take 14 (fst (udp_send s d buf ip_id)) = take 14 buf"
    "drop 42 (fst (udp_send s d buf ip_id)) = drop 42 buf"
    "udpipchk (drop 14 (fst (udp_send s d buf ip_id))) = Chk 0 (drop 14 (fst (udp_send s d buf ip_id)))"
proof -
  define g where "g = udpipgen s d (htons DHCP_CLIENT_PORT) (htons DHCP_SERVER_PORT) dhcpMessage_size (drop 14 buf, ip_id)"
  have f: "fst (udp_send s d buf ip_id) = take 14 buf @ fst g"
    by (simp add: udp_send_def g_def Let_def split: prod.splits)
  obtain h where h: "fst g = h @ drop 28 (drop 14 buf)" "length h = 28"
    using assms udpipgen_eq [of "htons DHCP_CLIENT_PORT" "htons DHCP_SERVER_PORT" "drop 14 buf" s d dhcpMessage_size ip_id]
    by (simp add: g_def)
  have c: "udpipchk (fst g) = Chk 0 (fst g)"
    unfolding g_def using assms by (intro udpipgen_accepted) (simp_all add: dhcpMessage_size_def)
  show "length (fst (udp_send s d buf ip_id)) = 1514" "take 14 (fst (udp_send s d buf ip_id)) = take 14 buf"
    "drop 42 (fst (udp_send s d buf ip_id)) = drop 42 buf"
    "udpipchk (drop 14 (fst (udp_send s d buf ip_id))) = Chk 0 (drop 14 (fst (udp_send s d buf ip_id)))"
    using assms h c by (simp_all add: f)
qed

text \<open>A frame with correct checksums whose option field holds the cookie, the options \<open>os\<close> and the end.\<close>

definition good_frame :: "(byte \<times> byte list) list \<Rightarrow> byte list \<Rightarrow> bool" where
  "good_frame os frame \<longleftrightarrow>
     length frame = frame_size \<and> udpipchk (drop 14 frame) = Chk 0 (drop 14 frame)
     \<and> read_at 278 4 frame = be_bytes 4 MAGIC_COOKIE \<and> proper_options os
     \<and> length (concat (map enc_option os)) < 308
     \<and> read_at 282 (length (concat (map enc_option os)) + 1) frame = concat (map enc_option os) @ [endOption]"

lemma message_frame:
  assumes "length buf = 1514" "read_at 278 4 buf = be_bytes 4 MAGIC_COOKIE" "proper_options os"
    and "concat cs = concat (map enc_option os) @ [endOption]" "length (concat (map enc_option os)) < 308"
  shows "good_frame os (fst (udp_send s d (put_options cs buf) ip_id))"
proof -
  let ?b = "put_options cs buf"
  let ?f = "fst (udp_send s d ?b ip_id)"
  have b: "?b = write_at 282 (concat cs) buf" using assms by (intro put_options_eq) simp_all
  have l: "length ?b = 1514" using assms by (simp add: b)
  note u = udp_send_frame [OF l, of s d ip_id]
  have r: "read_at k n ?f = read_at k n ?b" if "42 \<le> k" for k n
  proof -
    have "drop k ?f = drop (k - 42) (drop 42 ?f)" "drop k ?b = drop (k - 42) (drop 42 ?b)" using that by simp_all
    then show ?thesis using u(3) by (simp only: read_at_def)
  qed
  have "read_at 278 4 ?f = read_at 278 4 ?b" "read_at 282 n ?f = read_at 282 n ?b" for n by (rule r; simp)+
  moreover have "read_at 278 4 ?b = read_at 278 4 buf" unfolding b
    using assms by (intro read_at_write_other) simp_all
  moreover have "read_at 282 (length (concat cs)) ?b = concat cs" unfolding b
    using assms by (intro read_at_write_at) simp_all
  ultimately show ?thesis
    using assms u by (simp add: good_frame_def frame_size_def IPPACKET_SIZE_def)
qed

text \<open>What the client's own parser reads from such a frame.\<close>

lemma good_frame_parse:
  assumes "good_frame os frame"
  shows "\<exists>o'. parse_loop frame 282 590 releaseDhcpOptions = Some o' \<and> content o' = map_of (rev os)"
proof -
  let ?e = "concat (map enc_option os)"
  have "frame = take 282 frame @ read_at 282 (length ?e + 1) frame @ drop (length ?e + 1) (drop 282 frame)"
    by (simp only: read_at_def append_take_drop_id)
  then have "frame = take 282 frame @ ?e @ endOption # drop (length ?e + 1) (drop 282 frame)"
    using assms by (simp add: good_frame_def)
  moreover have "length (take 282 frame) = 282" using assms by (simp add: good_frame_def frame_size_def IPPACKET_SIZE_def)
  ultimately show ?thesis
    using assms parse_loop_enc [of frame "take 282 frame" os _ releaseDhcpOptions 590] opts_ok_release
    by (fastforce simp: good_frame_def)
qed

section \<open>The messages\<close>

definition conf_ok :: "dhcp_conf \<Rightarrow> bool" where
  "conf_ok conf \<longleftrightarrow> length (ClientHwAddr conf) = 6 \<and> length (nleaseTime conf) = 4
     \<and> (case HostName conf of None \<Rightarrow> True | Some h \<Rightarrow> h \<noteq> [] \<and> length h \<le> 64)"

definition iface_ok :: "dhcpInterface \<Rightarrow> bool" where
  "iface_ok i \<longleftrightarrow> length (shaddr i) = 6 \<and> 0 < class_len i \<and> class_len i \<le> 48 \<and> 48 \<le> length (class_id i)
     \<and> client_chunk i = enc_option (dhcpClientIdentifier, drop 2 (client_chunk i))
     \<and> 2 < length (client_chunk i) \<and> length (client_chunk i) \<le> 51"

text \<open>The options of each message as a list of codes and values.\<close>

definition host_opts :: "dhcp_conf \<Rightarrow> (byte \<times> byte list) list" where
  "host_opts conf = (case HostName conf of None \<Rightarrow> [] | Some h \<Rightarrow> [(hostName, h)])"

definition tail_opts :: "dhcp_conf \<Rightarrow> dhcpInterface \<Rightarrow> (byte \<times> byte list) list" where
  "tail_opts conf i = (dhcpParamRequest, drop 2 param_chunk) # host_opts conf
     @ [(dhcpClassIdentifier, take (class_len i) (class_id i)), (dhcpClientIdentifier, drop 2 (client_chunk i))]"

lemma tail_opts_enc:
  assumes "iface_ok i"
  shows "concat (map enc_option (tail_opts conf i)) = param_chunk @ host_chunk conf @ class_chunk i @ client_chunk i"
proof -
  have "class_chunk i = enc_option (dhcpClassIdentifier, take (class_len i) (class_id i))"
    using assms by (simp add: class_chunk_def enc_option_def iface_ok_def)
  moreover have "client_chunk i = enc_option (dhcpClientIdentifier, drop 2 (client_chunk i))"
    using assms by (simp only: iface_ok_def)
  moreover have "param_chunk = enc_option (dhcpParamRequest, drop 2 param_chunk)"
    by (simp add: param_chunk_def enc_option_def)
  moreover have "concat (map enc_option (host_opts conf)) = host_chunk conf"
    by (simp add: host_opts_def host_chunk_def enc_option_def split: option.splits)
  ultimately show ?thesis unfolding tail_opts_def by (simp only: list.map concat.simps map_append concat_append append_Nil2 append_assoc)
qed

lemma tail_opts_ok:
  assumes "iface_ok i" "conf_ok conf"
  shows "proper_options (tail_opts conf i)" "length (concat (map enc_option (tail_opts conf i))) \<le> 183"
proof -
  show "proper_options (tail_opts conf i)"
    using assms by (auto simp: proper_options_def tail_opts_def host_opts_def iface_ok_def conf_ok_def
        param_chunk_def split: option.splits)
  show "length (concat (map enc_option (tail_opts conf i))) \<le> 183"
    unfolding tail_opts_enc [OF assms(1)]
    using assms by (auto simp: iface_ok_def conf_ok_def param_chunk_def host_chunk_def class_chunk_def
        split: option.splits)
qed

text \<open>The lists of options of the messages; \<open>tail\<close> is the common end.\<close>

definition lease_opts :: "dhcpOptions \<Rightarrow> (byte \<times> byte list) list" where
  "lease_opts opts = (case opt4 opts dhcpIPaddrLeaseTime of None \<Rightarrow> [] | Some l \<Rightarrow> [(dhcpIPaddrLeaseTime, l)])"

definition requested_opts :: "bool \<Rightarrow> u32 \<Rightarrow> (byte \<times> byte list) list" where
  "requested_opts b a = (if b then [(dhcpRequestedIPaddr, le32 a)] else [])"

definition start_opts :: "nat \<Rightarrow> (byte \<times> byte list) list" where
  "start_opts t = [(dhcpMessageType, [of_nat t]), (dhcpMaxMsgSize, htons dhcpMessage_size)]"

lemma opt4_length: "opt4 opts c = Some v \<Longrightarrow> length v = 4"
  by (auto simp: opt4_def split: option.splits if_splits)

lemma lease_chunk_enc: "lease_chunk opts = Some l \<Longrightarrow> l = concat (map enc_option (lease_opts opts))"
  by (auto simp: lease_chunk_def lease_opts_def opt4_def enc_option_def split: option.splits if_splits)

lemma bytes_eq_Nil [simp]: "le_bytes n x = [] \<longleftrightarrow> n = 0" "be_bytes n x = [] \<longleftrightarrow> n = 0"
  by (metis length_0_conv length_le_bytes) (metis length_0_conv length_be_bytes)

lemma length_enc_option [simp]: "length (enc_option (c, v)) = length v + 2"
  by (simp add: enc_option_def)

lemma proper_options_Cons:
  "proper_options ((c, v) # os) \<longleftrightarrow> c \<noteq> padOption \<and> c \<noteq> endOption \<and> v \<noteq> [] \<and> length v < 256 \<and> proper_options os"
  by (simp add: proper_options_def)

lemma proper_single: "c \<noteq> padOption \<Longrightarrow> c \<noteq> endOption \<Longrightarrow> length v = 4 \<Longrightarrow> proper_options [(c, v)]"
  by (auto simp: proper_options_def)

lemma enc4: "length v = 4 \<Longrightarrow> enc_option (c, v) = [c, 4] @ v"
  by (simp add: enc_option_def)

lemma short_opts_proper [simp]:
  "proper_options (lease_opts opts)" "proper_options (requested_opts b a)" "proper_options (start_opts t)"
  "length (concat (map enc_option (start_opts t))) = 7"
  by (auto simp: lease_opts_def requested_opts_def start_opts_def proper_options_def
      dest: opt4_length split: option.splits)

lemma short_opts_length:
  "length (concat (map enc_option (lease_opts opts))) \<le> 6"
  "length (concat (map enc_option (requested_opts b a))) \<le> 6"
  by (auto simp: lease_opts_def requested_opts_def dest: opt4_length split: option.splits)

lemma proper_options_append [simp]: "proper_options (xs @ ys) \<longleftrightarrow> proper_options xs \<and> proper_options ys"
  by (simp add: proper_options_def)

lemma chunk_enc:
  "type_chunk t @ size_chunk = concat (map enc_option (start_opts t))"
  "(if b then requested_chunk a else []) = concat (map enc_option (requested_opts b a))"
  "(if b then [] else requested_chunk a) = concat (map enc_option (requested_opts (\<not> b) a))"
  by (simp_all add: type_chunk_def size_chunk_def start_opts_def enc_option_def requested_chunk_def requested_opts_def)

text \<open>Frames with the common start, options \<open>mid\<close> and the common end.\<close>

lemma full_message:
  assumes "conf_ok conf" "iface_ok i" "length buf = 1514" "read_at 278 4 buf = be_bytes 4 MAGIC_COOKIE"
    and "proper_options mid" "length (concat (map enc_option mid)) \<le> 18"
    and "concat cs = concat (map enc_option (start_opts t)) @ concat (map enc_option mid)
      @ param_chunk @ host_chunk conf @ class_chunk i @ client_chunk i @ [endOption]"
  shows "good_frame (start_opts t @ mid @ tail_opts conf i) (fst (udp_send s d (put_options cs buf) ip_id))"
proof -
  have "concat cs = concat (map enc_option (start_opts t @ mid @ tail_opts conf i)) @ [endOption]"
    using assms(7) by (simp add: tail_opts_enc [OF assms(2)])
  moreover have "length (concat (map enc_option (start_opts t @ mid @ tail_opts conf i))) < 308"
    using assms(6) tail_opts_ok(2) [OF assms(2,1)] by simp
  ultimately show ?thesis using assms(3-5) tail_opts_ok(1) [OF assms(2,1)] by (intro message_frame) simp_all
qed

text \<open>The fixed part of a frame, with or without the client address.\<close>

lemma head_facts:
  fixes xid :: u32 and timed :: bool
  assumes "conf_ok conf" "length dhost = 6"
  defines "b \<equiv> dhcp_head conf dhost xid timed"
  shows "length b = 1514" "read_at 278 4 b = be_bytes 4 MAGIC_COOKIE"
    "length (set_ciaddr a b) = 1514" "read_at 278 4 (set_ciaddr a b) = be_bytes 4 MAGIC_COOKIE"
  using dhcp_head_facts [OF assms(2)] assms(1) by (simp_all add: b_def conf_ok_def set_ciaddr_facts)

lemma discover_frame:
  assumes "conf_ok conf" "iface_ok i"
  shows "good_frame (start_opts DHCP_DISCOVER
      @ (requested_opts (ciaddr i \<noteq> 0 \<and> \<not> BeRFC1541 conf) (ciaddr i) @ [(dhcpIPaddrLeaseTime, nleaseTime conf)])
      @ tail_opts conf i) (fst (buildDhcpDiscover conf i xid ip_id))"
proof -
  define b where "b = (let b = dhcp_head conf MAC_BCAST_ADDR xid True
      in if ciaddr i \<noteq> 0 \<and> BeRFC1541 conf then set_ciaddr (ciaddr i) b else b)"
  have h: "length MAC_BCAST_ADDR = 6" "length (nleaseTime conf) = 4"
    using assms(1) by (simp_all add: MAC_BCAST_ADDR_def conf_ok_def)
  have b: "length b = 1514" "read_at 278 4 b = be_bytes 4 MAGIC_COOKIE"
    using head_facts [OF assms(1) h(1)] by (simp_all add: b_def Let_def)
  let ?q = "requested_opts (ciaddr i \<noteq> 0 \<and> \<not> BeRFC1541 conf) (ciaddr i)"
  have "buildDhcpDiscover conf i xid ip_id = udp_send 0 INADDR_BROADCAST (put_options
      [type_chunk DHCP_DISCOVER, size_chunk, concat (map enc_option ?q), [dhcpIPaddrLeaseTime, 4] @ nleaseTime conf,
       param_chunk, host_chunk conf, class_chunk i, client_chunk i, [endOption]] b) ip_id"
    by (simp only: buildDhcpDiscover_def b_def Let_def chunk_enc(2))
  moreover have "good_frame (start_opts DHCP_DISCOVER @ (?q @ [(dhcpIPaddrLeaseTime, nleaseTime conf)]) @ tail_opts conf i)
     (fst (udp_send 0 INADDR_BROADCAST (put_options
      [type_chunk DHCP_DISCOVER, size_chunk, concat (map enc_option ?q), [dhcpIPaddrLeaseTime, 4] @ nleaseTime conf,
       param_chunk, host_chunk conf, class_chunk i, client_chunk i, [endOption]] b) ip_id))"
    using h short_opts_length(2) [of "ciaddr i \<noteq> 0 \<and> \<not> BeRFC1541 conf" "ciaddr i"]
    by (intro full_message [OF assms b])
      (simp_all add: proper_single enc4 chunk_enc(1) [symmetric])
  ultimately show ?thesis by simp
qed

lemma request_frame:
  assumes "conf_ok conf" "iface_ok i" "buildDhcpRequest conf i opts xid ip_id = Some (f, ip_id')"
  obtains sid where "opt4 opts dhcpServerIdentifier = Some sid"
    "good_frame (start_opts DHCP_REQUEST @ ([(dhcpServerIdentifier, sid)]
      @ requested_opts (\<not> BeRFC1541 conf) (ciaddr i) @ lease_opts opts) @ tail_opts conf i) f"
proof -
  define b where "b = (let b = dhcp_head conf MAC_BCAST_ADDR xid True
      in if BeRFC1541 conf then set_ciaddr (ciaddr i) b else b)"
  have b: "length b = 1514" "read_at 278 4 b = be_bytes 4 MAGIC_COOKIE"
    using head_facts [OF assms(1), of MAC_BCAST_ADDR] by (simp_all add: b_def Let_def MAC_BCAST_ADDR_def)
  obtain sid l where s: "opt4 opts dhcpServerIdentifier = Some sid" "lease_chunk opts = Some l"
    "f = fst (udp_send 0 INADDR_BROADCAST (put_options [type_chunk DHCP_REQUEST, size_chunk,
      [dhcpServerIdentifier, 4] @ sid, if BeRFC1541 conf then [] else requested_chunk (ciaddr i), l, param_chunk,
      host_chunk conf, class_chunk i, client_chunk i, [endOption]] b) ip_id)"
    using assms(3) by (auto simp: buildDhcpRequest_def Let_def b_def bind_eq_Some_conv)
  have "good_frame (start_opts DHCP_REQUEST @ ([(dhcpServerIdentifier, sid)]
      @ requested_opts (\<not> BeRFC1541 conf) (ciaddr i) @ lease_opts opts) @ tail_opts conf i) f"
    unfolding s(3)
    using opt4_length [OF s(1)] length_0_conv [of sid] short_opts_length(1) [of opts]
      short_opts_length(2) [of "\<not> BeRFC1541 conf" "ciaddr i"]
    by (intro full_message [OF assms(1,2) b])
      (simp_all add: proper_options_Cons enc4 chunk_enc(1) [symmetric] chunk_enc(3) lease_chunk_enc [OF s(2)])
  with s(1) show ?thesis by (rule that)
qed

lemma renew_frame:
  assumes "conf_ok conf" "iface_ok i" "length dhost = 6" "lease_chunk opts = Some l"
  shows "good_frame (start_opts DHCP_REQUEST @ lease_opts opts @ tail_opts conf i)
    (fst (udp_send s d (put_options [type_chunk DHCP_REQUEST, size_chunk, l, param_chunk, host_chunk conf,
       class_chunk i, client_chunk i, [endOption]] (set_ciaddr a (dhcp_head conf dhost xid True))) ip_id))"
  using head_facts [OF assms(1,3)] short_opts_length(1) [of opts]
  by (intro full_message [OF assms(1,2)])
    (simp_all add: chunk_enc(1) [symmetric] lease_chunk_enc [OF assms(4)])

lemma reboot_frame:
  assumes "conf_ok conf" "iface_ok i"
  shows "good_frame (start_opts DHCP_REQUEST
      @ (requested_opts (\<not> BeRFC1541 conf) (ciaddr i) @ [(dhcpIPaddrLeaseTime, nleaseTime conf)])
      @ tail_opts conf i) (fst (buildDhcpReboot conf i xid ip_id))"
proof -
  define b where "b = (let b = dhcp_head conf MAC_BCAST_ADDR xid True
      in if BeRFC1541 conf then set_ciaddr (ciaddr i) b else b)"
  have b: "length b = 1514" "read_at 278 4 b = be_bytes 4 MAGIC_COOKIE"
    using head_facts [OF assms(1), of MAC_BCAST_ADDR] by (simp_all add: b_def Let_def MAC_BCAST_ADDR_def)
  have n: "length (nleaseTime conf) = 4" using assms(1) by (simp add: conf_ok_def)
  show ?thesis
    unfolding buildDhcpReboot_def Let_def b_def [unfolded Let_def, symmetric]
    using n short_opts_length(2) [of "\<not> BeRFC1541 conf" "ciaddr i"]
    by (intro full_message [OF assms b]) (simp_all add: proper_single enc4 chunk_enc(1) [symmetric] chunk_enc(3))
qed

lemma inform_frame:
  assumes "conf_ok conf" "iface_ok i"
  shows "good_frame (start_opts DHCP_INFORM @ [] @ tail_opts conf i) (fst (buildDhcpInform conf i a xid ip_id))"
  unfolding buildDhcpInform_def Let_def
  using head_facts [OF assms(1), of MAC_BCAST_ADDR]
  by (intro full_message [OF assms])
    (simp_all add: MAC_BCAST_ADDR_def chunk_enc(1) [symmetric] proper_options_def)

text \<open>The two short messages.\<close>

lemma short_message:
  assumes "conf_ok conf" "iface_ok i" "length buf = 1514" "read_at 278 4 buf = be_bytes 4 MAGIC_COOKIE" "length sid = 4"
    and "concat cs = type_chunk t @ [dhcpServerIdentifier, 4] @ sid @ concat (map enc_option (requested_opts q a))
      @ client_chunk i @ [endOption]"
  shows "good_frame ([(dhcpMessageType, [of_nat t]), (dhcpServerIdentifier, sid)] @ requested_opts q a
      @ [(dhcpClientIdentifier, drop 2 (client_chunk i))]) (fst (udp_send s d (put_options cs buf) ip_id))"
proof -
  have c: "enc_option (dhcpClientIdentifier, drop 2 (client_chunk i)) = client_chunk i"
    "2 < length (client_chunk i)" "length (client_chunk i) \<le> 51" using assms(2) by (simp_all add: iface_ok_def)
  have p: "proper_options [(dhcpMessageType, [of_nat t]), (dhcpServerIdentifier, sid)]"
    "proper_options [(dhcpClientIdentifier, drop 2 (client_chunk i))]"
    using assms(5) c by (auto simp: proper_options_def)
  have t: "type_chunk t = enc_option (dhcpMessageType, [of_nat t])" by (simp add: type_chunk_def enc_option_def)
  have "proper_options ([(dhcpMessageType, [of_nat t]), (dhcpServerIdentifier, sid)] @ requested_opts q a
      @ [(dhcpClientIdentifier, drop 2 (client_chunk i))])"
    using p by (simp only: proper_options_append short_opts_proper simp_thms)
  then show ?thesis
    using assms(5) c short_opts_length(2) [of q a]
    by (intro message_frame [OF assms(3,4)]) (simp_all add: assms(6) enc4 [OF assms(5)] t)
qed

text \<open>The frames that the client can send, with the type of the message.\<close>

inductive client_message :: "dhcp_conf \<Rightarrow> dhcpInterface \<Rightarrow> dhcpOptions \<Rightarrow> nat \<Rightarrow> byte list \<Rightarrow> bool"
  for conf i opts where
  "client_message conf i opts DHCP_DISCOVER (fst (buildDhcpDiscover conf i xid ip_id))"
| "buildDhcpRequest conf i opts xid ip_id = Some (f, n) \<Longrightarrow> client_message conf i opts DHCP_REQUEST f"
| "buildDhcpRenew conf i opts xid ip_id = Some (f, n) \<Longrightarrow> client_message conf i opts DHCP_REQUEST f"
| "buildDhcpRebind conf i opts xid ip_id = Some (f, n) \<Longrightarrow> client_message conf i opts DHCP_REQUEST f"
| "client_message conf i opts DHCP_REQUEST (fst (buildDhcpReboot conf i xid ip_id))"
| "client_message conf i opts DHCP_RELEASE (fst (buildDhcpRelease conf i ptr xid ip_id))"
| "buildDhcpDecline conf i opts xid ip_id = Some (f, n) \<Longrightarrow> client_message conf i opts DHCP_DECLINE f"
| "client_message conf i opts DHCP_INFORM (fst (buildDhcpInform conf i a xid ip_id))"

lemma full_type:
  "map_of (rev (start_opts t @ mid @ tail_opts conf i)) dhcpMessageType = Some [of_nat t]"
  "map_of (rev (start_opts t @ mid @ tail_opts conf i)) dhcpClientIdentifier = Some (drop 2 (client_chunk i))"
  if "map_of (rev mid) dhcpMessageType = None"
proof -
  have "map_of (rev (tail_opts conf i)) dhcpMessageType = None"
    "map_of (rev (tail_opts conf i)) dhcpClientIdentifier = Some (drop 2 (client_chunk i))"
    by (simp_all add: tail_opts_def host_opts_def split: option.splits)
  then show "map_of (rev (start_opts t @ mid @ tail_opts conf i)) dhcpMessageType = Some [of_nat t]"
    "map_of (rev (start_opts t @ mid @ tail_opts conf i)) dhcpClientIdentifier = Some (drop 2 (client_chunk i))"
    using that by (simp_all add: start_opts_def map_add_def)
qed

lemma release_frame:
  assumes "conf_ok conf" "iface_ok i"
  shows "good_frame ([(dhcpMessageType, [of_nat DHCP_RELEASE]), (dhcpServerIdentifier, le32 ptr)]
     @ requested_opts False 0 @ [(dhcpClientIdentifier, drop 2 (client_chunk i))])
     (fst (buildDhcpRelease conf i ptr xid ip_id))"
  unfolding buildDhcpRelease_def Let_def
  using head_facts [OF assms(1), of "shaddr i"] assms(2)
  by (intro short_message [OF assms]) (simp_all add: iface_ok_def requested_opts_def)

lemma decline_frame:
  assumes "conf_ok conf" "iface_ok i" "buildDhcpDecline conf i opts xid ip_id = Some (f, n)"
  shows "\<exists>sid. good_frame ([(dhcpMessageType, [of_nat DHCP_DECLINE]), (dhcpServerIdentifier, sid)]
     @ requested_opts (\<not> BeRFC1541 conf) (ciaddr i) @ [(dhcpClientIdentifier, drop 2 (client_chunk i))]) f"
proof -
  define b where "b = (let b = dhcp_head conf (shaddr i) xid False
      in if BeRFC1541 conf then set_ciaddr (ciaddr i) b else b)"
  have b: "length b = 1514" "read_at 278 4 b = be_bytes 4 MAGIC_COOKIE"
    using head_facts [OF assms(1), of "shaddr i"] assms(2) by (simp_all add: b_def Let_def iface_ok_def)
  obtain sid where s: "opt4 opts dhcpServerIdentifier = Some sid"
    "f = fst (udp_send 0 (siaddr i) (put_options [type_chunk DHCP_DECLINE, [dhcpServerIdentifier, 4] @ sid,
        if BeRFC1541 conf then [] else requested_chunk (ciaddr i), client_chunk i, [endOption]] b) ip_id)"
    using assms(3) by (auto simp: buildDhcpDecline_def Let_def b_def bind_eq_Some_conv)
  show ?thesis
    unfolding s(2)
    by (rule exI [of _ sid], rule short_message [OF assms(1,2) b opt4_length [OF s(1)]]) (simp add: chunk_enc(3))
qed

text \<open>The set-up of the identifiers makes the interface data proper.\<close>

lemma clientIDsetup_chunk:
  assumes "length (client_id i) = 48"
  shows "client_chunk (clientIDsetup (Some cid) conf i) = enc_option (dhcpClientIdentifier, 0 # cid)"
    "length (ClientHwAddr conf) = 6 \<Longrightarrow>
     client_chunk (clientIDsetup None conf i) = enc_option (dhcpClientIdentifier, 1 # ClientHwAddr conf)"
  by (simp_all add: client_chunk_def clientIDsetup_def write_at_def enc_option_def ETH_ALEN_def take_Cons' add.commute)

lemma clientIDsetup_fits:
  assumes "length (client_id i) = 48" "length (ClientHwAddr conf) = 6"
  shows "length (client_id (clientIDsetup None conf i)) = 48"
    "length (client_id (clientIDsetup (Some cid) conf i)) = 48 \<longleftrightarrow> length cid \<le> 45"
  using assms by (auto simp: clientIDsetup_def write_at_def ETH_ALEN_def)

lemma setup_ok:
  assumes "length (shaddr i) = 6" "length (class_id i) = 48" "length (client_id i) = 48" "conf_ok conf"
    and "0 < length uname" "length uname \<le> 48" "case ClientID of None \<Rightarrow> True | Some cid \<Rightarrow> length cid \<le> 48"
  shows "iface_ok (clientIDsetup ClientID conf (classIDsetup uname i))"
proof -
  let ?c = "classIDsetup uname i"
  have c: "length (client_id ?c) = 48" "class_len ?c = length uname" "48 \<le> length (class_id ?c)" "length (shaddr ?c) = 6"
    using assms(1-3) by (simp_all add: classIDsetup_def write_at_def CLASS_ID_MAX_LEN_def)
  have "class_len (clientIDsetup ClientID conf ?c) = class_len ?c" "class_id (clientIDsetup ClientID conf ?c) = class_id ?c"
    "shaddr (clientIDsetup ClientID conf ?c) = shaddr ?c"
    by (simp_all add: clientIDsetup_def split: option.splits)
  moreover obtain v where "client_chunk (clientIDsetup ClientID conf ?c) = enc_option (dhcpClientIdentifier, v)"
    "0 < length v" "length v \<le> 49"
  proof (cases ClientID)
    case None
    then show ?thesis
      using that [of "1 # ClientHwAddr conf"] clientIDsetup_chunk(2) [OF c(1)] assms(4) by (simp add: conf_ok_def)
  next
    case (Some cid)
    then show ?thesis using that [of "0 # cid"] clientIDsetup_chunk(1) [OF c(1)] assms(7) by simp
  qed
  ultimately show ?thesis using c assms(5,6) by (simp add: iface_ok_def enc_option_def)
qed

definition sample_conf :: dhcp_conf where
  "sample_conf = \<lparr>HostName = Some [99, 97, 109, 0], BeRFC1541 = False, BroadcastResp = False,
     nleaseTime = [255, 255, 255, 255], ClientHwAddr = [0, 14, 8, 1, 2, 3]\<rparr>"

definition sample_iface :: dhcpInterface where
  "sample_iface = clientIDsetup None sample_conf (classIDsetup [76, 105, 110, 117, 120]
     \<lparr>version = [], ciaddr = 0x4D00A8C0, siaddr = 0x0100A8C0, class_len = 0, client_len = 0, if_xid = 0,
      shaddr = replicate 6 0, class_id = replicate 48 0, client_id = replicate 48 0\<rparr>)"

definition sample_opts :: dhcpOptions where
  "sample_opts = alloc dhcpServerIdentifier [192, 168, 0, 1] releaseDhcpOptions"

lemma sample_ok: "conf_ok sample_conf" "iface_ok sample_iface"
proof -
  show c: "conf_ok sample_conf" by (simp add: conf_ok_def sample_conf_def)
  show "iface_ok sample_iface" unfolding sample_iface_def by (rule setup_ok) (simp_all add: c)
qed

lemma sample_request: "\<exists>f n. buildDhcpRequest sample_conf sample_iface sample_opts 7 0 = Some (f, n)"
  by (simp add: buildDhcpRequest_def Let_def sample_opts_def alloc_def releaseDhcpOptions_def opt4_def lease_chunk_def)

section \<open>Properties\<close>

text \<open>
  C33. Every message the client sends is well formed: a frame of 1514 bytes whose IP and UDP checksums
  verify, with the magic cookie and an option field that holds a proper list of options and the end mark
  within its 312 bytes, which names the type of the message and identifies the client.
\<close>

theorem client_messages_wellformed:
  assumes "client_message conf i opts t frame" and "conf_ok conf" and "iface_ok i"
  shows "\<exists>os. good_frame os frame \<and> map_of (rev os) dhcpMessageType = Some [of_nat t]
    \<and> map_of (rev os) dhcpClientIdentifier = Some (drop 2 (client_chunk i))"
  using assms(1)
proof cases
  case (1 xid ip_id)
  show ?thesis unfolding 1
    by (intro exI conjI, rule discover_frame [OF assms(2,3)]) (rule full_type; simp add: requested_opts_def)+
next
  case (2 xid ip_id n)
  obtain sid where "good_frame (start_opts DHCP_REQUEST @ ([(dhcpServerIdentifier, sid)]
      @ requested_opts (\<not> BeRFC1541 conf) (ciaddr i) @ lease_opts opts) @ tail_opts conf i) frame"
    by (rule request_frame [OF assms(2,3) 2(2)])
  then show ?thesis unfolding 2(1)
    by (intro exI conjI, assumption) (rule full_type; simp add: requested_opts_def lease_opts_def split: option.splits)+
next
  case (3 xid ip_id n)
  then obtain l where "lease_chunk opts = Some l" "frame = fst (udp_send (ciaddr i) (siaddr i) (put_options
      [type_chunk DHCP_REQUEST, size_chunk, l, param_chunk, host_chunk conf, class_chunk i, client_chunk i, [endOption]]
      (set_ciaddr (ciaddr i) (dhcp_head conf (shaddr i) xid True))) ip_id)"
    by (auto simp: buildDhcpRenew_def Let_def bind_eq_Some_conv)
  moreover have "length (shaddr i) = 6" using assms(3) by (simp add: iface_ok_def)
  ultimately have "good_frame (start_opts DHCP_REQUEST @ lease_opts opts @ tail_opts conf i) frame"
    using renew_frame [OF assms(2,3)] by metis
  then show ?thesis unfolding 3(1)
    by (intro exI conjI, assumption) (rule full_type; simp add: lease_opts_def split: option.splits)+
next
  case (4 xid ip_id n)
  then obtain l where "lease_chunk opts = Some l" "frame = fst (udp_send (ciaddr i) INADDR_BROADCAST (put_options
      [type_chunk DHCP_REQUEST, size_chunk, l, param_chunk, host_chunk conf, class_chunk i, client_chunk i, [endOption]]
      (set_ciaddr (ciaddr i) (dhcp_head conf MAC_BCAST_ADDR xid True))) ip_id)"
    by (auto simp: buildDhcpRebind_def Let_def bind_eq_Some_conv)
  moreover have "length MAC_BCAST_ADDR = 6" by (simp add: MAC_BCAST_ADDR_def)
  ultimately have "good_frame (start_opts DHCP_REQUEST @ lease_opts opts @ tail_opts conf i) frame"
    using renew_frame [OF assms(2,3)] by metis
  then show ?thesis unfolding 4(1)
    by (intro exI conjI, assumption) (rule full_type; simp add: lease_opts_def split: option.splits)+
next
  case (5 xid ip_id)
  show ?thesis unfolding 5
    by (intro exI conjI, rule reboot_frame [OF assms(2,3)]) (rule full_type; simp add: requested_opts_def)+
next
  case (6 ptr xid ip_id)
  show ?thesis unfolding 6
    by (intro exI conjI, rule release_frame [OF assms(2,3)]) (simp_all add: requested_opts_def)
next
  case (7 xid ip_id n)
  obtain sid where "good_frame ([(dhcpMessageType, [of_nat DHCP_DECLINE]), (dhcpServerIdentifier, sid)]
     @ requested_opts (\<not> BeRFC1541 conf) (ciaddr i) @ [(dhcpClientIdentifier, drop 2 (client_chunk i))]) frame"
    using decline_frame [OF assms(2,3) 7(2)] by blast
  then show ?thesis unfolding 7(1) by (intro exI conjI, assumption) (simp_all add: requested_opts_def)
next
  case (8 a xid ip_id)
  show ?thesis unfolding 8
    by (intro exI conjI, rule inform_frame [OF assms(2,3)]) (rule full_type; simp)+
qed

theorem client_messages_wellformed_witness:
  "\<exists>os. good_frame os (fst (buildDhcpDiscover sample_conf sample_iface 7 0))
    \<and> map_of (rev os) dhcpMessageType = Some [of_nat DHCP_DISCOVER]"
  using client_messages_wellformed [OF client_message.intros(1) sample_ok] by blast

text \<open>
  A DHCPREQUEST asks the chosen server for the offered address: the client's own parser reads from it
  the type, the server identifier that the offer had and the address of the offer.
\<close>

theorem request_reads_back:
  assumes "buildDhcpRequest conf i opts xid ip_id = Some (f, n)" and "conf_ok conf" and "iface_ok i"
    and "\<not> BeRFC1541 conf"
  shows "\<exists>o' sid. opt4 opts dhcpServerIdentifier = Some sid \<and> parse_loop f 282 590 releaseDhcpOptions = Some o'
    \<and> content o' dhcpMessageType = Some [of_nat DHCP_REQUEST] \<and> content o' dhcpServerIdentifier = Some sid
    \<and> content o' dhcpRequestedIPaddr = Some (le32 (ciaddr i))"
proof -
  obtain sid where s: "opt4 opts dhcpServerIdentifier = Some sid"
    "good_frame (start_opts DHCP_REQUEST @ ([(dhcpServerIdentifier, sid)]
      @ requested_opts (\<not> BeRFC1541 conf) (ciaddr i) @ lease_opts opts) @ tail_opts conf i) f"
    by (rule request_frame [OF assms(2,3,1)])
  obtain o' where o: "parse_loop f 282 590 releaseDhcpOptions = Some o'"
    "content o' = map_of (rev (start_opts DHCP_REQUEST @ ([(dhcpServerIdentifier, sid)]
      @ requested_opts (\<not> BeRFC1541 conf) (ciaddr i) @ lease_opts opts) @ tail_opts conf i))"
    using good_frame_parse [OF s(2)] by blast
  have "content o' dhcpMessageType = Some [of_nat DHCP_REQUEST]"
    unfolding o(2) by (rule full_type) (simp add: requested_opts_def lease_opts_def split: option.splits)
  moreover have "content o' dhcpServerIdentifier = Some sid" "content o' dhcpRequestedIPaddr = Some (le32 (ciaddr i))"
    using assms(4) unfolding o(2)
    by (simp_all add: start_opts_def requested_opts_def lease_opts_def tail_opts_def host_opts_def split: option.splits)
  ultimately show ?thesis using s(1) o(1) by blast
qed

theorem request_reads_back_witness:
  "\<exists>f n o'. buildDhcpRequest sample_conf sample_iface sample_opts 7 0 = Some (f, n)
    \<and> parse_loop f 282 590 releaseDhcpOptions = Some o'
    \<and> content o' dhcpRequestedIPaddr = Some (le32 (ciaddr sample_iface))"
proof -
  obtain f n where f: "buildDhcpRequest sample_conf sample_iface sample_opts 7 0 = Some (f, n)"
    using sample_request by blast
  have "\<not> BeRFC1541 sample_conf" by (simp add: sample_conf_def)
  then show ?thesis using f request_reads_back [OF f sample_ok] by blast
qed

text \<open>
  A DHCPRELEASE does not name the server: as server identifier it carries the address in memory of the
  client's table entry, whatever identifier the server sent.
\<close>

theorem release_names_pointer:
  assumes "conf_ok conf" and "iface_ok i"
  shows "\<exists>o'. parse_loop (fst (buildDhcpRelease conf i ptr xid ip_id)) 282 590 releaseDhcpOptions = Some o'
    \<and> content o' dhcpMessageType = Some [of_nat DHCP_RELEASE] \<and> content o' dhcpServerIdentifier = Some (le32 ptr)"
proof -
  obtain o' where "parse_loop (fst (buildDhcpRelease conf i ptr xid ip_id)) 282 590 releaseDhcpOptions = Some o'"
    "content o' = map_of (rev ([(dhcpMessageType, [of_nat DHCP_RELEASE]), (dhcpServerIdentifier, le32 ptr)]
     @ requested_opts False 0 @ [(dhcpClientIdentifier, drop 2 (client_chunk i))]))"
    using good_frame_parse [OF release_frame [OF assms]] by blast
  then show ?thesis by (simp add: requested_opts_def)
qed

theorem release_names_pointer_witness:
  "\<exists>o'. parse_loop (fst (buildDhcpRelease sample_conf sample_iface 0x08051234 7 0)) 282 590 releaseDhcpOptions = Some o'
    \<and> content o' dhcpServerIdentifier = Some (le32 0x08051234)"
  using release_names_pointer [OF sample_ok] by blast

end
