(* ===== verification/Dhcp_Exchange.thy ===== *)
theory Dhcp_Exchange
  imports Dhcp_Message
begin

text \<open>
  The exchange of a request and its reply (\<^verbatim>\<open>dhcpSendAndRecv\<close>, \<^verbatim>\<open>timeval_subtract\<close> in
  \<^verbatim>\<open>dhcpcd-1.3.22-pl1/client.c\<close> and \<^verbatim>\<open>peekfd.c\<close>).  What the system calls answer is given as two lists, one
  for the send loop and one for the receive loop; when a list is used up the client waits in the loop,
  which only a signal ends.  A wild memory access is the outcome \<open>Fault\<close>.
\<close>

section \<open>Definitions\<close>

definition DHCP_BOOTREPLY :: byte where "DHCP_BOOTREPLY = 2"
definition DHCP_INITIAL_RTO :: int where "DHCP_INITIAL_RTO = 4 * 1000000"
definition DHCP_MAX_RTO :: int where "DHCP_MAX_RTO = 64 * 1000000"
definition ARPHRD_ETHER :: byte where "ARPHRD_ETHER = 1"

text \<open>The difference, the adjusted second argument and whether the difference is negative.\<close>

definition timeval_subtract :: "timeval \<Rightarrow> timeval \<Rightarrow> timeval \<times> timeval \<times> bool" where
  "timeval_subtract x y =
     (let y = (if tv_usec x < tv_usec y
               then let nsec = cdiv (tv_usec y - tv_usec x) 1000000 + 1
                    in \<lparr>tv_sec = tv_sec y + nsec, tv_usec = tv_usec y - 1000000 * nsec\<rparr> else y);
          y = (if tv_usec x - tv_usec y > 1000000
               then let nsec = cdiv (tv_usec x - tv_usec y) 1000000
                    in \<lparr>tv_sec = tv_sec y - nsec, tv_usec = tv_usec y + 1000000 * nsec\<rparr> else y)
      in (\<lparr>tv_sec = tv_sec x - tv_sec y, tv_usec = tv_usec x - tv_usec y\<rparr>, y, tv_sec x < tv_sec y))"

text \<open>The answer of \<^verbatim>\<open>select\<close> on the socket.\<close>

datatype selected = Select_error | Readable | Expired

definition peekfd :: "selected \<Rightarrow> int" where
  "peekfd s = (case s of Select_error \<Rightarrow> - 1 | Readable \<Rightarrow> 0 | Expired \<Rightarrow> 1)"

text \<open>
  The answers to one turn of the send loop: \<open>sendto\<close> fails, or the clock afterwards, the random number and
  the answer of \<open>select\<close>.  The answers to one turn of the receive loop: \<open>recvfrom\<close> fails, or the frame, the
  clock, the random number and the answer of \<open>select\<close>.
\<close>

datatype send_event = Send_error | Send timeval int selected
datatype recv_event = Recv_error | Recv "byte list" timeval int selected

text \<open>
  The arguments of the exchange, and the variables that it changes: the retransmission time \<open>j\<close>, \<open>begin\<close>,
  \<^verbatim>\<open>UdpIpMsgSend\<close>, \<^verbatim>\<open>UdpIpMsgRecv\<close>, the offset of \<^verbatim>\<open>DhcpMsgRecv\<close> in it, the table and \<open>ip_id\<close>; \<open>x_sent\<close>
  and \<open>x_waits\<close> record the packets sent and how long the client waited for an answer to each.
\<close>

record request =
  r_xid :: u32
  r_msg :: nat
  r_build :: "dhcpOptions \<Rightarrow> u32 \<Rightarrow> u16 \<Rightarrow> (byte list \<times> u16) option"
  r_lease :: "byte list"
  r_check :: bool

record exchange =
  x_j :: int
  x_begin :: timeval
  x_frame :: "byte list"
  x_buf :: "byte list"
  x_at :: nat
  x_opts :: dhcpOptions
  x_ip_id :: u16
  x_sent :: "byte list list"
  x_waits :: "int list"

datatype verdict = Skip exchange | Done exchange | Refused exchange | Crash

datatype outcome = Returned int exchange | Waiting exchange | Fault

definition next_rto :: "nat \<Rightarrow> int \<Rightarrow> int" where
  "next_rto msg j =
     (let j = (if msg \<noteq> DHCP_OFFER then j + j else 3000000) in if j > DHCP_MAX_RTO then DHCP_MAX_RTO else j)"

text \<open>One turn of the send loop: up to the call of \<open>sendto\<close>, and after its success up to \<open>peekfd\<close>.\<close>

definition prepare :: "request \<Rightarrow> exchange \<Rightarrow> exchange option" where
  "prepare q x =
     map_option (\<lambda>(f, n). x\<lparr>x_j := next_rto (r_msg q) (x_j x), x_frame := f, x_ip_id := n\<rparr>)
       (r_build q (x_opts x) (r_xid q) (x_ip_id x))"

definition transmitted :: "request \<Rightarrow> timeval \<Rightarrow> int \<Rightarrow> exchange \<Rightarrow> exchange" where
  "transmitted q now rnd x =
     (let i = (if r_msg q = DHCP_OFFER then 200000 else rnd)
      in x\<lparr>x_begin := now, x_sent := x_sent x @ [take (14 + udpiphdr_size + dhcpMessage_size) (x_frame x)],
           x_waits := x_waits x @ [x_j x + crem i 200000]\<rparr>)"

text \<open>One turn of the receive loop.\<close>

definition receive_buf :: "byte list \<Rightarrow> byte list" where
  "receive_buf frame = take frame_size frame @ replicate (frame_size - length frame) 0"

definition recv_timeout :: "timeval \<Rightarrow> int \<Rightarrow> exchange \<Rightarrow> int \<times> exchange" where
  "recv_timeout now rnd x =
     (let (diff, b, _) = timeval_subtract now (x_begin x)
      in (to_int32 (x_j x - tv_sec diff * 1000000 - tv_usec diff + crem rnd 200000), x\<lparr>x_begin := b\<rparr>))"

definition examine :: "request \<Rightarrow> nat \<Rightarrow> exchange \<Rightarrow> verdict" where
  "examine q d x =
     (let x = x\<lparr>x_at := d\<rparr>; buf = x_buf x
      in if buf ! (d + 1) \<noteq> ARPHRD_ETHER then Skip x
         else if read_at (d + 4) 4 buf \<noteq> le32 (r_xid q) then Skip x
         else if buf ! d \<noteq> DHCP_BOOTREPLY then Skip x
         else case parseDhcpMsgRecv (r_lease q) (read_at 54 4 (x_frame x)) d buf (x_opts x) of
                None \<Rightarrow> Crash
              | Some (t, buf, opts) \<Rightarrow>
                  let x = x\<lparr>x_buf := buf, x_opts := opts\<rparr>
                  in if t = r_msg q then Done x
                     else case opt_val opts dhcpMessageType of
                            None \<Rightarrow> Crash
                          | Some b \<Rightarrow> if b = [] then Crash else if unat (hd b) = DHCP_NAK then Refused x else Skip x)"

definition accept :: "request \<Rightarrow> byte list \<Rightarrow> exchange \<Rightarrow> verdict" where
  "accept q frame x =
     (let buf = receive_buf frame;
          x = x\<lparr>x_buf := buf\<rparr>;
          len = int (min (length frame) frame_size) - 14;
          ip_len = int (ntohs (read_at 16 2 buf));
          hl = ip_hl (drop 14 buf) * 4
      in if read_at 12 2 buf \<noteq> htons 0x0800 then Skip x
         else if buf ! 23 \<noteq> IPPROTO_UDP then Skip x
         else if len < ip_len then Skip x
         else if ip_len - int hl < int (ntohs (read_at 38 2 buf)) then Skip x
         else if r_check q
         then (case udpipchk (drop 14 buf) of
                 Underrun \<Rightarrow> Crash
               | Chk r pkt \<Rightarrow> let x = x\<lparr>x_buf := take 14 buf @ pkt\<rparr>
                              in if r \<noteq> 0 then Skip x else examine q (14 + hl + udphdr_size) x)
         else examine q (14 + hl + udphdr_size) x)"

fun send_loop :: "request \<Rightarrow> exchange \<Rightarrow> send_event list \<Rightarrow> recv_event list \<Rightarrow> outcome"
  and recv_loop :: "request \<Rightarrow> exchange \<Rightarrow> send_event list \<Rightarrow> recv_event list \<Rightarrow> outcome" where
  "send_loop q x [] rs = Waiting x"
| "send_loop q x (Send_error # ss) rs = (case prepare q x of None \<Rightarrow> Fault | Some x \<Rightarrow> Returned (- 1) x)"
| "send_loop q x (Send now rnd s # ss) rs =
     (case prepare q x of
        None \<Rightarrow> Fault
      | Some x \<Rightarrow> let x = transmitted q now rnd x
                  in if peekfd s \<noteq> 0 then send_loop q x ss rs else recv_loop q x ss rs)"
| "recv_loop q x ss [] = Waiting x"
| "recv_loop q x ss (Recv_error # rs) = Returned (- 1) (x\<lparr>x_buf := replicate frame_size 0\<rparr>)"
| "recv_loop q x ss (Recv frame now rnd s # rs) =
     (let (timeout, x) = recv_timeout now rnd x
      in case accept q frame x of
           Crash \<Rightarrow> Fault
         | Done x \<Rightarrow> Returned 0 x
         | Refused x \<Rightarrow> Returned 1 x
         | Skip x \<Rightarrow> if timeout > 0 \<and> peekfd s = 0 then recv_loop q x ss rs else send_loop q x ss rs)"

definition dhcpSendAndRecv :: "request \<Rightarrow> exchange \<Rightarrow> send_event list \<Rightarrow> recv_event list \<Rightarrow> outcome" where
  "dhcpSendAndRecv q x ss rs = send_loop q (x\<lparr>x_j := DHCP_INITIAL_RTO div 2\<rparr>) ss rs"

section \<open>Time differences\<close>

definition usecs :: "timeval \<Rightarrow> int" where "usecs t = tv_sec t * 1000000 + tv_usec t"

lemma timeval_subtract_usecs:
  assumes "timeval_subtract x y = (d, y', n)"
  shows "usecs d = usecs x - usecs y" "usecs y' = usecs y"
  using assms by (auto simp: timeval_subtract_def usecs_def Let_def algebra_simps split: if_splits)

lemma recv_timeout_eq:
  assumes "recv_timeout now rnd x = (timeout, x')"
  shows "timeout = to_int32 (x_j x - (usecs now - usecs (x_begin x)) + crem rnd 200000)"
    "usecs (x_begin x') = usecs (x_begin x)" "x_j x' = x_j x" "x_opts x' = x_opts x" "x_frame x' = x_frame x"
    "x_waits x' = x_waits x" "x_ip_id x' = x_ip_id x" "x_sent x' = x_sent x"
proof -
  obtain d b n where t: "timeval_subtract now (x_begin x) = (d, b, n)" by (metis prod_cases3)
  have e: "timeout = to_int32 (x_j x - tv_sec d * 1000000 - tv_usec d + crem rnd 200000)" "x' = x\<lparr>x_begin := b\<rparr>"
    using assms by (simp_all add: recv_timeout_def t)
  have "x_j x - tv_sec d * 1000000 - tv_usec d + crem rnd 200000 = x_j x - usecs d + crem rnd 200000"
    by (simp add: usecs_def)
  then show "timeout = to_int32 (x_j x - (usecs now - usecs (x_begin x)) + crem rnd 200000)"
    unfolding e(1) timeval_subtract_usecs(1) [OF t, symmetric] by (simp only:)
  show "usecs (x_begin x') = usecs (x_begin x)" "x_j x' = x_j x" "x_opts x' = x_opts x" "x_frame x' = x_frame x"
    "x_waits x' = x_waits x" "x_ip_id x' = x_ip_id x" "x_sent x' = x_sent x"
    using timeval_subtract_usecs(2) [OF t] by (simp_all add: e(2))
qed

section \<open>The frames that are looked at\<close>

lemma receive_buf_length [simp]: "length (receive_buf f) = 1514"
  by (simp add: receive_buf_def frame_size_def IPPACKET_SIZE_def)

lemma receive_buf_full: "length f = frame_size \<Longrightarrow> receive_buf f = f"
  by (simp add: receive_buf_def)

lemma ip_hl_le: "ip_hl buf \<le> 15"
  unfolding ip_hl_def using mod_less_divisor [of 16 "unat (buf ! 0)"] by linarith

lemma drop_write_at: "k + length xs \<le> m \<Longrightarrow> k + length xs \<le> length buf \<Longrightarrow> drop m (write_at k xs buf) = drop m buf"
  by (simp add: write_at_def drop_append)

text \<open>The check moves the IP header and leaves what follows it.\<close>

lemma udpipchk_payload:
  assumes "udpipchk buf = Chk r pkt" "66 \<le> length buf"
  shows "length pkt = length buf" "drop (ip_hl buf * 4) pkt = drop (ip_hl buf * 4) buf"
proof -
  define h where "h = ip_hl buf * 4"
  define n where "n = h - ip_size"
  define b1 where "b1 = write_at n (read_at 0 ip_size buf) buf"
  define b2 where "b2 = write_at n (replicate 9 0) b1"
  define b3 where "b3 = write_at (n + 10) (read_at (n + 24) 2 b2) b2"
  have h: "h \<le> 60" using ip_hl_le [of buf] by (simp add: h_def)
  have "pkt = buf \<or> (20 \<le> h \<and> (pkt = b1 \<or> pkt = b3 \<or> pkt = write_at 0 (read_at 0 ip_size buf) b3))"
    using assms(1) unfolding udpipchk_def Let_def h_def [symmetric] n_def [symmetric] b1_def [symmetric]
      b2_def [symmetric] b3_def [symmetric]
    by (auto simp: ip_size_def split: if_splits)
  moreover have "length b1 = length buf \<and> drop h b1 = drop h buf" if "20 \<le> h"
    using that h assms(2) by (simp add: b1_def n_def ip_size_def drop_write_at)
  moreover have "length b2 = length buf \<and> drop h b2 = drop h buf" if "20 \<le> h" "length b1 = length buf \<and> drop h b1 = drop h buf"
    using that h assms(2) by (simp add: b2_def n_def ip_size_def drop_write_at)
  moreover have "length b3 = length buf \<and> drop h b3 = drop h buf" if "20 \<le> h" "length b2 = length buf \<and> drop h b2 = drop h buf"
    using that h assms(2) by (simp add: b3_def n_def ip_size_def drop_write_at)
  moreover have "drop h (write_at 0 (read_at 0 ip_size buf) b3) = drop h b3 \<and> length (write_at 0 (read_at 0 ip_size buf) b3) = length b3"
    if "20 \<le> h" "length b3 = length buf"
    using that h assms(2) by (simp add: ip_size_def drop_write_at)
  ultimately show "length pkt = length buf" "drop (ip_hl buf * 4) pkt = drop (ip_hl buf * 4) buf"
    unfolding h_def [symmetric] by metis+
qed

text \<open>The frame carries a reply to the request with number \<open>xid\<close>; the DHCP message is at \<open>d\<close>.\<close>

definition reply_for :: "u32 \<Rightarrow> byte list \<Rightarrow> nat \<Rightarrow> bool" where
  "reply_for xid frame d \<longleftrightarrow>
     (let buf = receive_buf frame
      in read_at 12 2 buf = htons 0x0800 \<and> buf ! 23 = IPPROTO_UDP \<and> d = 22 + ip_hl (drop 14 buf) * 4
         \<and> buf ! d = DHCP_BOOTREPLY \<and> buf ! (d + 1) = ARPHRD_ETHER \<and> read_at (d + 4) 4 buf = le32 xid)"

lemma examine_skip:
  assumes "buf' ! d \<noteq> DHCP_BOOTREPLY \<or> buf' ! (d + 1) \<noteq> ARPHRD_ETHER \<or> read_at (d + 4) 4 buf' \<noteq> le32 (r_xid q)"
    "x_buf x = buf'"
  shows "examine q d x = Skip (x\<lparr>x_at := d\<rparr>)"
  using assms by (auto simp: examine_def Let_def)

lemma examine_reply:
  assumes "examine q d x = Done x' \<or> examine q d x = Refused x'"
  shows "x_at x' = d" "x_buf x ! d = DHCP_BOOTREPLY" "x_buf x ! (d + 1) = ARPHRD_ETHER"
    "read_at (d + 4) 4 (x_buf x) = le32 (r_xid q)"
    "\<exists>t. parseDhcpMsgRecv (r_lease q) (read_at 54 4 (x_frame x)) d (x_buf x) (x_opts x) = Some (t, x_buf x', x_opts x')"
    "examine q d x = Done x' \<Longrightarrow> parseDhcpMsgRecv (r_lease q) (read_at 54 4 (x_frame x)) d (x_buf x) (x_opts x)
      = Some (r_msg q, x_buf x', x_opts x')"
    "examine q d x = Refused x' \<Longrightarrow> \<exists>b. opt_val (x_opts x') dhcpMessageType = Some (of_nat DHCP_NAK # b)"
proof -
  obtain t buf opts where p: "parseDhcpMsgRecv (r_lease q) (read_at 54 4 (x_frame x)) d (x_buf x) (x_opts x) = Some (t, buf, opts)"
    using assms by (fastforce simp: examine_def Let_def split: if_splits option.splits)
  have x': "x' = x\<lparr>x_at := d, x_buf := buf, x_opts := opts\<rparr>"
    "x_buf x ! d = DHCP_BOOTREPLY" "x_buf x ! (d + 1) = ARPHRD_ETHER" "read_at (d + 4) 4 (x_buf x) = le32 (r_xid q)"
    using assms p by (auto simp: examine_def Let_def split: if_splits option.splits)
  then show "x_at x' = d" "x_buf x ! d = DHCP_BOOTREPLY" "x_buf x ! (d + 1) = ARPHRD_ETHER"
    "read_at (d + 4) 4 (x_buf x) = le32 (r_xid q)" by simp_all
  show "\<exists>t. parseDhcpMsgRecv (r_lease q) (read_at 54 4 (x_frame x)) d (x_buf x) (x_opts x) = Some (t, x_buf x', x_opts x')"
    using p x' by simp
  show "parseDhcpMsgRecv (r_lease q) (read_at 54 4 (x_frame x)) d (x_buf x) (x_opts x) = Some (r_msg q, x_buf x', x_opts x')"
    if "examine q d x = Done x'"
    using that p x' by (auto simp: examine_def Let_def split: if_splits option.splits)
  show "\<exists>b. opt_val (x_opts x') dhcpMessageType = Some (of_nat DHCP_NAK # b)" if r: "examine q d x = Refused x'"
  proof -
    obtain b where b: "opt_val opts dhcpMessageType = Some b" "b \<noteq> []" "unat (hd b) = DHCP_NAK"
      using r p x' by (auto simp: examine_def Let_def split: if_splits option.splits)
    then have "hd b = of_nat DHCP_NAK" by (metis of_nat_unat ucast_id)
    then have "b = of_nat DHCP_NAK # tl b" using b(2) by (cases b) simp_all
    then show ?thesis using b(1) x'(1) by auto
  qed
qed

lemma nth_drop_eq: "drop k xs = drop k ys \<Longrightarrow> k \<le> i \<Longrightarrow> k \<le> length xs \<Longrightarrow> k \<le> length ys \<Longrightarrow> xs ! i = ys ! i"
  by (metis le_add_diff_inverse nth_drop)

lemma read_at_drop_eq: "drop k xs = drop k ys \<Longrightarrow> k \<le> i \<Longrightarrow> read_at i n xs = read_at i n ys"
  by (metis drop_drop le_add_diff_inverse2 read_at_def)

text \<open>With and without the check, the client looks at the same message.\<close>

lemma accept_cases:
  assumes "accept q f x = v"
  obtains (skip) x' where "v = Skip x'" "x_opts x' = x_opts x" "x_frame x' = x_frame x" "x_j x' = x_j x"
      "x_begin x' = x_begin x" "x_sent x' = x_sent x" "x_waits x' = x_waits x" "x_ip_id x' = x_ip_id x"
  | (crash) "v = Crash" "r_check q" "udpipchk (drop 14 (receive_buf f)) = Underrun"
  | (examine) b d where "v = examine q d (x\<lparr>x_buf := b\<rparr>)" "d = 22 + ip_hl (drop 14 (receive_buf f)) * 4" "length b = 1514"
      "read_at 12 2 (receive_buf f) = htons 0x0800" "receive_buf f ! 23 = IPPROTO_UDP"
      "\<And>i. d \<le> i \<Longrightarrow> b ! i = receive_buf f ! i" "\<And>i n. d \<le> i \<Longrightarrow> read_at i n b = read_at i n (receive_buf f)"
proof -
  define buf where "buf = receive_buf f"
  define h where "h = ip_hl (drop 14 buf) * 4"
  have l: "length buf = 1514" by (simp add: buf_def)
  have h60: "h \<le> 60" using ip_hl_le [of "drop 14 buf"] by (simp add: h_def)
  consider "\<exists>b. v = Skip (x\<lparr>x_buf := b\<rparr>)" | "v = Crash" "r_check q" "udpipchk (drop 14 buf) = Underrun"
    | r pkt where "udpipchk (drop 14 buf) = Chk r pkt" "v = examine q (22 + h) (x\<lparr>x_buf := take 14 buf @ pkt\<rparr>)"
        "read_at 12 2 buf = htons 0x0800" "buf ! 23 = IPPROTO_UDP"
    | "v = examine q (22 + h) (x\<lparr>x_buf := buf\<rparr>)" "read_at 12 2 buf = htons 0x0800" "buf ! 23 = IPPROTO_UDP"
    using assms unfolding accept_def Let_def buf_def [symmetric] h_def [symmetric]
    by (auto simp: udphdr_size_def split: if_splits chk.splits)
  then show ?thesis
  proof cases
    case 1
    then show ?thesis using skip by force
  next
    case 2
    then show ?thesis using crash buf_def by blast
  next
    case (3 r pkt)
    have p: "length pkt = 1500" "drop h pkt = drop h (drop 14 buf)"
      using udpipchk_payload [OF 3(1)] l by (simp_all add: h_def)
    have e: "drop (22 + h) (take 14 buf @ pkt) = drop (22 + h) buf"
    proof -
      have "drop (22 + h) (take 14 buf @ pkt) = drop 8 (drop h pkt)" using l by (simp add: drop_append)
      then show ?thesis unfolding p(2) by (simp add: add.commute)
    qed
    show ?thesis
      using 3 p l h60 nth_drop_eq [OF e] read_at_drop_eq [OF e]
      by (intro examine [of "22 + h" "take 14 buf @ pkt"]) (simp_all add: buf_def h_def)
  next
    case 4
    then show ?thesis using l by (intro examine [of "22 + h" buf]) (simp_all add: buf_def h_def)
  qed
qed

lemma accept_reply:
  assumes "accept q f x = Done x' \<or> accept q f x = Refused x'"
  shows "reply_for (r_xid q) f (x_at x')"
    "accept q f x = Done x' \<Longrightarrow> message_type (x_opts x') = Some (r_msg q)"
    "accept q f x = Refused x' \<Longrightarrow> \<exists>b. opt_val (x_opts x') dhcpMessageType = Some (of_nat DHCP_NAK # b)"
proof -
  obtain v where v: "accept q f x = v" "v = Done x' \<or> v = Refused x'" using assms by blast
  have "reply_for (r_xid q) f (x_at x')
    \<and> (accept q f x = Done x' \<longrightarrow> message_type (x_opts x') = Some (r_msg q))
    \<and> (accept q f x = Refused x' \<longrightarrow> (\<exists>b. opt_val (x_opts x') dhcpMessageType = Some (of_nat DHCP_NAK # b)))"
    using v(1)
  proof (cases rule: accept_cases)
    case (examine b d)
    have e: "examine q d (x\<lparr>x_buf := b\<rparr>) = Done x' \<or> examine q d (x\<lparr>x_buf := b\<rparr>) = Refused x'"
      using v(2) examine(1) by simp
    note r = examine_reply [OF e, simplified]
    have "reply_for (r_xid q) f d"
      using r(2-4) examine by (simp add: reply_for_def)
    moreover have "message_type (x_opts x') = Some (r_msg q)" if "examine q d (x\<lparr>x_buf := b\<rparr>) = Done x'"
      using r(6) [OF that] unfolding parseDhcpMsgRecv_def Let_def by (auto split: Option.bind_splits)
    ultimately show ?thesis using r(1,7) v(1) examine(1) by simp
  qed (use v(2) in simp_all)
  then show "reply_for (r_xid q) f (x_at x')"
    "accept q f x = Done x' \<Longrightarrow> message_type (x_opts x') = Some (r_msg q)"
    "accept q f x = Refused x' \<Longrightarrow> \<exists>b. opt_val (x_opts x') dhcpMessageType = Some (of_nat DHCP_NAK # b)"
    by blast+
qed

section \<open>The loops\<close>

text \<open>A result other than the error comes from one of the frames received.\<close>

lemma loop_result:
  "send_loop q x ss rs = Returned r x' \<Longrightarrow> r = - 1 \<or> (\<exists>f now rnd s y. Recv f now rnd s \<in> set rs
     \<and> (r = 0 \<and> accept q f y = Done x' \<or> r = 1 \<and> accept q f y = Refused x'))"
  "recv_loop q x ss rs = Returned r x' \<Longrightarrow> r = - 1 \<or> (\<exists>f now rnd s y. Recv f now rnd s \<in> set rs
     \<and> (r = 0 \<and> accept q f y = Done x' \<or> r = 1 \<and> accept q f y = Refused x'))"
proof (induction q x ss rs and q x ss rs rule: send_loop_recv_loop.induct)
  case (3 q x now rnd s ss rs)
  then show ?case by (auto simp: Let_def split: option.splits if_splits)
next
  case (6 q x ss frame now rnd s rs)
  obtain timeout y where t: "recv_timeout now rnd x = (timeout, y)" by fastforce
  show ?case
  proof (cases "accept q frame y")
    case (Skip z)
    then have "send_loop q z ss rs = Returned r x' \<and> \<not> (timeout > 0 \<and> peekfd s = 0)
        \<or> recv_loop q z ss rs = Returned r x' \<and> (timeout > 0 \<and> peekfd s = 0)"
      using "6.prems" t by (auto split: if_splits)
    then show ?thesis using "6.IH"(1) [OF t [symmetric] refl Skip] "6.IH"(2) [OF t [symmetric] refl Skip]
      by auto
  qed (use "6.prems" t in auto)
qed (auto split: option.splits)

text \<open>The waiting times double up to the maximum.\<close>

definition rto :: "nat \<Rightarrow> nat \<Rightarrow> int" where
  "rto msg k = (if msg = DHCP_OFFER then 3000000 else min DHCP_MAX_RTO (DHCP_INITIAL_RTO * 2 ^ k))"

lemma next_rto_init: "next_rto msg (DHCP_INITIAL_RTO div 2) = rto msg 0"
  by (simp add: next_rto_def rto_def DHCP_INITIAL_RTO_def DHCP_MAX_RTO_def)

lemma next_rto_step: "next_rto msg (rto msg k) = rto msg (Suc k)"
  by (simp add: next_rto_def rto_def DHCP_INITIAL_RTO_def DHCP_MAX_RTO_def min_def)

fun state_of :: "outcome \<Rightarrow> exchange option" where
  "state_of (Returned r x) = Some x"
| "state_of (Waiting x) = Some x"
| "state_of Fault = None"

definition waits_ok :: "nat \<Rightarrow> int list \<Rightarrow> bool" where
  "waits_ok msg ws \<longleftrightarrow> (\<forall>k < length ws. rto msg k \<le> ws ! k \<and> ws ! k < rto msg k + 200000)"

definition rto_at :: "nat \<Rightarrow> exchange \<Rightarrow> bool" where
  "rto_at msg x \<longleftrightarrow> waits_ok msg (x_waits x) \<and> length (x_sent x) = length (x_waits x)
     \<and> next_rto msg (x_j x) = rto msg (length (x_waits x))"

definition send_ok :: "send_event \<Rightarrow> bool" where
  "send_ok e = (case e of Send_error \<Rightarrow> True | Send now rnd s \<Rightarrow> 0 \<le> rnd)"

lemma accept_keeps:
  assumes "accept q f x = v" "v = Skip x' \<or> v = Done x' \<or> v = Refused x'"
  shows "x_j x' = x_j x" "x_waits x' = x_waits x" "x_sent x' = x_sent x" "x_frame x' = x_frame x"
proof -
  have e: "x_j y' = x_j y \<and> x_waits y' = x_waits y \<and> x_sent y' = x_sent y \<and> x_frame y' = x_frame y"
    if "examine q d y = Skip y' \<or> examine q d y = Done y' \<or> examine q d y = Refused y'" for d y y'
    using that by (auto simp: examine_def Let_def split: if_splits option.splits prod.splits)
  have "x_j x' = x_j x \<and> x_waits x' = x_waits x \<and> x_sent x' = x_sent x \<and> x_frame x' = x_frame x"
    using assms(1)
  proof (cases rule: accept_cases)
    case (examine b d)
    then show ?thesis using e [of d "x\<lparr>x_buf := b\<rparr>" x'] assms(2) by simp
  qed (use assms(2) in auto)
  then show "x_j x' = x_j x" "x_waits x' = x_waits x" "x_sent x' = x_sent x" "x_frame x' = x_frame x" by blast+
qed

lemma waits_ok_snoc: "waits_ok msg (ws @ [w]) \<longleftrightarrow> waits_ok msg ws \<and> rto msg (length ws) \<le> w \<and> w < rto msg (length ws) + 200000"
  by (auto simp: waits_ok_def nth_append less_Suc_eq)

lemma transmitted_rto:
  assumes "prepare q x = Some y" "rto_at (r_msg q) x" "0 \<le> rnd"
  shows "rto_at (r_msg q) (transmitted q now rnd y)"
proof -
  obtain f n where y: "y = x\<lparr>x_j := next_rto (r_msg q) (x_j x), x_frame := f, x_ip_id := n\<rparr>"
    using assms(1) by (auto simp: prepare_def)
  have "0 \<le> crem i 200000 \<and> crem i 200000 < 200000" if "0 \<le> i" for i
    using that by (simp add: crem_pos)
  then show ?thesis
    using assms(2,3) by (simp add: rto_at_def transmitted_def y Let_def waits_ok_snoc next_rto_step)
qed

lemma loop_waits:
  "rto_at (r_msg q) x \<Longrightarrow> list_all send_ok ss \<Longrightarrow> state_of (send_loop q x ss rs) = Some x'
     \<Longrightarrow> waits_ok (r_msg q) (x_waits x') \<and> length (x_sent x') = length (x_waits x')"
  "rto_at (r_msg q) x \<Longrightarrow> list_all send_ok ss \<Longrightarrow> state_of (recv_loop q x ss rs) = Some x'
     \<Longrightarrow> waits_ok (r_msg q) (x_waits x') \<and> length (x_sent x') = length (x_waits x')"
proof (induction q x ss rs and q x ss rs rule: send_loop_recv_loop.induct)
  case (2 q x ss rs)
  then show ?case by (auto simp: rto_at_def prepare_def split: option.splits)
next
  case (3 q x now rnd s ss rs)
  from "3.prems"(3) obtain y where y: "prepare q x = Some y" by (auto split: option.splits)
  have "rto_at (r_msg q) (transmitted q now rnd y)"
    using "3.prems" by (intro transmitted_rto [OF y]) (simp_all add: send_ok_def)
  then show ?case using "3.IH"(1) [OF y refl] "3.IH"(2) [OF y refl] "3.prems" y
    by (auto simp: Let_def split: if_splits)
next
  case (6 q x ss frame now rnd s rs)
  obtain timeout y where t: "recv_timeout now rnd x = (timeout, y)" by fastforce
  have y: "rto_at (r_msg q) y" using "6.prems"(1) recv_timeout_eq [OF t] by (simp add: rto_at_def)
  show ?case
  proof (cases "accept q frame y")
    case (Skip z)
    have "rto_at (r_msg q) z" using y accept_keeps [OF Skip, of z] by (simp add: rto_at_def)
    then show ?thesis using "6.IH"(1) [OF t [symmetric] refl Skip] "6.IH"(2) [OF t [symmetric] refl Skip] "6.prems" t Skip
      by (auto split: if_splits)
  next
    case (Done z)
    then show ?thesis using y accept_keeps [OF Done, of z] "6.prems" t by (auto simp: rto_at_def)
  next
    case (Refused z)
    then show ?thesis using y accept_keeps [OF Refused, of z] "6.prems" t by (auto simp: rto_at_def)
  qed (use "6.prems" t in auto)
qed (auto simp: rto_at_def)

section \<open>The answer of a server\<close>

lemma fill_other: "c \<noteq> k \<Longrightarrow> fill k v s c = s c" "c \<noteq> k \<Longrightarrow> fill4 k v s c = s c"
  by (cases "s k"; simp add: fill_def fill4_def)+

lemma with_defaults_other:
  assumes "c \<notin> {dhcpServerIdentifier, dns, subnetMask, broadcastAddr, dhcpIPaddrLeaseTime, dhcpT1value, dhcpT2value}"
  shows "with_defaults nl src y s c = s c"
  using assms by (simp add: with_defaults_def Let_def fill_other)

lemma content_message_type:
  assumes "content opts dhcpMessageType = Some (b # bs)"
  shows "message_type opts = Some (unat b)" "\<exists>cs. opt_val opts dhcpMessageType = Some (b # cs)"
proof -
  obtain v where v: "opt_val opts dhcpMessageType = Some v" "take (opt_len opts dhcpMessageType) v = b # bs"
    using assms by (auto simp: content_def)
  then obtain cs where "v = b # cs" by (cases v) (auto simp: take_Cons split: nat.splits)
  then show "message_type opts = Some (unat b)" "\<exists>cs. opt_val opts dhcpMessageType = Some (b # cs)"
    using v(1) by (simp_all add: message_type_def)
qed

text \<open>A well-formed reply to request \<open>xid\<close> with the options \<open>os\<close>.\<close>

definition server_frame :: "u32 \<Rightarrow> (byte \<times> byte list) list \<Rightarrow> byte list \<Rightarrow> bool" where
  "server_frame xid os f \<longleftrightarrow>
     good_frame os f \<and> read_at 12 2 f = htons 0x0800 \<and> f ! 14 = 0x45 \<and> f ! 23 = IPPROTO_UDP
     \<and> ntohs (read_at 16 2 f) \<le> 1500 \<and> ntohs (read_at 38 2 f) + 20 \<le> ntohs (read_at 16 2 f)
     \<and> f ! 42 = DHCP_BOOTREPLY \<and> f ! 43 = ARPHRD_ETHER \<and> read_at 46 4 f = le32 xid"

lemma server_frame_accept:
  assumes "server_frame (r_xid q) os f"
  shows "accept q f x = examine q 42 (x\<lparr>x_buf := f\<rparr>)"
proof -
  have g: "length f = 1514" "udpipchk (drop 14 f) = Chk 0 (drop 14 f)" "ip_hl (drop 14 f) = 5"
    using assms by (simp_all add: server_frame_def good_frame_def frame_size_def IPPACKET_SIZE_def ip_hl_def)
  have b: "receive_buf f = f" using g(1) by (simp add: receive_buf_full frame_size_def IPPACKET_SIZE_def)
  show ?thesis
    using assms unfolding accept_def Let_def b g(2,3)
    by (simp add: g(1) server_frame_def frame_size_def IPPACKET_SIZE_def udphdr_size_def)
qed

lemma server_frame_parse:
  assumes "server_frame xid os f" "opts_ok opts" "readable (content opts ++ map_of (rev os))"
    and "length sent = 4" "length nl = 4"
  obtains t m' o' where "parseDhcpMsgRecv nl sent 42 f opts = Some (t, m', o')" "opts_ok o'" "message_type o' = Some t"
    "content o' = with_defaults nl (read_at 26 4 f) (read_at 58 4 m') (content opts ++ map_of (rev os))"
    "read_at 58 4 m' = (if read_at 58 4 f = [0, 0, 0, 0] then sent else read_at 58 4 f)" "take 6 (drop 6 m') = take 6 (drop 6 f)"
    "read_at 58 4 f \<noteq> [0, 0, 0, 0] \<Longrightarrow> m' = f"
proof -
  let ?e = "concat (map enc_option os)"
  have g: "length f = 1514" "proper_options os" "length ?e < 308" "read_at 282 (length ?e + 1) f = ?e @ [endOption]"
    using assms(1) by (simp_all add: server_frame_def good_frame_def frame_size_def IPPACKET_SIZE_def)
  have "f = take 282 f @ read_at 282 (length ?e + 1) f @ drop (length ?e + 1) (drop 282 f)"
    by (simp only: read_at_def append_take_drop_id)
  then have f: "f = take 282 f @ ?e @ endOption # drop (length ?e + 1) (drop 282 f)" using g(4) by simp
  obtain o1 where o1: "parse_loop f (42 + 240) (42 + 548) opts = Some o1" "opts_ok o1" "content o1 = content opts ++ map_of (rev os)"
    using parse_loop_enc [OF f g(2) assms(2), of 590] g(1,3) by auto
  define m' where "m' = (if read_at (42 + 16) 4 f = [0, 0, 0, 0] then write_at (42 + 16) sent f else f)"
  have m: "read_at 58 4 m' = (if read_at 58 4 f = [0, 0, 0, 0] then sent else read_at 58 4 f)"
    "take 6 (drop 6 m') = take 6 (drop 6 f)"
    using assms(4) g(1) read_at_write_at [of "42 + 16" sent f]
    by (simp_all add: m'_def write_at_def drop_take)
  obtain t o' where o: "parseDhcpMsgRecv nl sent 42 f opts = Some (t, m', o')" "opts_ok o'"
    "content o' = with_defaults nl (read_at 26 4 f) (read_at (42 + 16) 4 m') (content o1)" "message_type o' = Some t"
    using parse_refines [OF o1(1,2) _ assms(4,5)] assms(3) g(1) unfolding m'_def o1(3) by force
  show ?thesis using that [OF o(1,2,4)] m o(3) o1(3) by (simp add: m'_def)
qed

text \<open>What the exchange makes of such a reply of type \<open>t\<close>.\<close>

lemma examine_server_reply:
  assumes "server_frame (r_xid q) os f" "map_of (rev os) dhcpMessageType = Some [of_nat t]" "t < 256"
    and "t = r_msg q \<or> t = DHCP_NAK"
    and "opts_ok (x_opts x)" "readable (content (x_opts x) ++ map_of (rev os))"
    and "length (x_frame x) = frame_size" "length (r_lease q) = 4"
  obtains x' where "accept q f x = (if t = r_msg q then Done x' else Refused x')" "opts_ok (x_opts x')" "x_at x' = 42"
    "content (x_opts x') = with_defaults (r_lease q) (read_at 26 4 f) (read_at 58 4 (x_buf x'))
       (content (x_opts x) ++ map_of (rev os))"
    "read_at 58 4 (x_buf x') = (if read_at 58 4 f = [0, 0, 0, 0] then read_at 54 4 (x_frame x) else read_at 58 4 f)"
    "\<exists>sent. parseDhcpMsgRecv (r_lease q) sent 42 f (x_opts x) = Some (t, x_buf x', x_opts x')"
    "read_at 58 4 f \<noteq> [0, 0, 0, 0] \<Longrightarrow> x_buf x' = f"
proof -
  let ?s = "read_at 54 4 (x_frame x)"
  have "length ?s = 4" using assms(7) by (simp add: frame_size_def IPPACKET_SIZE_def)
  then obtain t' m' o' where p: "parseDhcpMsgRecv (r_lease q) ?s 42 f (x_opts x) = Some (t', m', o')" "opts_ok o'"
    "message_type o' = Some t'"
    "content o' = with_defaults (r_lease q) (read_at 26 4 f) (read_at 58 4 m') (content (x_opts x) ++ map_of (rev os))"
    "read_at 58 4 m' = (if read_at 58 4 f = [0, 0, 0, 0] then ?s else read_at 58 4 f)"
    "read_at 58 4 f \<noteq> [0, 0, 0, 0] \<Longrightarrow> m' = f"
    by (rule server_frame_parse [OF assms(1,5,6) _ assms(8)]) blast
  have "content o' dhcpMessageType = Some [of_nat t]" using assms(2) by (simp add: p(4) with_defaults_other)
  then obtain b where t: "t' = t" "opt_val o' dhcpMessageType = Some (of_nat t # b)"
    using content_message_type [of o' "of_nat t"] p(3) assms(3) by (auto simp: unat_of_nat_byte)
  have s: "f ! 42 = DHCP_BOOTREPLY" "f ! 43 = ARPHRD_ETHER" "read_at 46 4 f = le32 (r_xid q)"
    using assms(1) by (simp_all add: server_frame_def)
  let ?x' = "x\<lparr>x_at := 42, x_buf := m', x_opts := o'\<rparr>"
  have "accept q f x = (if t = r_msg q then Done ?x' else Refused ?x')"
    unfolding server_frame_accept [OF assms(1)] using p(1) t s assms(3,4)
    by (auto simp: examine_def Let_def unat_of_nat_byte DHCP_NAK_def)
  then show ?thesis using that [of ?x'] p t(1) by auto
qed

text \<open>Frames that the client passes over, and sends after which a frame arrives in time.\<close>

definition irrelevant :: "request \<Rightarrow> recv_event \<Rightarrow> bool" where
  "irrelevant q e = (case e of
     Recv_error \<Rightarrow> False
   | Recv g now rnd s \<Rightarrow> \<not> reply_for (r_xid q) g (22 + ip_hl (drop 14 (receive_buf g)) * 4)
       \<and> (r_check q \<longrightarrow> udpipchk (drop 14 (receive_buf g)) \<noteq> Underrun))"

definition prompt :: "send_event \<Rightarrow> bool" where
  "prompt e = (case e of Send_error \<Rightarrow> False | Send now rnd s \<Rightarrow> s = Readable)"

definition builds :: "request \<Rightarrow> dhcpOptions \<Rightarrow> bool" where
  "builds q opts \<longleftrightarrow> (\<forall>n. \<exists>f n'. r_build q opts (r_xid q) n = Some (f, n') \<and> length f = frame_size)"

lemma accept_irrelevant:
  assumes "irrelevant q (Recv g now rnd s)"
  obtains x' where "accept q g x = Skip x'" "x_opts x' = x_opts x" "x_frame x' = x_frame x"
proof -
  from refl [of "accept q g x"] show ?thesis
  proof (cases rule: accept_cases)
    case (examine b d)
    then have "examine q d (x\<lparr>x_buf := b\<rparr>) = Skip (x\<lparr>x_buf := b, x_at := d\<rparr>)"
      using assms by (subst examine_skip [of b]) (auto simp: irrelevant_def reply_for_def Let_def)
    then show ?thesis using that examine(1) by simp
  qed (use assms that in \<open>auto simp: irrelevant_def\<close>)
qed

lemma send_loop_prompt:
  assumes "builds q (x_opts x)" "list_all prompt ss" "ss \<noteq> []"
  obtains y where "send_loop q x ss rs = recv_loop q y (tl ss) rs" "x_opts y = x_opts x" "length (x_frame y) = frame_size"
proof -
  obtain now rnd where s: "ss = Send now rnd Readable # tl ss"
    using assms(2,3) by (cases ss) (auto simp: prompt_def split: send_event.splits)
  obtain f n where f: "r_build q (x_opts x) (r_xid q) (x_ip_id x) = Some (f, n)" "length f = frame_size"
    using assms(1) unfolding builds_def by blast
  show ?thesis
    by (rule that, subst s, simp add: prepare_def f(1) peekfd_def) (simp_all add: transmitted_def Let_def f(2))
qed

lemma noise_skipped:
  assumes "list_all (irrelevant q) pre" "list_all prompt ss" "length pre \<le> length ss"
    and "builds q (x_opts x)" "length (x_frame x) = frame_size"
  shows "\<exists>y ss'. recv_loop q x ss (pre @ rs) = recv_loop q y ss' rs \<and> x_opts y = x_opts x
    \<and> length (x_frame y) = frame_size"
  using assms
proof (induction pre arbitrary: x ss)
  case Nil
  then show ?case by auto
next
  case (Cons e pre)
  then obtain g now rnd s where e: "e = Recv g now rnd s" "irrelevant q (Recv g now rnd s)"
    by (cases e) (auto simp: irrelevant_def)
  obtain timeout y where t: "recv_timeout now rnd x = (timeout, y)" by fastforce
  obtain z where z: "accept q g y = Skip z" "x_opts z = x_opts y" "x_frame z = x_frame y"
    by (rule accept_irrelevant [OF e(2)])
  have z': "builds q (x_opts z)" "length (x_frame z) = frame_size" "x_opts z = x_opts x"
    using Cons.prems z recv_timeout_eq [OF t] by simp_all
  show ?case
  proof (cases "timeout > 0 \<and> peekfd s = 0")
    case True
    then have "recv_loop q x ss ((e # pre) @ rs) = recv_loop q z ss (pre @ rs)" using e(1) t z(1) by simp
    then show ?thesis using Cons.IH [of ss z] Cons.prems z' by auto
  next
    case False
    then have r: "recv_loop q x ss ((e # pre) @ rs) = send_loop q z ss (pre @ rs)" using e(1) t z(1) by auto
    have "ss \<noteq> []" using Cons.prems by auto
    then obtain w where w: "send_loop q z ss (pre @ rs) = recv_loop q w (tl ss) (pre @ rs)" "x_opts w = x_opts z"
      "length (x_frame w) = frame_size"
      by (rule send_loop_prompt [OF z'(1) Cons.prems(2)])
    have "list_all prompt (tl ss)" using Cons.prems(2) by (cases ss) simp_all
    then show ?thesis using Cons.IH [of "tl ss" w] Cons.prems z' w r by auto
  qed
qed

lemma exchange_reply:
  assumes "server_frame (r_xid q) os f" "map_of (rev os) dhcpMessageType = Some [of_nat t]" "t < 256"
    and "t = r_msg q \<or> t = DHCP_NAK"
    and "opts_ok (x_opts x)" "readable (content (x_opts x) ++ map_of (rev os))" "length (r_lease q) = 4"
    and "builds q (x_opts x)" "list_all (irrelevant q) pre" "list_all prompt ss" "length pre < length ss"
  obtains x' sent where
    "dhcpSendAndRecv q x ss (pre @ Recv f now rnd s # post) = Returned (if t = r_msg q then 0 else 1) x'"
    "opts_ok (x_opts x')" "x_at x' = 42"
    "content (x_opts x') = with_defaults (r_lease q) (read_at 26 4 f) (read_at 58 4 (x_buf x'))
       (content (x_opts x) ++ map_of (rev os))"
    "read_at 58 4 (x_buf x') = (if read_at 58 4 f = [0, 0, 0, 0] then sent else read_at 58 4 f)"
    "\<exists>sent. parseDhcpMsgRecv (r_lease q) sent 42 f (x_opts x) = Some (t, x_buf x', x_opts x')"
    "read_at 58 4 f \<noteq> [0, 0, 0, 0] \<Longrightarrow> x_buf x' = f"
proof -
  let ?rs = "pre @ Recv f now rnd s # post"
  let ?x = "x\<lparr>x_j := DHCP_INITIAL_RTO div 2\<rparr>"
  have "ss \<noteq> []" using assms(11) by auto
  then obtain y where y: "send_loop q ?x ss ?rs = recv_loop q y (tl ss) ?rs" "x_opts y = x_opts x" "length (x_frame y) = frame_size"
    using send_loop_prompt [of q ?x ss ?rs] assms(8,10) by auto
  have "list_all prompt (tl ss)" "length pre \<le> length (tl ss)" using assms(10,11) by (cases ss, simp_all)
  then obtain z ss' where z: "recv_loop q y (tl ss) ?rs = recv_loop q z ss' (Recv f now rnd s # post)"
    "x_opts z = x_opts x" "length (x_frame z) = frame_size"
    using noise_skipped [OF assms(9), of "tl ss" y] y assms(8) by metis
  obtain timeout w where w: "recv_timeout now rnd z = (timeout, w)" by fastforce
  have w': "x_opts w = x_opts x" "length (x_frame w) = frame_size" using recv_timeout_eq [OF w] z by simp_all
  obtain x' where x': "accept q f w = (if t = r_msg q then Done x' else Refused x')" "opts_ok (x_opts x')" "x_at x' = 42"
    "content (x_opts x') = with_defaults (r_lease q) (read_at 26 4 f) (read_at 58 4 (x_buf x'))
       (content (x_opts w) ++ map_of (rev os))"
    "read_at 58 4 (x_buf x') = (if read_at 58 4 f = [0, 0, 0, 0] then read_at 54 4 (x_frame w) else read_at 58 4 f)"
    "\<exists>sent. parseDhcpMsgRecv (r_lease q) sent 42 f (x_opts w) = Some (t, x_buf x', x_opts x')"
    "read_at 58 4 f \<noteq> [0, 0, 0, 0] \<Longrightarrow> x_buf x' = f"
    by (rule examine_server_reply [OF assms(1-4), of w]) (use assms(5-7) w' in auto)
  have "dhcpSendAndRecv q x ss ?rs = Returned (if t = r_msg q then 0 else 1) x'"
    using y(1) z(1) w x'(1) by (simp add: dhcpSendAndRecv_def)
  then show ?thesis using that [of x' "read_at 54 4 (x_frame w)"] x'(2-7) unfolding w'(1) by auto
qed

section \<open>An example\<close>

lemma udp_send_headers:
  fixes sa da :: u32 and ip_id :: u16
  assumes "length buf = 1514"
  defines "f \<equiv> fst (udp_send sa da buf ip_id)"
  shows "f ! 14 = 0x45" "f ! 23 = IPPROTO_UDP" "read_at 16 2 f = htons 576" "read_at 38 2 f = htons 556"
    "read_at 12 2 f = read_at 12 2 buf"
proof -
  obtain r where "f = take 14 buf @ ip_header sa da 548 ip_id @ (htons 68 @ htons 67 @ htons 556) @ r"
    using assms udpipgen_eq [of "htons 68" "htons 67" "drop 14 buf" sa da 548 ip_id]
    by (simp add: f_def udp_send_def Let_def DHCP_CLIENT_PORT_def DHCP_SERVER_PORT_def dhcpMessage_size_def)
  then show "f ! 14 = 0x45" "f ! 23 = IPPROTO_UDP" "read_at 16 2 f = htons 576" "read_at 38 2 f = htons 556"
    "read_at 12 2 f = read_at 12 2 buf"
    using assms(1) by (simp_all add: nth_append ip_header_def IPPROTO_UDP_def read_at_def drop_take)
qed

definition sample_head :: "byte list" where
  "sample_head = write_at 278 (be_bytes 4 MAGIC_COOKIE) (write_at 58 [192, 168, 0, 77]
     (write_at 46 (le32 7) (write_at 42 [2, 1, 6] (write_at 12 (htons 0x0800) (replicate 1514 0)))))"

definition sample_offer_opts :: "nat \<Rightarrow> (byte \<times> byte list) list" where
  "sample_offer_opts t = [(dhcpMessageType, [of_nat t]), (dhcpServerIdentifier, [192, 168, 0, 1])]"

definition sample_packet :: "byte list list \<Rightarrow> byte list" where
  "sample_packet cs = fst (udp_send 0x0100A8C0 INADDR_BROADCAST (put_options cs sample_head) 0)"

definition sample_offer :: "nat \<Rightarrow> byte list" where
  "sample_offer t = sample_packet [type_chunk t, [dhcpServerIdentifier, 4, 192, 168, 0, 1], [endOption]]"

definition sample_query :: "nat \<Rightarrow> request" where
  "sample_query t = \<lparr>r_xid = 7, r_msg = t, r_build = (\<lambda>opts xid n. Some (buildDhcpDiscover sample_conf sample_iface xid n)),
     r_lease = [0, 0, 14, 16], r_check = True\<rparr>"

definition sample_exchange :: exchange where
  "sample_exchange = \<lparr>x_j = 0, x_begin = \<lparr>tv_sec = 0, tv_usec = 0\<rparr>, x_frame = [], x_buf = [], x_at = 42,
     x_opts = releaseDhcpOptions, x_ip_id = 0, x_sent = [], x_waits = []\<rparr>"

lemma sample_builds: "builds (sample_query t) opts"
proof -
  have "length (fst (buildDhcpDiscover sample_conf sample_iface xid n)) = frame_size" for xid n
    using discover_frame [OF sample_ok, of xid n] by (simp add: good_frame_def)
  then show ?thesis
    unfolding builds_def sample_query_def by (metis (no_types, lifting) prod.collapse request.select_convs(1,3))
qed

lemma sample_head_facts: "length sample_head = 1514" "read_at 278 4 sample_head = be_bytes 4 MAGIC_COOKIE"
  by (simp_all add: sample_head_def read_at_write_at)

lemma sample_packet_frame:
  assumes "concat cs = concat (map enc_option os) @ [endOption]" "proper_options os" "length (concat (map enc_option os)) < 308"
  shows "server_frame 7 os (sample_packet cs)"
proof -
  let ?b = "put_options cs sample_head" and ?f = "sample_packet cs"
  have g: "good_frame os ?f"
    unfolding sample_packet_def using assms by (intro message_frame sample_head_facts) simp_all
  have b: "?b = write_at 282 (concat cs) sample_head"
    using assms by (intro put_options_eq) (simp_all add: sample_head_facts)
  have l: "length ?b = 1514" "length (concat cs) \<le> 308" unfolding b using assms by (simp_all add: sample_head_facts)
  note u = udp_send_frame(3) [OF l(1), of "0x0100A8C0" INADDR_BROADCAST 0, folded sample_packet_def]
  note h = udp_send_headers [OF l(1), of "0x0100A8C0" INADDR_BROADCAST 0, folded sample_packet_def]
  have n: "?f ! i = ?b ! i" "read_at i k ?f = read_at i k ?b" if "42 \<le> i" for i k
    using nth_drop_eq [OF u that] read_at_drop_eq [OF u that] l g by (simp_all add: good_frame_def frame_size_def IPPACKET_SIZE_def)
  have "?b ! 42 = DHCP_BOOTREPLY" "?b ! 43 = ARPHRD_ETHER"
    unfolding b using l(2) by (simp_all add: sample_head_def nth_write_at DHCP_BOOTREPLY_def ARPHRD_ETHER_def)
  moreover have "read_at 46 4 ?b = le32 7" "read_at 12 2 ?b = htons 0x0800"
    unfolding b using l(2) by (simp_all add: sample_head_def read_at_write_at read_at_write_other)
  moreover have "ntohs (htons 576) = 576" "ntohs (htons 556) = 556" by (simp_all add: be_val_be_bytes)
  ultimately show ?thesis using g h n by (simp add: server_frame_def)
qed

lemma sample_server_frame: "server_frame 7 (sample_offer_opts t) (sample_offer t)"
  unfolding sample_offer_def
  by (rule sample_packet_frame) (simp_all add: sample_offer_opts_def enc_option_def proper_options_def type_chunk_def)

definition sample_sends :: "send_event list" where
  "sample_sends = [Send \<lparr>tv_sec = 1, tv_usec = 0\<rparr> 5 Readable]"

lemma sample_fields:
  "r_xid (sample_query t) = 7" "r_msg (sample_query t) = t" "length (r_lease (sample_query t)) = 4"
  "x_opts sample_exchange = releaseDhcpOptions" "x_waits sample_exchange = []" "x_sent sample_exchange = []"
  "list_all prompt sample_sends" "length sample_sends = 1"
  by (simp_all add: sample_query_def sample_exchange_def sample_sends_def prompt_def)

lemma sample_premises:
  "server_frame (r_xid (sample_query m)) (sample_offer_opts t) (sample_offer t)"
  "map_of (rev (sample_offer_opts t)) dhcpMessageType = Some [of_nat t]"
  "opts_ok (x_opts sample_exchange)" "readable (content (x_opts sample_exchange) ++ map_of (rev (sample_offer_opts t)))"
  "builds (sample_query m) (x_opts sample_exchange)" "list_all (irrelevant (sample_query m)) []"
  "length ([] :: recv_event list) < length sample_sends"
  by (simp_all add: sample_fields sample_server_frame sample_builds opts_ok_release)
    (simp_all add: sample_offer_opts_def readable_def)

section \<open>Properties\<close>

text \<open>
  An exchange succeeds or is refused only by an answer to it: if it returns 0, a frame was received
  that carries a BOOTP reply with the number of the request, and the type of the message in the table is
  the awaited one; if it returns 1, such a frame carried a DHCPNAK; every other return is an error of
  \<^verbatim>\<open>sendto\<close> or \<^verbatim>\<open>recvfrom\<close>.
\<close>

theorem exchange_answered:
  assumes "dhcpSendAndRecv q x ss rs = Returned r x'"
  shows "r = - 1 \<or> (\<exists>f now rnd s. Recv f now rnd s \<in> set rs \<and> reply_for (r_xid q) f (x_at x')
    \<and> (r = 0 \<and> message_type (x_opts x') = Some (r_msg q) \<or> r = 1 \<and> message_type (x_opts x') = Some DHCP_NAK))"
proof -
  have n: "message_type o' = Some DHCP_NAK" if "\<exists>b. opt_val o' dhcpMessageType = Some (of_nat DHCP_NAK # b)" for o'
    using that by (auto simp: message_type_def DHCP_NAK_def)
  from loop_result(1) [OF assms [unfolded dhcpSendAndRecv_def]] show ?thesis
    using accept_reply(1,2) accept_reply(3) [THEN n] by blast
qed

theorem exchange_answered_witness:
  "\<exists>x'. dhcpSendAndRecv (sample_query 2) sample_exchange sample_sends
     ([] @ [Recv (sample_offer 2) \<lparr>tv_sec = 2, tv_usec = 0\<rparr> 5 Expired]) = Returned 0 x'
   \<and> message_type (x_opts x') = Some 2"
proof -
  obtain x' where x: "dhcpSendAndRecv (sample_query 2) sample_exchange sample_sends
      ([] @ [Recv (sample_offer 2) \<lparr>tv_sec = 2, tv_usec = 0\<rparr> 5 Expired]) = Returned 0 x'"
    using exchange_reply [where now = "\<lparr>tv_sec = 2, tv_usec = 0\<rparr>" and rnd = 5 and s = Expired and post = "[]", 
        OF sample_premises(1,2) _ _ sample_premises(3,4) sample_fields(3) sample_premises(5,6)
        sample_fields(7) sample_premises(7), of 2 2] unfolding sample_fields by (auto split: if_splits)
  then show ?thesis using exchange_answered [OF x] unfolding sample_fields by auto
qed



text \<open>
  C32. Retransmission: the client waits for the answer to its \<open>k\<close>-th packet 4, 8, 16, 32 and then always 64
  seconds, 3 seconds in the case of a DHCPDISCOVER, and in each case up to 0.2 seconds more; this holds in
  whatever way the exchange ends or as long as it goes on.
\<close>

theorem retransmission_backoff:
  assumes "state_of (dhcpSendAndRecv q x ss rs) = Some x'" and "x_waits x = []" and "x_sent x = []"
    and "list_all send_ok ss"
  shows "length (x_sent x') = length (x_waits x') \<and> (\<forall>k. k < length (x_waits x') \<longrightarrow>
    (let t = (if r_msg q = DHCP_OFFER then 3000000 else min 64000000 (4000000 * 2 ^ k))
     in t \<le> x_waits x' ! k \<and> x_waits x' ! k < t + 200000))"
proof -
  have "rto_at (r_msg q) (x\<lparr>x_j := DHCP_INITIAL_RTO div 2\<rparr>)"
    using assms(2,3) by (simp add: rto_at_def waits_ok_def next_rto_init)
  from loop_waits(1) [OF this assms(4) assms(1) [unfolded dhcpSendAndRecv_def]] show ?thesis
    unfolding waits_ok_def rto_def DHCP_MAX_RTO_def DHCP_INITIAL_RTO_def Let_def
    by (cases "r_msg q = DHCP_OFFER") simp_all
qed

theorem retransmission_backoff_witness:
  "\<exists>x'. dhcpSendAndRecv (sample_query 5) sample_exchange
      [Send \<lparr>tv_sec = 1, tv_usec = 0\<rparr> 5 Expired, Send \<lparr>tv_sec = 5, tv_usec = 0\<rparr> 7 Expired] [] = Waiting x'
    \<and> length (x_waits x') = 2 \<and> 8000000 \<le> x_waits x' ! 1 \<and> x_waits x' ! 1 < 8200000"
proof -
  let ?ss = "[Send \<lparr>tv_sec = 1, tv_usec = 0\<rparr> 5 Expired, Send \<lparr>tv_sec = 5, tv_usec = 0\<rparr> 7 Expired]"
  obtain x' where x: "dhcpSendAndRecv (sample_query 5) sample_exchange ?ss [] = Waiting x'" "length (x_waits x') = 2"
    by (simp add: dhcpSendAndRecv_def prepare_def sample_query_def sample_exchange_def peekfd_def transmitted_def Let_def
        split: prod.splits)
  then have "state_of (dhcpSendAndRecv (sample_query 5) sample_exchange ?ss []) = Some x'" by simp
  from retransmission_backoff [OF this] x show ?thesis
    by (auto simp: sample_fields send_ok_def DHCP_OFFER_def Let_def dest: spec [of _ 1])
qed

text \<open>
  A reply without a message type stops the client: when the first reply to the request has no such
  option and the table has none either, the client reads through a null pointer.
\<close>

theorem typeless_reply_faults:
  assumes "server_frame (r_xid q) os f" and "map_of (rev os) dhcpMessageType = None"
    and "content (x_opts x) dhcpMessageType = None" and "r_msg q \<noteq> 0"
    and "opts_ok (x_opts x)" and "readable (content (x_opts x) ++ map_of (rev os))" and "length (r_lease q) = 4"
    and "builds q (x_opts x)" and "list_all prompt ss" and "ss \<noteq> []"
  shows "dhcpSendAndRecv q x ss (Recv f now rnd s # post) = Fault"
proof -
  let ?rs = "Recv f now rnd s # post"
  let ?x = "x\<lparr>x_j := DHCP_INITIAL_RTO div 2\<rparr>"
  obtain y where y: "send_loop q ?x ss ?rs = recv_loop q y (tl ss) ?rs" "x_opts y = x_opts x" "length (x_frame y) = frame_size"
    using send_loop_prompt [of q ?x ss ?rs] assms(8-10) by auto
  obtain timeout w where w: "recv_timeout now rnd y = (timeout, w)" by fastforce
  have w': "x_opts w = x_opts x" "length (read_at 54 4 (x_frame w)) = 4"
    using recv_timeout_eq [OF w] y by (simp_all add: frame_size_def IPPACKET_SIZE_def)
  obtain t m' o' where p: "parseDhcpMsgRecv (r_lease q) (read_at 54 4 (x_frame w)) 42 f (x_opts w) = Some (t, m', o')"
    "message_type o' = Some t"
    "content o' = with_defaults (r_lease q) (read_at 26 4 f) (read_at 58 4 m') (content (x_opts x) ++ map_of (rev os))"
    using server_frame_parse [OF assms(1,5,6) w'(2) assms(7)] w'(1) by metis
  have "content o' dhcpMessageType = None" using assms(2,3) by (simp add: p(3) with_defaults_other map_add_def)
  then have n: "opt_val o' dhcpMessageType = None" by (simp add: content_def)
  then have "t = 0" using p(2) by (simp add: message_type_def)
  moreover have "f ! 42 = DHCP_BOOTREPLY" "f ! 43 = ARPHRD_ETHER" "read_at 46 4 f = le32 (r_xid q)"
    using assms(1) by (simp_all add: server_frame_def)
  ultimately have "accept q f w = Crash"
    unfolding server_frame_accept [OF assms(1)] using p(1) n assms(4) by (simp add: examine_def Let_def)
  then show ?thesis using y(1) w by (simp add: dhcpSendAndRecv_def)
qed

theorem typeless_reply_faults_witness:
  "dhcpSendAndRecv (sample_query 2) sample_exchange sample_sends
     [Recv (sample_packet [[dhcpServerIdentifier, 4, 192, 168, 0, 1], [endOption]]) \<lparr>tv_sec = 2, tv_usec = 0\<rparr> 5 Expired] = Fault"
proof -
  let ?os = "[(dhcpServerIdentifier, [192, 168, 0, 1 :: byte])]"
  have "server_frame (r_xid (sample_query 2)) ?os (sample_packet [[dhcpServerIdentifier, 4, 192, 168, 0, 1], [endOption]])"
    unfolding sample_fields by (rule sample_packet_frame) (simp_all add: enc_option_def proper_options_def)
  moreover have "readable (content (x_opts sample_exchange) ++ map_of (rev ?os))"
    by (simp add: sample_fields readable_def)
  ultimately show ?thesis
    using sample_premises(3,5) sample_fields by (intro typeless_reply_faults [where os = ?os]) auto
qed

end
