(* ===== verification/Arp.thy ===== *)
theory Arp
  imports Dhcp_Exchange
begin

text \<open>
  The ARP messages of the DHCP client (\<^verbatim>\<open>dhcpcd-1.3.22-pl1/arp.c\<close>): the probe for an address in use
  (\<open>arpCheck\<close>) and the announcements \<open>arpRelease\<close> and \<open>arpInform\<close>.  The answers of the system calls are
  lists, as for the DHCP exchange.
\<close>

section \<open>Definitions\<close>

definition ETHERTYPE_ARP :: nat where "ETHERTYPE_ARP = 0x0806"
definition ETHERTYPE_IP :: nat where "ETHERTYPE_IP = 0x0800"
definition ARPOP_REQUEST :: nat where "ARPOP_REQUEST = 1"
definition ARPOP_REPLY :: nat where "ARPOP_REPLY = 2"
definition arpMessage_size :: nat where "arpMessage_size = 60"

text \<open>The Ethernet header of every ARP message of the client, and the fields of the probe.\<close>

definition arp_head :: "byte list \<Rightarrow> byte list" where
  "arp_head hw =
     (let m = replicate arpMessage_size 0;
          m = write_at 0 MAC_BCAST_ADDR m;
          m = write_at 6 hw m
      in write_at 12 (htons ETHERTYPE_ARP) m)"

definition arp_probe :: "byte list \<Rightarrow> u32 \<Rightarrow> byte list" where
  "arp_probe hw ip =
     (let m = arp_head hw;
          m = write_at 14 (htons (unat ARPHRD_ETHER)) m;
          m = write_at 16 (htons ETHERTYPE_IP) m;
          m = write_at 18 [of_nat ETH_ALEN, 4] m;
          m = write_at 20 (htons ARPOP_REQUEST) m;
          m = write_at 22 hw m
      in write_at 38 (le32 ip) m)"

definition arpRelease :: "byte list \<Rightarrow> u32 \<Rightarrow> byte list" where
  "arpRelease hw ip =
     (let m = arp_head hw;
          m = write_at 14 (htons ETHERTYPE_IP) m;
          m = write_at 16 (htons ETHERTYPE_IP) m;
          m = write_at 19 [4] m;
          m = write_at 20 (htons ARPOP_REPLY) m;
          m = write_at 28 (le32 ip) m
      in write_at 38 (le32 INADDR_BROADCAST) m)"

definition arpInform :: "byte list \<Rightarrow> dhcpInterface \<Rightarrow> byte list" where
  "arpInform hw i =
     (let m = arp_head hw;
          m = write_at 14 (htons (unat ARPHRD_ETHER)) m;
          m = write_at 16 (htons ETHERTYPE_IP) m;
          m = write_at 18 [of_nat ETH_ALEN, 4] m;
          m = write_at 20 (htons ARPOP_REPLY) m;
          m = write_at 22 hw m;
          m = write_at 32 (shaddr i) m;
          m = write_at 28 (le32 (ciaddr i)) m
      in write_at 38 (le32 INADDR_BROADCAST) m)"

text \<open>A received frame shows that another station has the address \<open>ip\<close> or probes for it.\<close>

definition arp_buf :: "byte list \<Rightarrow> byte list" where
  "arp_buf frame = take arpMessage_size frame @ replicate (arpMessage_size - length frame) 0"

definition in_use :: "byte list \<Rightarrow> u32 \<Rightarrow> byte list \<Rightarrow> bool" where
  "in_use hw ip m =
     (if read_at 12 2 m \<noteq> htons ETHERTYPE_ARP then False
      else if read_at 20 2 m = htons ARPOP_REPLY then read_at 28 4 m = le32 ip
      else if read_at 20 2 m = htons ARPOP_REQUEST \<and> read_at 22 6 m \<noteq> hw \<and> read_at 38 4 m = le32 ip then True
      else False)"

text \<open>The answers to \<open>sendto\<close> and \<open>peekfd\<close>, and to \<open>recvfrom\<close> and \<open>peekfd\<close>.\<close>

datatype probe_event = Probe_error | Probe selected
datatype hear_event = Hear_error | Hear "byte list" selected

text \<open>The result and the number of probes sent; \<^const>\<open>None\<close>: still waiting when the answers end.\<close>

fun probe_loop :: "byte list \<Rightarrow> u32 \<Rightarrow> nat \<Rightarrow> nat \<Rightarrow> probe_event list \<Rightarrow> hear_event list \<Rightarrow> (int \<times> nat) option"
  and hear_loop :: "byte list \<Rightarrow> u32 \<Rightarrow> nat \<Rightarrow> nat \<Rightarrow> probe_event list \<Rightarrow> hear_event list \<Rightarrow> (int \<times> nat) option" where
  "probe_loop hw ip i n ps hs =
     (if i > 4 then Some (0, n)
      else case ps of
             [] \<Rightarrow> None
           | Probe_error # ps \<Rightarrow> Some (- 1, n)
           | Probe s # ps \<Rightarrow> if peekfd s \<noteq> 0 then probe_loop hw ip (i + 1) (n + 1) ps hs
                             else hear_loop hw ip (i + 1) (n + 1) ps hs)"
| "hear_loop hw ip i n ps [] = None"
| "hear_loop hw ip i n ps (Hear_error # hs) = Some (- 1, n)"
| "hear_loop hw ip i n ps (Hear frame s # hs) =
     (if in_use hw ip (arp_buf frame) then Some (1, n)
      else if peekfd s = 0 then hear_loop hw ip i n ps hs else probe_loop hw ip i n ps hs)"

definition arpCheck :: "byte list \<Rightarrow> u32 \<Rightarrow> probe_event list \<Rightarrow> hear_event list \<Rightarrow> (int \<times> nat) option" where
  "arpCheck hw ip ps hs = probe_loop hw ip 0 0 ps hs"

declare probe_loop.simps [simp del]

section \<open>Messages\<close>

lemma arp_head_facts:
  assumes "length hw = 6"
  shows "length (arp_head hw) = 60" "read_at 12 2 (arp_head hw) = htons ETHERTYPE_ARP"
  using assms by (simp_all add: arp_head_def Let_def arpMessage_size_def MAC_BCAST_ADDR_def read_at_write_at)

lemma arp_messages_length:
  assumes "length hw = 6" "length (shaddr i) = 6"
  shows "length (arp_probe hw ip) = 60" "length (arpRelease hw ip) = 60" "length (arpInform hw i) = 60"
  using assms arp_head_facts
  by (simp_all add: arp_probe_def arpRelease_def arpInform_def Let_def)

lemma arp_ops_differ: "htons ARPOP_REQUEST \<noteq> htons ARPOP_REPLY"
  by (simp add: ARPOP_REQUEST_def ARPOP_REPLY_def be_bytes_def numeral_2_eq_2)

text \<open>The client does not take its own probe for a use of the address.\<close>

lemma own_probe: "length hw = 6 \<Longrightarrow> \<not> in_use hw ip (arp_buf (arp_probe hw ip))"
proof -
  assume h: "length hw = 6"
  let ?m = "arp_probe hw ip"
  have l: "length ?m = 60" using h arp_head_facts [OF h] by (simp add: arp_probe_def Let_def)
  then have b: "arp_buf ?m = ?m" by (simp add: arp_buf_def arpMessage_size_def)
  have "read_at 22 6 ?m = hw" "read_at 20 2 ?m = htons ARPOP_REQUEST"
    using h arp_head_facts [OF h] read_at_write_at [of 22 hw]
    by (simp_all add: arp_probe_def Let_def read_at_write_at read_at_write_other)
  then show ?thesis using arp_ops_differ by (simp add: b in_use_def)
qed

section \<open>The check\<close>

text \<open>At most five probes are sent, and 1 is returned only on a frame that shows the address in use.\<close>

lemma arp_loops:
  "probe_loop hw ip i n ps hs = Some (r, n') \<Longrightarrow> n \<le> i \<Longrightarrow> i \<le> 5 \<Longrightarrow>
     n' \<le> 5 \<and> (r = 1 \<longrightarrow> (\<exists>f s. Hear f s \<in> set hs \<and> in_use hw ip (arp_buf f)))"
  "hear_loop hw ip i n ps hs = Some (r, n') \<Longrightarrow> n \<le> i \<Longrightarrow> i \<le> 5 \<Longrightarrow>
     n' \<le> 5 \<and> (r = 1 \<longrightarrow> (\<exists>f s. Hear f s \<in> set hs \<and> in_use hw ip (arp_buf f)))"
proof (induction hw ip i n ps hs and hw ip i n ps hs rule: probe_loop_hear_loop.induct)
  case (1 hw ip i n ps hs)
  show ?case using 1(3-5) 1(1,2)
    unfolding probe_loop.simps [of hw ip i n ps hs] by (auto split: if_splits list.splits probe_event.splits)
qed (auto split: if_splits)

lemma arpCheck_bound:
  assumes "arpCheck hw ip ps hs = Some (r, n)"
  shows "n \<le> 5" "r = 1 \<Longrightarrow> \<exists>f s. Hear f s \<in> set hs \<and> in_use hw ip (arp_buf f)"
  using arp_loops(1) [of hw ip 0 0 ps hs r n] assms by (auto simp: arpCheck_def)

text \<open>On a silent network the address is free after five probes.\<close>

lemma arpCheck_silent: "arpCheck hw ip (replicate 5 (Probe Expired)) hs = Some (0, 5)"
  by (simp add: arpCheck_def probe_loop.simps peekfd_def numeral_eq_Suc)

text \<open>A use of the address is found behind any other frames.\<close>

lemma hear_loop_found:
  assumes "\<forall>g \<in> set gs. \<not> in_use hw ip (arp_buf g)" "in_use hw ip (arp_buf f)"
  shows "hear_loop hw ip i n ps (map (\<lambda>g. Hear g Readable) gs @ Hear f s # hs) = Some (1, n)"
  using assms by (induction gs) (simp_all add: peekfd_def)

lemma arpCheck_found:
  assumes "\<forall>g \<in> set gs. \<not> in_use hw ip (arp_buf g)" "in_use hw ip (arp_buf f)"
  shows "arpCheck hw ip (Probe Readable # ps) (map (\<lambda>g. Hear g Readable) gs @ Hear f s # hs) = Some (1, 1)"
  using hear_loop_found [OF assms, of 1 1 ps s hs] by (simp add: arpCheck_def probe_loop.simps peekfd_def)

end
