(* ===== verification/Dhcp_Config.thy ===== *)
theory Dhcp_Config
  imports Arp
begin

text \<open>
  The configuration of the interface and of the system from a reply (\<open>dhcpConfig\<close>, \<open>readDhcpCache\<close> and
  \<open>deleteDhcpCache\<close> in \<^verbatim>\<open>dhcpcd-1.3.22-pl1/client.c\<close>): address, routes, \<^verbatim>\<open>resolv.conf\<close>, \<^verbatim>\<open>yp.conf\<close>,
  \<^verbatim>\<open>ntp.conf\<close>, host and domain name, the cache and the information file.  What the kernel and the file
  system answer is an argument; the effects are the fields of a record.  Reading outside an option value
  is the result \<^const>\<open>None\<close>.
\<close>

section \<open>Printing\<close>

text \<open>\<^verbatim>\<open>%u.%u.%u.%u\<close>, \<^verbatim>\<open>%02X\<close> and six of them, and \<^verbatim>\<open>%s\<close> of a byte array.\<close>

definition dotted :: "byte list \<Rightarrow> string" where
  "dotted a = show_nat (unat (a ! 0)) @ ''.'' @ show_nat (unat (a ! 1)) @ ''.''
     @ show_nat (unat (a ! 2)) @ ''.'' @ show_nat (unat (a ! 3))"

definition hex_digit :: "nat \<Rightarrow> char" where
  "hex_digit n = (if n < 10 then char_of (48 + n) else char_of (55 + n))"

definition hex2 :: "byte \<Rightarrow> string" where
  "hex2 b = [hex_digit (unat b div 16), hex_digit (unat b mod 16)]"

definition mac :: "byte list \<Rightarrow> string" where
  "mac a = hex2 (a ! 0) @ '':'' @ hex2 (a ! 1) @ '':'' @ hex2 (a ! 2) @ '':'' @ hex2 (a ! 3) @ '':''
     @ hex2 (a ! 4) @ '':'' @ hex2 (a ! 5)"

definition chars :: "byte list \<Rightarrow> string" where
  "chars = map (\<lambda>b. char_of (unat b))"

definition c_text :: "byte list \<Rightarrow> string option" where
  "c_text b = (if 0 \<in> set b then Some (chars (takeWhile (\<lambda>c. c \<noteq> 0) b)) else None)"

text \<open>Four bytes of an option value at an offset, and a loop over a value in steps.\<close>

definition quad :: "dhcpOptions \<Rightarrow> byte \<Rightarrow> nat \<Rightarrow> byte list option" where
  "quad opts c i =
     (case opt_val opts c of None \<Rightarrow> None | Some b \<Rightarrow> if i + 4 \<le> length b then Some (read_at i 4 b) else None)"

function offsets :: "nat \<Rightarrow> nat \<Rightarrow> nat \<Rightarrow> nat list" where
  "offsets i step n = (if i < n \<and> 0 < step then i # offsets (i + step) step n else [])"
  by pat_completeness auto
termination by (relation "measure (\<lambda>(i, step, n). n - i)") auto

declare offsets.simps [simp del]

definition each_quad :: "dhcpOptions \<Rightarrow> byte \<Rightarrow> nat \<Rightarrow> byte list list option" where
  "each_quad opts c i = those (map (quad opts c) (offsets i 4 (opt_len opts c)))"

definition opt_string :: "dhcpOptions \<Rightarrow> byte \<Rightarrow> string option" where
  "opt_string opts c = Option.bind (opt_val opts c) c_text"

section \<open>The files\<close>

definition resolv_conf :: "dhcpOptions \<Rightarrow> string option" where
  "resolv_conf opts = do {
     ns \<leftarrow> each_quad opts dns 0;
     let text = concat (map (\<lambda>a. ''nameserver '' @ dotted a @ [NL]) ns);
     if opt_len opts domainName \<noteq> 0
     then do {d \<leftarrow> opt_string opts domainName; Some (text @ ''search '' @ d @ [NL])}
     else Some text}"

definition nis_conf :: "dhcpOptions \<Rightarrow> string option" where
  "nis_conf opts = do {
     let c = (if opt_len opts nisDomainName \<noteq> 0 then nisDomainName else domainName);
     domain \<leftarrow> (if opt_val opts c = None then Some ''localdomain'' else opt_string opts c);
     ss \<leftarrow> each_quad opts nisServers 0;
     Some (concat (map (\<lambda>a. ''domain '' @ domain @ '' server '' @ dotted a @ [NL]) ss)
       @ (if opt_len opts nisServers = 0 then ''domain '' @ domain @ '' broadcast'' @ [NL] else []))}"

definition network :: "u32 \<Rightarrow> byte list \<Rightarrow> byte list" where
  "network a m = map2 (\<lambda>x y. x AND y) (le32 a) m"

definition ntp_text :: "u32 \<Rightarrow> dhcpOptions \<Rightarrow> string option" where
  "ntp_text a opts = do {
     nm \<leftarrow> opt4 opts subnetMask;
     servers \<leftarrow> (if 4 \<le> opt_len opts ntpServers
       then map_option (\<lambda>ss. concat (map (\<lambda>s. ''restrict '' @ dotted s @ [NL] @ ''server '' @ dotted s @ [NL]) ss))
              (each_quad opts ntpServers 0)
       else Some (''fudge 127.127.1.0 stratum 3'' @ [NL] @ ''server 127.127.1.0'' @ [NL]));
     Some (''restrict default noquery notrust nomodify'' @ [NL] @ ''restrict 127.0.0.1'' @ [NL]
       @ ''restrict '' @ dotted (network a nm) @ '' mask '' @ dotted nm @ [NL] @ servers
       @ ''driftfile /etc/ntp.drift'' @ [NL] @ ''logfile /var/log/ntp.log'' @ [NL])}"

text \<open>The information file: a list of addresses, the routes, an optional name, and the whole text.\<close>

definition info_list :: "dhcpOptions \<Rightarrow> byte \<Rightarrow> string option" where
  "info_list opts c = do {
     a \<leftarrow> quad opts c 0;
     as \<leftarrow> each_quad opts c 4;
     Some (dotted a @ concat (map (\<lambda>a. '','' @ dotted a) as))}"

definition route_pair :: "dhcpOptions \<Rightarrow> nat \<Rightarrow> (byte list \<times> byte list) option" where
  "route_pair opts i = do {d \<leftarrow> quad opts staticRoute i; g \<leftarrow> quad opts staticRoute (i + 4); Some (d, g)}"

definition info_routes :: "dhcpOptions \<Rightarrow> string option" where
  "info_routes opts = do {
     (d, g) \<leftarrow> route_pair opts 0;
     ps \<leftarrow> those (map (route_pair opts) (offsets 8 8 (opt_len opts staticRoute)));
     Some ([NL] @ ''ROUTE='' @ dotted d @ '','' @ dotted g
       @ concat (map (\<lambda>(d, g). '','' @ dotted d @ '','' @ dotted g) ps))}"

definition info_name :: "dhcpOptions \<Rightarrow> byte \<Rightarrow> string \<Rightarrow> string option" where
  "info_name opts c key =
     (if opt_len opts c \<noteq> 0 then map_option (\<lambda>s. [NL] @ key @ ''='' @ s) (opt_string opts c) else Some [])"

definition info_addresses :: "dhcpOptions \<Rightarrow> u32 \<Rightarrow> string option" where
  "info_addresses opts a = do {
     nm \<leftarrow> opt4 opts subnetMask;
     brd \<leftarrow> opt4 opts broadcastAddr;
     gw \<leftarrow> (if 3 < opt_len opts routersOnSubnet
             then map_option (\<lambda>s. ''GATEWAY='' @ s) (info_list opts routersOnSubnet) else Some []);
     rt \<leftarrow> (if opt_len opts staticRoute \<noteq> 0 then info_routes opts else Some []);
     Some (''IPADDR='' @ dotted (le32 a) @ [NL] @ ''NETMASK='' @ dotted nm @ [NL]
       @ ''NETWORK='' @ dotted (network a nm) @ [NL] @ ''BROADCAST='' @ dotted brd @ [NL] @ gw @ rt)}"

definition info_servers :: "dhcpOptions \<Rightarrow> string option" where
  "info_servers opts = do {
     names \<leftarrow> those [info_name opts hostName ''HOSTNAME'', info_name opts domainName ''DOMAIN'',
                     info_name opts nisDomainName ''NISDOMAIN'', info_name opts rootPath ''ROOTPATH''];
     d \<leftarrow> info_list opts dns;
     ntp \<leftarrow> (if 4 \<le> opt_len opts ntpServers
             then map_option (\<lambda>s. [NL] @ ''NTPSERVERS='' @ s) (info_list opts ntpServers) else Some []);
     nis \<leftarrow> (if 4 \<le> opt_len opts nisServers
             then map_option (\<lambda>s. [NL] @ ''NISSERVERS='' @ s) (info_list opts nisServers) else Some []);
     Some (concat names @ [NL] @ ''DNS='' @ d @ ntp @ nis)}"

text \<open>
  The last part: \<open>buf\<close> is the receive buffer with the message at offset \<open>d\<close>, \<open>ifname\<close> the interface,
  \<open>ClientID\<close> the identifier from the command line.
\<close>

definition info_lease ::
  "dhcpOptions \<Rightarrow> dhcpInterface \<Rightarrow> byte list \<Rightarrow> byte list \<Rightarrow> nat \<Rightarrow> string \<Rightarrow> byte list option \<Rightarrow> string option" where
  "info_lease opts i hw buf d ifname ClientID = do {
     sid \<leftarrow> opt4 opts dhcpServerIdentifier;
     sname \<leftarrow> c_text (drop (d + 44) buf);
     lease \<leftarrow> opt4 opts dhcpIPaddrLeaseTime;
     t1 \<leftarrow> opt4 opts dhcpT1value;
     t2 \<leftarrow> opt4 opts dhcpT2value;
     cls \<leftarrow> c_text (class_id i @ client_id i);
     Some ([NL] @ ''DHCPSID='' @ dotted sid @ [NL] @ ''DHCPGIADDR='' @ dotted (read_at (d + 24) 4 buf) @ [NL]
       @ ''DHCPSIADDR='' @ dotted (read_at (d + 20) 4 buf) @ [NL] @ ''DHCPCHADDR='' @ mac hw @ [NL]
       @ ''DHCPSHADDR='' @ mac (shaddr i) @ [NL] @ ''DHCPSNAME='' @ sname @ [NL]
       @ ''LEASETIME='' @ show_nat (be_val lease) @ [NL] @ ''RENEWALTIME='' @ show_nat (be_val t1) @ [NL]
       @ ''REBINDTIME='' @ show_nat (be_val t2) @ [NL] @ ''INTERFACE='' @ ifname @ [NL]
       @ ''CLASSID='' @ [CHR 0x22] @ cls @ [CHR 0x22, NL]
       @ (case ClientID of
            Some cid \<Rightarrow> ''CLIENTID='' @ [CHR 0x22] @ chars cid @ [CHR 0x22, NL]
          | None \<Rightarrow> ''CLIENTID='' @ mac (drop 3 (client_id i)) @ [NL]))}"

definition host_info ::
  "dhcpOptions \<Rightarrow> dhcpInterface \<Rightarrow> byte list \<Rightarrow> byte list \<Rightarrow> nat \<Rightarrow> string \<Rightarrow> byte list option \<Rightarrow> string option" where
  "host_info opts i hw buf d ifname ClientID = do {
     a \<leftarrow> info_addresses opts (ciaddr i);
     s \<leftarrow> info_servers opts;
     l \<leftarrow> info_lease opts i hw buf d ifname ClientID;
     Some (a @ s @ l)}"

section \<open>The system\<close>

definition RTF_UP :: u16 where "RTF_UP = 1"
definition RTF_GATEWAY :: u16 where "RTF_GATEWAY = 2"
definition RTF_HOST :: u16 where "RTF_HOST = 4"
definition RTF_WINDOW :: u16 where "RTF_WINDOW = 0x80"

record rtentry =
  rt_dst :: "byte list"
  rt_gateway :: "byte list"
  rt_genmask :: "byte list"
  rt_metric :: nat
  rt_window :: int
  rt_flags :: u16

text \<open>
  What the client changes: address, mask and broadcast address of the interface, the routes, the files,
  the cache, host and domain name, the ARP messages sent, the calls of \<^verbatim>\<open>ipchg_api\<close>,
  whether the interface is up, the DHCP messages sent and the calls of the script of \<^verbatim>\<open>execute_on_change\<close>.
\<close>

record host =
  h_addr :: "byte list"
  h_mask :: "byte list"
  h_brd :: "byte list"
  h_routes :: "rtentry list"
  h_files :: "string \<Rightarrow> string option"
  h_cache :: "byte list option"
  h_hostname :: "byte list"
  h_domain :: "byte list"
  h_arp :: "byte list list"
  h_ipchg :: "string list"
  h_up :: bool
  h_sent :: "byte list list"
  h_scripts :: "string list"

text \<open>
  What the system answers: to \<^verbatim>\<open>SIOCSIFADDR\<close> (clearing and setting), \<^verbatim>\<open>SIOCSIFNETMASK\<close>, \<^verbatim>\<open>SIOCSIFBRDADDR\<close>,
  \<^verbatim>\<open>SIOCADDRT\<close>, opening a file for writing, opening the cache and writing some of its bytes, sending the ARP message, \<^verbatim>\<open>gethostbyaddr\<close>,
  \<^verbatim>\<open>gethostname\<close> and \<^verbatim>\<open>getdomainname\<close>.
\<close>

datatype rt_answer = Rt_ok | Rt_unreachable | Rt_failed
datatype cache_answer = Cache_closed | Cache_written nat

record answers =
  a_clear :: bool
  a_addr :: bool
  a_mask :: "byte list \<Rightarrow> bool"
  a_brd :: bool
  a_route :: "rtentry list \<Rightarrow> rtentry \<Rightarrow> rt_answer"
  a_open :: "string \<Rightarrow> bool"
  a_cache :: cache_answer
  a_arp :: bool
  a_name :: "byte list option"
  a_gethost :: "byte list option"
  a_getdomain :: "byte list option"

text \<open>The settings of the command line that only the configuration uses.\<close>

record settings =
  IfNameExt :: string
  ConfigDir :: string
  ReplResolvConf :: bool
  ReplNISConf :: bool
  ReplNTPConf :: bool
  SetHostName :: bool
  SetDomainName :: bool
  TestCase :: bool
  Window :: int
  DoCheckSum :: bool
  ClassID :: "byte list option"
  ClientID :: "byte list option"
  TimeOut :: int

text \<open>
  The variables of the client: settings for messages (with \<open>ClientHwAddr\<close>), \<open>DhcpIface\<close>, \<open>DhcpOptions\<close>,
  \<open>UdpIpMsgSend\<close>, \<open>UdpIpMsgRecv\<close> and the offset of \<open>DhcpMsgRecv\<close> in it, \<open>ip_id\<close>, \<open>prev_ip_addr\<close>,
  \<open>ReqSentTime\<close>, the time of the pending alarm, \<open>inform_ipaddr\<close>, \<open>resolv_renamed\<close>, \<open>yp_renamed\<close>, \<open>ntp_renamed\<close>, the initial host and domain names, and
  the system.
\<close>

record client =
  cl_conf :: dhcp_conf
  cl_iface :: dhcpInterface
  cl_opts :: dhcpOptions
  cl_frame :: "byte list"
  cl_buf :: "byte list"
  cl_at :: nat
  cl_ip_id :: u16
  cl_prev :: u32
  cl_time :: int
  cl_alarm :: "int option"
  cl_inform :: u32
  cl_resolv :: bool
  cl_yp :: bool
  cl_ntp :: bool
  cl_inithost :: "byte list option"
  cl_initdomain :: "byte list option"
  cl_host :: host

definition RESOLV_CONF :: string where "RESOLV_CONF = ''/etc/resolv.conf''"
definition NIS_CONF :: string where "NIS_CONF = ''/tmp/dhcpc/yp.conf''"
definition NTP_CONF :: string where "NTP_CONF = ''/tmp/dhcpc/ntp.conf''"

definition DHCP_HOSTINFO :: "settings \<Rightarrow> string" where
  "DHCP_HOSTINFO s = ConfigDir s @ ''/dhcpcd-'' @ IfNameExt s @ ''.info''"

text \<open>\<^verbatim>\<open>rename\<close>, and opening and writing a file.\<close>

definition rename :: "string \<Rightarrow> string \<Rightarrow> host \<Rightarrow> bool \<times> host" where
  "rename old new h =
     (case h_files h old of
        None \<Rightarrow> (False, h)
      | Some t \<Rightarrow> (True, h\<lparr>h_files := (h_files h)(old := None, new := Some t)\<rparr>))"

definition put_file :: "answers \<Rightarrow> string \<Rightarrow> string option \<Rightarrow> host \<Rightarrow> host option" where
  "put_file a path t h =
     (if a_open a path then map_option (\<lambda>t. h\<lparr>h_files := (h_files h)(path \<mapsto> t)\<rparr>) t else Some h)"

section \<open>Address and routes\<close>

text \<open>Setting the address, the mask and the broadcast address; \<open>Inl\<close>: the state in which it failed.\<close>

definition set_address :: "answers \<Rightarrow> client \<Rightarrow> (host + host) option" where
  "set_address a c =
     (let h = cl_host c; opts = cl_opts c
      in if \<not> a_clear a then Some (Inl h)
         else let h = h\<lparr>h_addr := [0, 0, 0, 0]\<rparr>
              in if \<not> a_addr a then Some (Inl h)
                 else do {
                   let h = h\<lparr>h_addr := le32 (ciaddr (cl_iface c))\<rparr>;
                   m \<leftarrow> opt4 opts subnetMask;
                   if \<not> a_mask a m \<and> \<not> a_mask a [255, 255, 255, 255] then Some (Inl h)
                   else do {
                     let h = h\<lparr>h_mask := (if a_mask a m then m else [255, 255, 255, 255])\<rparr>;
                     b \<leftarrow> opt4 opts broadcastAddr;
                     Some (Inr (if a_brd a then h\<lparr>h_brd := b\<rparr> else h))}})"

definition add_route :: "answers \<Rightarrow> rtentry \<Rightarrow> host \<Rightarrow> rt_answer \<times> host" where
  "add_route a rt h =
     (let r = a_route a (h_routes h) rt in (r, if r = Rt_ok then h\<lparr>h_routes := h_routes h @ [rt]\<rparr> else h))"

definition static_entry :: "byte list \<times> byte list \<Rightarrow> rtentry" where
  "static_entry = (\<lambda>(d, g). \<lparr>rt_dst = d, rt_gateway = g, rt_genmask = [255, 255, 255, 255], rt_metric = 1,
     rt_window = 0, rt_flags = RTF_UP OR RTF_HOST OR RTF_GATEWAY\<rparr>)"

definition static_routes :: "answers \<Rightarrow> dhcpOptions \<Rightarrow> host \<Rightarrow> host option" where
  "static_routes a opts h = do {
     ps \<leftarrow> those (map (route_pair opts) (offsets 0 8 (opt_len opts staticRoute)));
     Some (fold (\<lambda>p h. snd (add_route a (static_entry p) h)) ps h)}"

definition default_entry :: "int \<Rightarrow> byte list \<Rightarrow> rtentry" where
  "default_entry w g = \<lparr>rt_dst = [0, 0, 0, 0], rt_gateway = g, rt_genmask = [0, 0, 0, 0], rt_metric = 1,
     rt_window = w, rt_flags = RTF_UP OR RTF_GATEWAY OR (if w \<noteq> 0 then RTF_WINDOW else 0)\<rparr>"

definition gateway_entry :: "byte list \<Rightarrow> rtentry" where
  "gateway_entry g = \<lparr>rt_dst = g, rt_gateway = [0, 0, 0, 0], rt_genmask = [255, 255, 255, 255], rt_metric = 0,
     rt_window = 0, rt_flags = RTF_UP OR RTF_HOST\<rparr>"

text \<open>A gateway that cannot be reached gets a host route first.\<close>

definition default_route :: "answers \<Rightarrow> int \<Rightarrow> byte list \<Rightarrow> host \<Rightarrow> host" where
  "default_route a w g h =
     (let (r, h) = add_route a (default_entry w g) h
      in if r = Rt_unreachable
         then let (r, h) = add_route a (gateway_entry g) h
              in if r = Rt_ok then snd (add_route a (default_entry w g) h) else h
         else h)"

definition default_routes :: "answers \<Rightarrow> int \<Rightarrow> dhcpOptions \<Rightarrow> host \<Rightarrow> host option" where
  "default_routes a w opts h =
     (if 3 < opt_len opts routersOnSubnet
      then map_option (\<lambda>gs. fold (default_route a w) gs h) (each_quad opts routersOnSubnet 0)
      else Some h)"

section \<open>Names\<close>

text \<open>The domain in a full host name: behind the first dot.\<close>

fun after_dot :: "byte list \<Rightarrow> byte list" where
  "after_dot [] = []"
| "after_dot (c # cs) = (if c > 32 then if c = 46 then cs else after_dot cs else c # cs)"

definition add_name :: "byte \<Rightarrow> byte list \<Rightarrow> dhcpOptions \<Rightarrow> dhcpOptions" where
  "add_name k v opts = opts\<lparr>opt_num := opt_num opts + 1, opt_len := (opt_len opts)(k := length v mod 256),
     opt_val := (opt_val opts)(k \<mapsto> v @ [0])\<rparr>"

definition set_host_name :: "answers \<Rightarrow> client \<Rightarrow> client" where
  "set_host_name a c =
     (let opts = cl_opts c;
          opts = (case a_name a of
                    None \<Rightarrow> opts
                  | Some n \<Rightarrow> if opt_len opts hostName = 0 then add_name hostName (takeWhile (\<lambda>c. c > 32) n) opts
                              else opts);
          c = c\<lparr>cl_opts := opts\<rparr>;
          c = (if cl_inithost c = None then c\<lparr>cl_inithost := a_gethost a\<rparr> else c);
          l = opt_len opts hostName
      in if l \<noteq> 0
         then case opt_val opts hostName of None \<Rightarrow> c | Some b \<Rightarrow> c\<lparr>cl_host := (cl_host c)\<lparr>h_hostname := take l b\<rparr>\<rparr>
         else c)"

definition set_domain_name :: "answers \<Rightarrow> client \<Rightarrow> client" where
  "set_domain_name a c =
     (let opts = cl_opts c;
          c = (if cl_initdomain c = None then c\<lparr>cl_initdomain := a_getdomain a\<rparr> else c);
          opts = (case a_name a of
                    None \<Rightarrow> opts
                  | Some n \<Rightarrow> if opt_len opts domainName = 0 \<and> after_dot n \<noteq> []
                              then add_name domainName (after_dot n) opts else opts);
          c = c\<lparr>cl_opts := opts\<rparr>;
          l = opt_len opts domainName
      in if l \<noteq> 0
         then case opt_val opts domainName of None \<Rightarrow> c | Some b \<Rightarrow> c\<lparr>cl_host := (cl_host c)\<lparr>h_domain := take l b\<rparr>\<rparr>
         else c)"

section \<open>The cache\<close>

text \<open>\<^verbatim>\<open>struct dhcpInterface\<close> as bytes, with its padding.\<close>

definition VERSION :: "byte list" where
  "VERSION = map of_char ''1.3.22-pl1'' @ [0]"

definition dhcpInterface_size :: nat where "dhcpInterface_size = 136"

definition encode_iface :: "dhcpInterface \<Rightarrow> byte list" where
  "encode_iface i = version i @ [0] @ le32 (ciaddr i) @ le32 (siaddr i) @ le_bytes 4 (class_len i)
     @ le_bytes 4 (client_len i) @ le32 (if_xid i) @ shaddr i @ class_id i @ take 50 (client_id i @ [0, 0])"

definition decode_iface :: "byte list \<Rightarrow> dhcpInterface" where
  "decode_iface b = \<lparr>version = read_at 0 11 b, ciaddr = of_le32 (read_at 12 4 b), siaddr = of_le32 (read_at 16 4 b),
     class_len = le_val (read_at 20 4 b), client_len = le_val (read_at 24 4 b), if_xid = of_le32 (read_at 28 4 b),
     shaddr = read_at 32 6 b, class_id = read_at 38 48 b, client_id = read_at 86 48 b\<rparr>"

definition readDhcpCache :: "client \<Rightarrow> bool \<times> client" where
  "readDhcpCache c =
     (case h_cache (cl_host c) of
        None \<Rightarrow> (False, c)
      | Some bs \<Rightarrow>
          let raw = take dhcpInterface_size bs @ drop (length bs) (encode_iface (cl_iface c));
              c = c\<lparr>cl_iface := decode_iface raw\<rparr>
          in if length bs < dhcpInterface_size then (False, c)
             else if version (cl_iface c) \<noteq> VERSION then (False, c)
             else (True, c\<lparr>cl_prev := ciaddr (cl_iface c)\<rparr>))"

definition deleteDhcpCache :: "client \<Rightarrow> client" where
  "deleteDhcpCache c = c\<lparr>cl_host := (cl_host c)\<lparr>h_cache := None\<rparr>\<rparr>"

definition write_cache :: "answers \<Rightarrow> client \<Rightarrow> client" where
  "write_cache a c =
     (let c = c\<lparr>cl_iface := (cl_iface c)\<lparr>version := VERSION\<rparr>\<rparr>
      in case a_cache a of
           Cache_closed \<Rightarrow> c
         | Cache_written n \<Rightarrow> c\<lparr>cl_host := (cl_host c)\<lparr>h_cache := Some (take n (encode_iface (cl_iface c)))\<rparr>\<rparr>)"

section \<open>The configuration\<close>

text \<open>Replacing a configuration file: the old one is renamed, the new one written.\<close>

definition replace_file :: "answers \<Rightarrow> string \<Rightarrow> string option \<Rightarrow> host \<Rightarrow> (bool \<times> host) option" where
  "replace_file a path t h =
     (let (r, h) = rename path (path @ ''.sv'') h in map_option (\<lambda>h. (r, h)) (put_file a path t h))"

definition replace_files :: "settings \<Rightarrow> answers \<Rightarrow> client \<Rightarrow> client option" where
  "replace_files s a c = do {
     c \<leftarrow> (if ReplResolvConf s
       then map_option (\<lambda>(r, h). c\<lparr>cl_resolv := r, cl_host := h\<rparr>)
              (replace_file a RESOLV_CONF (resolv_conf (cl_opts c)) (cl_host c)) else Some c);
     c \<leftarrow> (if ReplNISConf s
       then map_option (\<lambda>(r, h). c\<lparr>cl_yp := r, cl_host := h\<rparr>)
              (replace_file a NIS_CONF (nis_conf (cl_opts c)) (cl_host c)) else Some c);
     if ReplNTPConf s
     then map_option (\<lambda>(r, h). c\<lparr>cl_ntp := r, cl_host := h\<rparr>)
            (replace_file a NTP_CONF (ntp_text (ciaddr (cl_iface c)) (cl_opts c)) (cl_host c)) else Some c}"

definition write_info :: "settings \<Rightarrow> answers \<Rightarrow> client \<Rightarrow> client option" where
  "write_info s a c =
     (let path = take 127 (DHCP_HOSTINFO s);
          h = snd (rename path (take 127 (DHCP_HOSTINFO s @ ''.old'')) (cl_host c))
      in map_option (\<lambda>h. c\<lparr>cl_host := h\<rparr>)
           (put_file a path (host_info (cl_opts c) (cl_iface c) (ClientHwAddr (cl_conf c)) (cl_buf c) (cl_at c)
              (IfNameExt s) (ClientID s)) h))"

datatype config_end = Config_ok | Config_failed | Config_exit

text \<open>The interface, the routes and the system files (left out in a test run).\<close>

definition set_routes :: "settings \<Rightarrow> answers \<Rightarrow> client \<Rightarrow> client option" where
  "set_routes s a c = do {
     h \<leftarrow> static_routes a (cl_opts c) (cl_host c);
     h \<leftarrow> default_routes a (Window s) (cl_opts c) h;
     let h = (if a_arp a then h\<lparr>h_arp := h_arp h @ [arpInform (ClientHwAddr (cl_conf c)) (cl_iface c)]\<rparr> else h);
     Some (c\<lparr>cl_host := h\<rparr>)}"

definition set_names :: "settings \<Rightarrow> answers \<Rightarrow> client \<Rightarrow> client" where
  "set_names s a c =
     (let c = (if SetHostName s then set_host_name a c else c)
      in if SetDomainName s then set_domain_name a c else c)"

definition ipchg :: "string \<Rightarrow> client \<Rightarrow> client" where
  "ipchg arg c = c\<lparr>cl_host := (cl_host c)\<lparr>h_ipchg := h_ipchg (cl_host c) @ [arg]\<rparr>\<rparr>"

text \<open>From the label \<open>tsc\<close> on.\<close>

definition config_tail :: "settings \<Rightarrow> answers \<Rightarrow> client \<Rightarrow> (config_end \<times> client) option" where
  "config_tail s a c = do {
     c \<leftarrow> write_info s a (write_cache a c);
     let c = ipchg ''start'' (c\<lparr>cl_prev := ciaddr (cl_iface c)\<rparr>);
     lease \<leftarrow> opt4 (cl_opts c) dhcpIPaddrLeaseTime;
     Some (if lease = [255, 255, 255, 255] then Config_exit else Config_ok, c)}"

definition dhcpConfig :: "settings \<Rightarrow> answers \<Rightarrow> client \<Rightarrow> (config_end \<times> client) option" where
  "dhcpConfig s a c =
     (let c = ipchg ''stop'' c
      in if TestCase s then config_tail s a c
         else do {
           r \<leftarrow> set_address a c;
           case r of
             Inl h \<Rightarrow> Some (Config_failed, c\<lparr>cl_host := h\<rparr>)
           | Inr h \<Rightarrow> do {
               c \<leftarrow> set_routes s a (c\<lparr>cl_host := h\<rparr>);
               c \<leftarrow> replace_files s a c;
               config_tail s a (set_names s a c)}})"

section \<open>Values as lists of addresses\<close>

fun chunks4 :: "byte list \<Rightarrow> byte list list" where
  "chunks4 (a # b # c # d # r) = [a, b, c, d] # chunks4 r"
| "chunks4 _ = []"

fun chunks8 :: "byte list \<Rightarrow> (byte list \<times> byte list) list" where
  "chunks8 (a # b # c # d # e # f # g # h # r) = ([a, b, c, d], [e, f, g, h]) # chunks8 r"
| "chunks8 _ = []"

lemma chunks4_step: "4 \<le> length v \<Longrightarrow> chunks4 v = take 4 v # chunks4 (drop 4 v)"
  by (cases v rule: chunks4.cases) simp_all

lemma chunks8_step: "8 \<le> length v \<Longrightarrow> chunks8 v = (take 4 v, take 4 (drop 4 v)) # chunks8 (drop 8 v)"
  by (cases v rule: chunks8.cases) simp_all

lemma those_cons: "those (x # xs) = (case x of None \<Rightarrow> None | Some y \<Rightarrow> map_option (Cons y) (those xs))"
  by simp

lemma offsets_end: "n \<le> i \<Longrightarrow> offsets i k n = []"
  by (simp add: offsets.simps)

lemma quads_from:
  assumes "opt_val opts c = Some b" "n \<le> length b" "4 dvd n - i"
  shows "those (map (quad opts c) (offsets i 4 n)) = Some (chunks4 (drop i (take n b)))"
  using assms(3,2)
proof (induction i "4 :: nat" n rule: offsets.induct)
  case (1 i n)
  show ?case
  proof (cases "i < n")
    case True
    then have "4 \<le> n - i" using 1(2) by (metis dvd_imp_le zero_less_diff)
    then have l: "i + 4 \<le> length b" using True 1(3) by linarith
    have "4 dvd n - (i + 4)"
      using 1(2) dvd_diff_nat [of 4 "n - i" 4] by (simp add: diff_diff_eq)
    then have "those (map (quad opts c) (offsets (i + 4) 4 n)) = Some (chunks4 (drop (i + 4) (take n b)))"
      using 1(1,3) True by simp
    moreover have "quad opts c i = Some (take 4 (drop i (take n b)))"
      using \<open>4 \<le> n - i\<close> l assms(1) by (simp add: quad_def read_at_def drop_take min_def)
    moreover have "chunks4 (drop i (take n b)) = take 4 (drop i (take n b)) # chunks4 (drop (i + 4) (take n b))"
      using \<open>4 \<le> n - i\<close> 1(3) chunks4_step [of "drop i (take n b)"] by (simp add: add.commute)
    moreover have "offsets i 4 n = i # offsets (i + 4) 4 n" using True by (subst offsets.simps) simp
    ultimately show ?thesis by simp
  next
    case False
    then show ?thesis by (simp add: offsets_end)
  qed
qed

lemma pairs_from:
  assumes "opt_val opts staticRoute = Some b" "n \<le> length b" "8 dvd n - i"
  shows "those (map (route_pair opts) (offsets i 8 n)) = Some (chunks8 (drop i (take n b)))"
  using assms(3,2)
proof (induction i "8 :: nat" n rule: offsets.induct)
  case (1 i n)
  show ?case
  proof (cases "i < n")
    case True
    then have "8 \<le> n - i" using 1(2) by (metis dvd_imp_le zero_less_diff)
    then have l: "i + 4 \<le> length b" "i + 8 \<le> length b" using True 1(3) by linarith+
    have "8 dvd n - (i + 8)"
      using 1(2) dvd_diff_nat [of 8 "n - i" 8] by (simp add: diff_diff_eq)
    then have "those (map (route_pair opts) (offsets (i + 8) 8 n)) = Some (chunks8 (drop (i + 8) (take n b)))"
      using 1(1,3) True by simp
    moreover have "quad opts staticRoute i = Some (take 4 (drop i (take n b)))"
      "quad opts staticRoute (i + 4) = Some (take 4 (drop 4 (drop i (take n b))))"
      using \<open>8 \<le> n - i\<close> l assms(1) by (simp_all add: quad_def read_at_def drop_take min_def add.commute)
    moreover have "chunks8 (drop i (take n b)) = (take 4 (drop i (take n b)), take 4 (drop 4 (drop i (take n b))))
        # chunks8 (drop (i + 8) (take n b))"
      using \<open>8 \<le> n - i\<close> 1(3) chunks8_step [of "drop i (take n b)"] by (simp add: add.commute)
    moreover have "offsets i 8 n = i # offsets (i + 8) 8 n" using True by (subst offsets.simps) simp
    ultimately show ?thesis by (simp add: route_pair_def)
  next
    case False
    then show ?thesis by (simp add: offsets_end)
  qed
qed

text \<open>The list of addresses in an option; a missing option is the empty list.\<close>

definition addresses :: "(byte \<Rightarrow> byte list option) \<Rightarrow> byte \<Rightarrow> byte list list" where
  "addresses s c = (case s c of None \<Rightarrow> [] | Some v \<Rightarrow> chunks4 v)"

definition mult :: "nat \<Rightarrow> (byte \<Rightarrow> byte list option) \<Rightarrow> byte \<Rightarrow> bool" where
  "mult k s c = (case s c of None \<Rightarrow> True | Some v \<Rightarrow> k dvd length v)"

lemma content_cases:
  assumes "opts_ok opts"
  obtains "content opts c = None" "opt_val opts c = None" "opt_len opts c = 0"
  | b where "opt_val opts c = Some b" "content opts c = Some (take (opt_len opts c) b)" "0 < opt_len opts c"
      "opt_len opts c \<le> length b"
proof (cases "opt_val opts c")
  case None
  then have "opt_len opts c = 0" using opts_ok_len [OF assms, of c] by auto
  then show ?thesis using None that(1) by (simp add: content_def)
next
  case (Some b)
  then show ?thesis using that(2) [OF Some] opts_okD [OF assms Some] by (simp add: content_def)
qed

lemma each_quad_content:
  assumes "opts_ok opts" "mult 4 (content opts) c"
  shows "each_quad opts c 0 = Some (addresses (content opts) c)"
  using assms(1)
proof (cases rule: content_cases [where c = c])
  case 1
  then show ?thesis by (simp add: each_quad_def addresses_def offsets_end)
next
  case (2 b)
  then show ?thesis using quads_from [OF 2(1), of "opt_len opts c" 0] assms(2)
    by (simp add: each_quad_def addresses_def mult_def)
qed

section \<open>Names in the table\<close>

text \<open>The values that are printed as strings end with a zero behind their recorded length.\<close>

definition name_options :: "byte list" where
  "name_options = [hostName, domainName, rootPath, nisDomainName]"

definition nul_ok :: "dhcpOptions \<Rightarrow> byte \<Rightarrow> bool" where
  "nul_ok opts c \<longleftrightarrow> (case opt_val opts c of None \<Rightarrow> True | Some b \<Rightarrow> \<exists>v. b = v @ [0] \<and> length v = opt_len opts c)"

definition names_ok :: "dhcpOptions \<Rightarrow> bool" where
  "names_ok opts \<longleftrightarrow> list_all (nul_ok opts) name_options"

lemma names_ok_release: "names_ok releaseDhcpOptions"
  by (simp add: names_ok_def name_options_def nul_ok_def releaseDhcpOptions_def)

lemma parse_option_names:
  assumes "names_ok opts" "parse_option m p opts = Some o'"
  shows "names_ok o'"
proof -
  have "nul_ok o' c" if n: "nul_ok opts c" for c
  proof (cases "c = m ! p \<and> unat (m ! (p + 1)) \<noteq> 0")
    case True
    let ?l = "unat (m ! (p + 1))"
    have l: "p + 2 + ?l \<le> length m" "length (read_at (p + 2) ?l m) = ?l"
      using assms(2) True by (auto simp: parse_option_def Let_def split: if_splits)
    show ?thesis
    proof (cases "opt_len opts c = ?l")
      case len: True
      then obtain v where v: "opt_val opts c = Some (v @ [0])" "length v = ?l"
        using assms(2) n True by (auto simp: parse_option_def Let_def nul_ok_def split: if_splits option.splits)
      then show ?thesis using assms(2) True len l by (auto simp: parse_option_def Let_def nul_ok_def)
    next
      case False
      then show ?thesis using assms(2) True l by (auto simp: parse_option_def Let_def nul_ok_def)
    qed
  next
    case False
    then show ?thesis using assms(2) n
      by (auto simp: parse_option_def Let_def nul_ok_def split: if_splits option.splits)
  qed
  then show ?thesis using assms(1) by (simp add: names_ok_def name_options_def)
qed

lemma parse_loop_names: "parse_loop m p stop opts = Some o' \<Longrightarrow> names_ok opts \<Longrightarrow> names_ok o'"
proof (induction m p stop opts rule: parse_loop.induct)
  case (1 m p stop opts)
  from 1(3) show ?case
    unfolding parse_loop.simps [of m p stop opts]
    using 1(1,2,4) parse_option_names by (fastforce split: if_splits option.splits)
qed

lemma nul_ok_other:
  "k \<noteq> c \<Longrightarrow> nul_ok (alloc k b opts) c = nul_ok opts c" "k \<noteq> c \<Longrightarrow> nul_ok (overwrite k b opts) c = nul_ok opts c"
  by (auto simp: nul_ok_def alloc_def overwrite_def split: option.splits)

lemma names_ok_other:
  assumes "k \<notin> set name_options"
  shows "names_ok (alloc k b opts) = names_ok opts" "names_ok (overwrite k b opts) = names_ok opts"
  using assms by (simp_all add: names_ok_def name_options_def nul_ok_other)

lemma parse_names:
  assumes "parseDhcpMsgRecv nl sent d m opts = Some (t, m', o')" "names_ok opts"
  shows "names_ok o'"
proof -
  have n: "k \<notin> set name_options"
    if "k \<in> {dhcpServerIdentifier, dns, subnetMask, broadcastAddr, dhcpIPaddrLeaseTime, dhcpT1value, dhcpT2value}" for k
    using that by (auto simp: name_options_def)
  have 1: "names_ok (default_server_id src a)" if "names_ok a" for src a
    using that names_ok_other n by (simp add: default_server_id_def)
  have 2: "names_ok b" if "default_dns a = Some b" "names_ok a" for a b
    using that names_ok_other n by (auto simp: default_dns_def split: if_splits)
  have 3: "names_ok (default_mask y a)" if "names_ok a" for y a
    using that names_ok_other n by (simp add: default_mask_def)
  have 4: "names_ok b" if "default_broadcast y a = Some b" "names_ok a" for y a b
    using that names_ok_other n by (auto simp: default_broadcast_def split: if_splits)
  have 5: "names_ok b" if "default_lease nl a = Some b" "names_ok a" for a b
    using that names_ok_other n by (auto simp: default_lease_def split: if_splits)
  have 6: "names_ok b" if "default_timer k f a = Some b" "names_ok a" "k = dhcpT1value \<or> k = dhcpT2value" for k f a b
    using that names_ok_other n [of k] by (auto simp: default_timer_def split: if_splits Option.bind_splits)
  obtain o1 o2 o3 o4 o5 y where o: "parse_loop m (d + 240) (d + 548) opts = Some o1"
    "default_dns (default_server_id y o1) = Some o2"
    "\<exists>y. default_broadcast y (default_mask y o2) = Some o3" "default_lease nl o3 = Some o4"
    "default_timer dhcpT1value (1 / 2) o4 = Some o5" "default_timer dhcpT2value (7 / 8) o5 = Some o'"
    using assms(1) unfolding parseDhcpMsgRecv_def Let_def by (simp add: Option.bind_eq_Some_conv) blast
  then show ?thesis
    using assms(2) by (meson 1 2 3 4 5 6 parse_loop_names)
qed

section \<open>The texts as functions of the options\<close>

definition name_text :: "byte list \<Rightarrow> string" where
  "name_text v = chars (takeWhile (\<lambda>c. c \<noteq> 0) v)"

lemma opt_string_content:
  assumes "nul_ok opts c" "content opts c = Some v"
  shows "opt_string opts c = Some (name_text v)"
proof -
  obtain b where b: "opt_val opts c = Some b" "v = take (opt_len opts c) b" using assms(2) by (auto simp: content_def)
  then obtain w where w: "b = w @ [0]" "length w = opt_len opts c" using assms(1) by (auto simp: nul_ok_def)
  have "takeWhile (\<lambda>c. c \<noteq> 0) (w @ [0]) = takeWhile (\<lambda>c. c \<noteq> 0) w"
    by (induction w) auto
  then show ?thesis using b w by (simp add: opt_string_def c_text_def name_text_def)
qed

definition resolv_text :: "(byte \<Rightarrow> byte list option) \<Rightarrow> string" where
  "resolv_text s = concat (map (\<lambda>a. ''nameserver '' @ dotted a @ [NL]) (addresses s dns))
     @ (case s domainName of None \<Rightarrow> [] | Some d \<Rightarrow> ''search '' @ name_text d @ [NL])"

text \<open>When the configuration can be made: every list of addresses is complete.\<close>

definition config_ready :: "(byte \<Rightarrow> byte list option) \<Rightarrow> bool" where
  "config_ready s \<longleftrightarrow>
     list_all (\<lambda>c. case s c of None \<Rightarrow> False | Some v \<Rightarrow> 4 \<le> length v)
       [subnetMask, broadcastAddr, dns, dhcpServerIdentifier, dhcpIPaddrLeaseTime, dhcpT1value, dhcpT2value]
     \<and> list_all (mult 4 s) [dns, routersOnSubnet, ntpServers, nisServers] \<and> mult 8 s staticRoute"

lemma ready_opt4:
  assumes "config_ready (content opts)" "opts_ok opts"
    "c \<in> {subnetMask, broadcastAddr, dns, dhcpServerIdentifier, dhcpIPaddrLeaseTime, dhcpT1value, dhcpT2value}"
  obtains v where "content opts c = Some v" "4 \<le> length v" "opt4 opts c = Some (take 4 v)"
proof -
  obtain v where v: "content opts c = Some v" "4 \<le> length v"
    using assms(1,3) by (cases "content opts c") (auto simp: config_ready_def)
  then show ?thesis using that content_opt4 [OF assms(2) v] by blast
qed

lemma ready_some:
  assumes "config_ready (content opts)" "opts_ok opts"
  shows "\<exists>v. opt4 opts subnetMask = Some v" "\<exists>v. opt4 opts broadcastAddr = Some v" "\<exists>v. opt4 opts dhcpServerIdentifier = Some v"
    "\<exists>v. opt4 opts dhcpIPaddrLeaseTime = Some v" "\<exists>v. opt4 opts dhcpT1value = Some v" "\<exists>v. opt4 opts dhcpT2value = Some v"
  by (rule ready_opt4 [OF assms]; blast)+

lemma resolv_conf_content:
  assumes "opts_ok opts" "names_ok opts" "mult 4 (content opts) dns"
  shows "resolv_conf opts = Some (resolv_text (content opts))"
proof -
  have n: "nul_ok opts domainName" using assms(2) by (simp add: names_ok_def name_options_def)
  note q = each_quad_content [OF assms(1,3)]
  show ?thesis using assms(1)
  proof (cases rule: content_cases [where c = domainName])
    case 1
    then show ?thesis by (simp add: resolv_conf_def resolv_text_def q)
  next
    case (2 b)
    then show ?thesis using opt_string_content [OF n 2(2)] by (simp add: resolv_conf_def resolv_text_def q)
  qed
qed

lemma nis_conf_ok:
  assumes "opts_ok opts" "names_ok opts" "mult 4 (content opts) nisServers"
  shows "\<exists>t. nis_conf opts = Some t"
proof -
  define c where "c = (if opt_len opts nisDomainName \<noteq> 0 then nisDomainName else domainName)"
  have n: "nul_ok opts c" using assms(2) by (simp add: names_ok_def name_options_def c_def)
  have "\<exists>d. (if opt_val opts c = None then Some ''localdomain'' else opt_string opts c) = Some d"
    using assms(1)
  proof (cases rule: content_cases [where c = c])
    case (2 b)
    then show ?thesis using opt_string_content [OF n 2(2)] by simp
  qed simp
  then show ?thesis
    unfolding nis_conf_def Let_def c_def [symmetric] each_quad_content [OF assms(1,3)] by auto
qed

lemma ntp_conf_ok:
  assumes "opts_ok opts" "config_ready (content opts)"
  shows "\<exists>t. ntp_text a opts = Some t"
proof -
  obtain v where "opt4 opts subnetMask = Some v" using ready_some(1) [OF assms(2,1)] by blast
  moreover have "mult 4 (content opts) ntpServers" using assms(2) by (simp add: config_ready_def)
  ultimately show ?thesis using each_quad_content [OF assms(1)] by (simp add: ntp_text_def)
qed

lemma info_list_ok:
  assumes "opts_ok opts" "mult 4 (content opts) c" "4 \<le> opt_len opts c"
  shows "\<exists>t. info_list opts c = Some t"
  using assms(1)
proof (cases rule: content_cases [where c = c])
  case (2 b)
  then have "4 dvd opt_len opts c - 4" using assms(2,3) dvd_diff_nat [of 4 "opt_len opts c" 4] by (simp add: mult_def)
  then show ?thesis using 2 assms(3) quads_from [OF 2(1), of "opt_len opts c" 4]
    by (simp add: info_list_def each_quad_def quad_def)
qed (use assms(3) in simp)

lemma info_routes_ok:
  assumes "opts_ok opts" "mult 8 (content opts) staticRoute" "opt_len opts staticRoute \<noteq> 0"
  shows "\<exists>t. info_routes opts = Some t"
  using assms(1)
proof (cases rule: content_cases [where c = staticRoute])
  case (2 b)
  then have d: "8 dvd opt_len opts staticRoute" using assms(2) by (simp add: mult_def)
  then have "8 \<le> opt_len opts staticRoute" using 2(3) by (rule dvd_imp_le)
  moreover have "8 dvd opt_len opts staticRoute - 8" using d dvd_diff_nat [of 8 _ 8] by simp
  ultimately show ?thesis using 2 pairs_from [OF 2(1), of "opt_len opts staticRoute" 8]
    by (simp add: info_routes_def route_pair_def quad_def)
qed (use assms(3) in simp)

lemma info_name_ok:
  assumes "opts_ok opts" "nul_ok opts c"
  shows "\<exists>t. info_name opts c k = Some t"
  using assms(1)
proof (cases rule: content_cases [where c = c])
  case (2 b)
  then show ?thesis using opt_string_content [OF assms(2) 2(2)] by (simp add: info_name_def)
qed (simp add: info_name_def)

text \<open>The strings outside the table that are printed: server name and class identifier.\<close>

definition printable :: "client \<Rightarrow> bool" where
  "printable c \<longleftrightarrow> 0 \<in> set (drop (cl_at c + 44) (cl_buf c)) \<and> 0 \<in> set (class_id (cl_iface c))"

lemma info_addresses_ok:
  assumes "opts_ok opts" "config_ready (content opts)"
  shows "\<exists>t. info_addresses opts a = Some t"
proof -
  obtain m b where "opt4 opts subnetMask = Some m" "opt4 opts broadcastAddr = Some b"
    using ready_some(1,2) [OF assms(2,1)] by blast
  moreover have "\<exists>t. (if 3 < opt_len opts routersOnSubnet
      then map_option (\<lambda>s. ''GATEWAY='' @ s) (info_list opts routersOnSubnet) else Some []) = Some t"
    using info_list_ok [OF assms(1), of routersOnSubnet] assms(2) by (auto simp: config_ready_def)
  moreover have "\<exists>t. (if opt_len opts staticRoute \<noteq> 0 then info_routes opts else Some []) = Some t"
    using info_routes_ok [OF assms(1)] assms(2) by (auto simp: config_ready_def)
  ultimately show ?thesis unfolding info_addresses_def by auto
qed

lemma info_servers_ok:
  assumes "opts_ok opts" "names_ok opts" "config_ready (content opts)"
  shows "\<exists>t. info_servers opts = Some t"
proof -
  have m: "mult 4 (content opts) dns" "mult 4 (content opts) ntpServers" "mult 4 (content opts) nisServers"
    using assms(3) by (simp_all add: config_ready_def)
  have "\<exists>t. info_name opts c k = Some t" if "c \<in> set name_options" for c k
    using assms(2) that by (intro info_name_ok [OF assms(1)]) (simp add: names_ok_def list_all_iff)
  then obtain n1 n2 n3 n4 where n: "info_name opts hostName ''HOSTNAME'' = Some n1"
    "info_name opts domainName ''DOMAIN'' = Some n2" "info_name opts nisDomainName ''NISDOMAIN'' = Some n3"
    "info_name opts rootPath ''ROOTPATH'' = Some n4"
    by (simp add: name_options_def) metis
  obtain v where "content opts dns = Some v" "4 \<le> length v" using ready_opt4 [OF assms(3,1), of dns] by auto
  then have "4 \<le> opt_len opts dns" by (auto simp: content_def)
  then obtain d where "info_list opts dns = Some d" using info_list_ok [OF assms(1) m(1)] by blast
  moreover have "\<exists>t. (if 4 \<le> opt_len opts c then map_option (\<lambda>s. [NL] @ k @ s) (info_list opts c) else Some []) = Some t"
    if "mult 4 (content opts) c" for c k
    using info_list_ok [OF assms(1) that] by auto
  then have "\<exists>t. (if 4 \<le> opt_len opts ntpServers then map_option (\<lambda>s. [NL] @ ''NTPSERVERS='' @ s) (info_list opts ntpServers)
      else Some []) = Some t" "\<exists>t. (if 4 \<le> opt_len opts nisServers then map_option (\<lambda>s. [NL] @ ''NISSERVERS='' @ s)
      (info_list opts nisServers) else Some []) = Some t"
    using m by blast+
  ultimately show ?thesis unfolding info_servers_def n by auto
qed

lemma host_info_ok:
  assumes "opts_ok opts" "names_ok opts" "config_ready (content opts)"
    and "0 \<in> set (drop (d + 44) buf)" "0 \<in> set (class_id i)"
  shows "\<exists>t. host_info opts i hw buf d ifname cid = Some t"
proof -
  obtain s where "info_servers opts = Some s" using info_servers_ok [OF assms(1-3)] by blast
  moreover obtain a where "info_addresses opts (ciaddr i) = Some a" using info_addresses_ok [OF assms(1,3)] by blast
  moreover have "\<exists>t. info_lease opts i hw buf d ifname cid = Some t"
    using ready_some(3-6) [OF assms(3,1)] assms(4,5)
    by (auto simp: info_lease_def c_text_def)
  ultimately show ?thesis by (auto simp: host_info_def)
qed

section \<open>A willing system\<close>

definition willing :: "answers \<Rightarrow> bool" where
  "willing a \<longleftrightarrow> a_clear a \<and> a_addr a \<and> a_brd a \<and> a_arp a \<and> a_cache a = Cache_written dhcpInterface_size
     \<and> a_mask a = (\<lambda>m. True) \<and> a_route a = (\<lambda>rs r. Rt_ok) \<and> a_open a = (\<lambda>p. True)"

lemma static_routes_willing:
  assumes "willing a" "opts_ok opts" "mult 8 (content opts) staticRoute"
  shows "static_routes a opts h = Some (h\<lparr>h_routes := h_routes h
    @ map static_entry (case content opts staticRoute of None \<Rightarrow> [] | Some v \<Rightarrow> chunks8 v)\<rparr>)"
proof -
  have r: "fold (\<lambda>p h. snd (add_route a (static_entry p) h)) ps h = h\<lparr>h_routes := h_routes h @ map static_entry ps\<rparr>" for ps h
    using assms(1) by (induction ps arbitrary: h) (simp_all add: add_route_def willing_def Let_def)
  show ?thesis using assms(2)
  proof (cases rule: content_cases [where c = staticRoute])
    case 1
    then show ?thesis by (simp add: static_routes_def offsets_end)
  next
    case (2 b)
    then show ?thesis using pairs_from [OF 2(1), of "opt_len opts staticRoute" 0] assms(3) r
      by (simp add: static_routes_def mult_def)
  qed
qed

lemma default_routes_willing:
  assumes "willing a" "opts_ok opts" "mult 4 (content opts) routersOnSubnet"
  shows "default_routes a w opts h = Some (h\<lparr>h_routes := h_routes h
    @ map (default_entry w) (addresses (content opts) routersOnSubnet)\<rparr>)"
proof -
  have r: "fold (default_route a w) gs h = h\<lparr>h_routes := h_routes h @ map (default_entry w) gs\<rparr>" for gs h
    using assms(1) by (induction gs arbitrary: h) (simp_all add: default_route_def add_route_def willing_def Let_def)
  have "opt_len opts routersOnSubnet \<le> 3 \<Longrightarrow> addresses (content opts) routersOnSubnet = []"
    using assms(2)
  proof (cases rule: content_cases [where c = routersOnSubnet])
    case (2 b)
    assume "opt_len opts routersOnSubnet \<le> 3"
    moreover have "4 \<le> opt_len opts routersOnSubnet"
      using 2 assms(3) by (intro dvd_imp_le) (simp_all add: mult_def)
    ultimately show ?thesis by simp
  qed (simp add: addresses_def)
  then show ?thesis using r each_quad_content [OF assms(2,3)] by (simp add: default_routes_def)
qed

text \<open>Files: what a replaced file holds, where the old one goes, and that the others stay.\<close>

lemma rename_files:
  "h_files (snd (rename old new h)) p
     = (case h_files h old of None \<Rightarrow> h_files h p | Some t \<Rightarrow> ((h_files h)(old := None, new := Some t)) p)"
  "fst (rename old new h) \<longleftrightarrow> h_files h old \<noteq> None"
  by (simp_all add: rename_def split: option.splits)

lemma replace_file_willing:
  assumes "a_open a path"
  obtains h' where "replace_file a path (Some t) h = Some (h_files h path \<noteq> None, h')" "h_files h' path = Some t"
    "h_files h' (path @ ''.sv'') = (case h_files h path of None \<Rightarrow> h_files h (path @ ''.sv'') | Some u \<Rightarrow> Some u)"
    "\<And>p. p \<noteq> path \<Longrightarrow> p \<noteq> path @ ''.sv'' \<Longrightarrow> h_files h' p = h_files h p" "\<exists>g. h' = h\<lparr>h_files := g\<rparr>"
proof -
  let ?h = "snd (rename path (path @ ''.sv'') h)"
  let ?h' = "?h\<lparr>h_files := (h_files ?h)(path \<mapsto> t)\<rparr>"
  have r: "replace_file a path (Some t) h = Some (h_files h path \<noteq> None, ?h')"
    using assms by (simp add: replace_file_def put_file_def rename_def split: option.splits)
  have g: "\<exists>g. ?h' = h\<lparr>h_files := g\<rparr>" by (auto simp: rename_def split: option.splits)
  show ?thesis by (rule that [OF r _ _ _ g]) (auto simp: rename_files split: option.splits)
qed

lemma conf_paths:
  "RESOLV_CONF \<noteq> NIS_CONF" "RESOLV_CONF \<noteq> NTP_CONF" "NIS_CONF \<noteq> NTP_CONF" "RESOLV_CONF @ ''.sv'' \<noteq> NIS_CONF"
  "RESOLV_CONF @ ''.sv'' \<noteq> NTP_CONF" "RESOLV_CONF \<noteq> NIS_CONF @ ''.sv''" "RESOLV_CONF \<noteq> NTP_CONF @ ''.sv''"
  "RESOLV_CONF @ ''.sv'' \<noteq> NIS_CONF @ ''.sv''" "RESOLV_CONF @ ''.sv'' \<noteq> NTP_CONF @ ''.sv''"
  by (simp_all add: RESOLV_CONF_def NIS_CONF_def NTP_CONF_def)

lemma replace_files_willing:
  assumes "willing a" "ReplResolvConf s"
    and "resolv_conf (cl_opts c) = Some t" "\<exists>t. nis_conf (cl_opts c) = Some t" "\<exists>t. ntp_text (ciaddr (cl_iface c)) (cl_opts c) = Some t"
  obtains c' where "replace_files s a c = Some c'" "h_files (cl_host c') RESOLV_CONF = Some t"
    "h_files (cl_host c') (RESOLV_CONF @ ''.sv'')
       = (case h_files (cl_host c) RESOLV_CONF of None \<Rightarrow> h_files (cl_host c) (RESOLV_CONF @ ''.sv'') | Some u \<Rightarrow> Some u)"
    "cl_resolv c' \<longleftrightarrow> h_files (cl_host c) RESOLV_CONF \<noteq> None"
    "\<exists>g r1 r2 r3. c' = c\<lparr>cl_host := (cl_host c)\<lparr>h_files := g\<rparr>, cl_resolv := r1, cl_yp := r2, cl_ntp := r3\<rparr>"
proof -
  have o: "a_open a p" for p using assms(1) by (simp add: willing_def)
  obtain u v where uv: "nis_conf (cl_opts c) = Some u" "ntp_text (ciaddr (cl_iface c)) (cl_opts c) = Some v" using assms by blast
  obtain h1 where h1: "replace_file a RESOLV_CONF (Some t) (cl_host c) = Some (h_files (cl_host c) RESOLV_CONF \<noteq> None, h1)"
    "h_files h1 RESOLV_CONF = Some t" "h_files h1 (RESOLV_CONF @ ''.sv'')
       = (case h_files (cl_host c) RESOLV_CONF of None \<Rightarrow> h_files (cl_host c) (RESOLV_CONF @ ''.sv'') | Some u \<Rightarrow> Some u)"
    "\<exists>g. h1 = (cl_host c)\<lparr>h_files := g\<rparr>"
    by (rule replace_file_willing [OF o]) blast
  define c1 where "c1 = c\<lparr>cl_resolv := h_files (cl_host c) RESOLV_CONF \<noteq> None, cl_host := h1\<rparr>"
  obtain h2 where h2: "replace_file a NIS_CONF (Some u) h1 = Some (h_files h1 NIS_CONF \<noteq> None, h2)"
    "\<And>p. p \<noteq> NIS_CONF \<Longrightarrow> p \<noteq> NIS_CONF @ ''.sv'' \<Longrightarrow> h_files h2 p = h_files h1 p" "\<exists>g. h2 = h1\<lparr>h_files := g\<rparr>"
    by (rule replace_file_willing [OF o]) blast
  define c2 where "c2 = (if ReplNISConf s then c1\<lparr>cl_yp := h_files h1 NIS_CONF \<noteq> None, cl_host := h2\<rparr> else c1)"
  obtain h3 where h3: "replace_file a NTP_CONF (Some v) (cl_host c2) = Some (h_files (cl_host c2) NTP_CONF \<noteq> None, h3)"
    "\<And>p. p \<noteq> NTP_CONF \<Longrightarrow> p \<noteq> NTP_CONF @ ''.sv'' \<Longrightarrow> h_files h3 p = h_files (cl_host c2) p" "\<exists>g. h3 = (cl_host c2)\<lparr>h_files := g\<rparr>"
    by (rule replace_file_willing [OF o]) blast
  define c3 where "c3 = (if ReplNTPConf s then c2\<lparr>cl_ntp := h_files (cl_host c2) NTP_CONF \<noteq> None, cl_host := h3\<rparr> else c2)"
  have o2: "cl_opts c2 = cl_opts c" "cl_iface c2 = cl_iface c" by (simp_all add: c2_def c1_def)
  have s1: "(if ReplResolvConf s then map_option (\<lambda>(r, h). c\<lparr>cl_resolv := r, cl_host := h\<rparr>)
      (replace_file a RESOLV_CONF (resolv_conf (cl_opts c)) (cl_host c)) else Some c) = Some c1"
    using assms(2) h1(1) by (simp only: assms(3) c1_def) simp
  have s2: "(if ReplNISConf s then map_option (\<lambda>(r, h). c1\<lparr>cl_yp := r, cl_host := h\<rparr>)
      (replace_file a NIS_CONF (nis_conf (cl_opts c1)) (cl_host c1)) else Some c1) = Some c2"
    using h2(1) uv(1) by (simp add: c2_def c1_def)
  have s3: "(if ReplNTPConf s then map_option (\<lambda>(r, h). c2\<lparr>cl_ntp := r, cl_host := h\<rparr>)
      (replace_file a NTP_CONF (ntp_text (ciaddr (cl_iface c2)) (cl_opts c2)) (cl_host c2)) else Some c2) = Some c3"
    unfolding c3_def o2 uv(2) h3(1) by simp
  have r: "replace_files s a c = Some c3"
    unfolding replace_files_def s1 bind.bind_lunit s2 s3 ..
  have f: "h_files (cl_host c3) p = h_files h1 p" if "p = RESOLV_CONF \<or> p = RESOLV_CONF @ ''.sv''" for p
  proof -
    have "p \<noteq> NIS_CONF" "p \<noteq> NIS_CONF @ ''.sv''" "p \<noteq> NTP_CONF" "p \<noteq> NTP_CONF @ ''.sv''" using that conf_paths by auto
    then show ?thesis using h2(2) h3(2) by (simp add: c3_def c2_def c1_def)
  qed
  have g: "\<exists>g r1 r2 r3. c3 = c\<lparr>cl_host := (cl_host c)\<lparr>h_files := g\<rparr>, cl_resolv := r1, cl_yp := r2, cl_ntp := r3\<rparr>"
    using h1(4) h2(3) h3(3) by (cases c) (auto simp: c3_def c2_def c1_def)
  have "cl_resolv c3 \<longleftrightarrow> h_files (cl_host c) RESOLV_CONF \<noteq> None" by (simp add: c3_def c2_def c1_def)
  then show ?thesis using that [OF r] f h1(2,3) g by simp
qed

definition short_paths :: "settings \<Rightarrow> bool" where
  "short_paths s \<longleftrightarrow> length (ConfigDir s) + length (IfNameExt s) \<le> 100"

lemma info_paths:
  assumes "short_paths s" "p = RESOLV_CONF \<or> p = RESOLV_CONF @ ''.sv''"
  shows "take 127 (DHCP_HOSTINFO s) = DHCP_HOSTINFO s" "take 127 (DHCP_HOSTINFO s @ ''.old'') = DHCP_HOSTINFO s @ ''.old''"
    "p \<noteq> DHCP_HOSTINFO s" "p \<noteq> DHCP_HOSTINFO s @ ''.old''"
proof -
  have "length (DHCP_HOSTINFO s) \<le> 123" using assms(1) by (simp add: short_paths_def DHCP_HOSTINFO_def)
  then show "take 127 (DHCP_HOSTINFO s) = DHCP_HOSTINFO s" "take 127 (DHCP_HOSTINFO s @ ''.old'') = DHCP_HOSTINFO s @ ''.old''"
    by simp_all
  have "last p \<in> {CHR ''f'', CHR ''v''}" using assms(2) by (auto simp: RESOLV_CONF_def)
  moreover have "last (DHCP_HOSTINFO s) = CHR ''o''" "last (DHCP_HOSTINFO s @ ''.old'') = CHR ''d''"
    by (simp_all add: DHCP_HOSTINFO_def)
  ultimately show "p \<noteq> DHCP_HOSTINFO s" "p \<noteq> DHCP_HOSTINFO s @ ''.old''" by auto
qed

lemma config_tail_willing:
  assumes "willing a" "short_paths s" "opts_ok (cl_opts c)" "names_ok (cl_opts c)" "config_ready (content (cl_opts c))" "printable c"
  obtains c' g where "config_tail s a c = Some (if opt4 (cl_opts c) dhcpIPaddrLeaseTime = Some [255, 255, 255, 255]
      then Config_exit else Config_ok, c')"
    "c' = c\<lparr>cl_iface := (cl_iface c)\<lparr>version := VERSION\<rparr>, cl_prev := ciaddr (cl_iface c), cl_host := (cl_host c)\<lparr>h_files := g,
       h_cache := Some (take dhcpInterface_size (encode_iface ((cl_iface c)\<lparr>version := VERSION\<rparr>))),
       h_ipchg := h_ipchg (cl_host c) @ [''start'']\<rparr>\<rparr>"
    "g RESOLV_CONF = h_files (cl_host c) RESOLV_CONF" "g (RESOLV_CONF @ ''.sv'') = h_files (cl_host c) (RESOLV_CONF @ ''.sv'')"
proof -
  define c1 where "c1 = write_cache a c"
  have c1: "c1 = c\<lparr>cl_iface := (cl_iface c)\<lparr>version := VERSION\<rparr>, cl_host := (cl_host c)\<lparr>
      h_cache := Some (take dhcpInterface_size (encode_iface ((cl_iface c)\<lparr>version := VERSION\<rparr>)))\<rparr>\<rparr>"
    using assms(1) by (simp add: c1_def write_cache_def willing_def)
  let ?h = "snd (rename (DHCP_HOSTINFO s) (DHCP_HOSTINFO s @ ''.old'') (cl_host c1))"
  obtain t where t: "host_info (cl_opts c1) (cl_iface c1) (ClientHwAddr (cl_conf c1)) (cl_buf c1) (cl_at c1) (IfNameExt s) (ClientID s) = Some t"
    using host_info_ok [OF assms(3-5)] assms(6) unfolding c1 printable_def by fastforce
  have o: "a_open a p" for p using assms(1) by (simp add: willing_def)
  have w: "write_info s a c1 = Some (c1\<lparr>cl_host := ?h\<lparr>h_files := (h_files ?h)(DHCP_HOSTINFO s \<mapsto> t)\<rparr>\<rparr>)"
    unfolding write_info_def Let_def info_paths(1,2) [OF assms(2) disjI1 [OF refl]] t put_file_def by (simp add: o)
  obtain g where g: "?h\<lparr>h_files := (h_files ?h)(DHCP_HOSTINFO s \<mapsto> t)\<rparr> = (cl_host c1)\<lparr>h_files := g\<rparr>"
    "g = (h_files ?h)(DHCP_HOSTINFO s \<mapsto> t)"
    by (rule that) (simp_all add: rename_def split: option.splits)
  have p: "g q = h_files (cl_host c) q" if "q = RESOLV_CONF \<or> q = RESOLV_CONF @ ''.sv''" for q
    using info_paths(3,4) [OF assms(2) that] by (simp add: g(2) rename_files c1 split: option.splits)
  obtain l where l: "opt4 (cl_opts c) dhcpIPaddrLeaseTime = Some l" using ready_some(4) [OF assms(5,3)] by blast
  have e: "config_tail s a c = Some (if opt4 (cl_opts c) dhcpIPaddrLeaseTime = Some [255, 255, 255, 255]
      then Config_exit else Config_ok,
      ipchg ''start'' (c1\<lparr>cl_host := (cl_host c1)\<lparr>h_files := g\<rparr>, cl_prev := ciaddr (cl_iface c1)\<rparr>))"
    unfolding config_tail_def c1_def [symmetric] w g(1) bind.bind_lunit Let_def
    using l by (simp add: c1 ipchg_def)
  show ?thesis by (rule that [OF e, of g]) (use p in \<open>simp_all add: c1 ipchg_def\<close>)
qed

text \<open>The whole configuration on a willing system.\<close>

lemma config_willing:
  assumes "willing a" "short_paths s" "opts_ok (cl_opts c)" "names_ok (cl_opts c)" "config_ready (content (cl_opts c))" "printable c"
    and "\<not> TestCase s" "ReplResolvConf s" "\<not> SetHostName s" "\<not> SetDomainName s"
  obtains c' where "dhcpConfig s a c = Some (if opt4 (cl_opts c) dhcpIPaddrLeaseTime = Some [255, 255, 255, 255]
      then Config_exit else Config_ok, c')"
    "h_addr (cl_host c') = le32 (ciaddr (cl_iface c))" "opt4 (cl_opts c) subnetMask = Some (h_mask (cl_host c'))"
    "opt4 (cl_opts c) broadcastAddr = Some (h_brd (cl_host c'))"
    "h_routes (cl_host c') = h_routes (cl_host c)
       @ map static_entry (case content (cl_opts c) staticRoute of None \<Rightarrow> [] | Some v \<Rightarrow> chunks8 v)
       @ map (default_entry (Window s)) (addresses (content (cl_opts c)) routersOnSubnet)"
    "h_files (cl_host c') RESOLV_CONF = Some (resolv_text (content (cl_opts c)))"
    "h_files (cl_host c') (RESOLV_CONF @ ''.sv'')
       = (case h_files (cl_host c) RESOLV_CONF of None \<Rightarrow> h_files (cl_host c) (RESOLV_CONF @ ''.sv'') | Some u \<Rightarrow> Some u)"
    "cl_resolv c' \<longleftrightarrow> h_files (cl_host c) RESOLV_CONF \<noteq> None"
    "h_cache (cl_host c') = Some (take dhcpInterface_size (encode_iface (cl_iface c')))"
    "cl_iface c' = (cl_iface c)\<lparr>version := VERSION\<rparr>" "cl_prev c' = ciaddr (cl_iface c)" "cl_opts c' = cl_opts c"
    "cl_conf c' = cl_conf c" "cl_buf c' = cl_buf c" "cl_at c' = cl_at c" "cl_frame c' = cl_frame c" "cl_ip_id c' = cl_ip_id c"
    "cl_time c' = cl_time c"
proof -
  define c0 where "c0 = ipchg ''stop'' c"
  have c0: "cl_opts c0 = cl_opts c" "cl_iface c0 = cl_iface c" "cl_conf c0 = cl_conf c" "cl_buf c0 = cl_buf c"
    "cl_at c0 = cl_at c" "cl_frame c0 = cl_frame c" "cl_ip_id c0 = cl_ip_id c" "cl_time c0 = cl_time c"
    "h_routes (cl_host c0) = h_routes (cl_host c)" "h_files (cl_host c0) = h_files (cl_host c)"
    by (simp_all add: c0_def ipchg_def)
  obtain m b where mb: "opt4 (cl_opts c) subnetMask = Some m" "opt4 (cl_opts c) broadcastAddr = Some b"
    using ready_some(1,2) [OF assms(5,3)] by blast
  define h where "h = (cl_host c0)\<lparr>h_addr := le32 (ciaddr (cl_iface c)), h_mask := m, h_brd := b\<rparr>"
  have sa: "set_address a c0 = Some (Inr h)"
    using assms(1) mb by (simp add: set_address_def h_def willing_def Let_def c0)
  have mu: "mult 8 (content (cl_opts c)) staticRoute" "mult 4 (content (cl_opts c)) routersOnSubnet"
    "mult 4 (content (cl_opts c)) dns" "mult 4 (content (cl_opts c)) nisServers" using assms(5) by (simp_all add: config_ready_def)
  define c1 where "c1 = c0\<lparr>cl_host := h\<lparr>h_routes := h_routes h
      @ map static_entry (case content (cl_opts c) staticRoute of None \<Rightarrow> [] | Some v \<Rightarrow> chunks8 v)
      @ map (default_entry (Window s)) (addresses (content (cl_opts c)) routersOnSubnet),
      h_arp := h_arp h @ [arpInform (ClientHwAddr (cl_conf c)) (cl_iface c)]\<rparr>\<rparr>"
  have sr: "set_routes s a (c0\<lparr>cl_host := h\<rparr>) = Some c1"
    using static_routes_willing [OF assms(1,3) mu(1)] default_routes_willing [OF assms(1,3) mu(2)] assms(1)
    by (simp add: set_routes_def c1_def c0 willing_def)
  have i1: "cl_opts c1 = cl_opts c" "cl_iface c1 = cl_iface c" by (simp_all add: c1_def c0)
  obtain c2 where c2: "replace_files s a c1 = Some c2" "h_files (cl_host c2) RESOLV_CONF = Some (resolv_text (content (cl_opts c)))"
    "h_files (cl_host c2) (RESOLV_CONF @ ''.sv'')
       = (case h_files (cl_host c1) RESOLV_CONF of None \<Rightarrow> h_files (cl_host c1) (RESOLV_CONF @ ''.sv'') | Some u \<Rightarrow> Some u)"
    "cl_resolv c2 \<longleftrightarrow> h_files (cl_host c1) RESOLV_CONF \<noteq> None"
    "\<exists>g r1 r2 r3. c2 = c1\<lparr>cl_host := (cl_host c1)\<lparr>h_files := g\<rparr>, cl_resolv := r1, cl_yp := r2, cl_ntp := r3\<rparr>"
    by (rule replace_files_willing [OF assms(1,8), of c1])
      (simp_all add: i1 resolv_conf_content [OF assms(3,4) mu(3)] nis_conf_ok [OF assms(3,4) mu(4)] ntp_conf_ok [OF assms(3,5)])
  have i2: "cl_opts c2 = cl_opts c" "cl_iface c2 = cl_iface c" "cl_buf c2 = cl_buf c" "cl_at c2 = cl_at c"
    using c2(5) by (auto simp: c1_def c0)
  have p2: "printable c2" using assms(6) by (simp add: printable_def i2)
  obtain c3 g where c3: "config_tail s a c2 = Some (if opt4 (cl_opts c2) dhcpIPaddrLeaseTime = Some [255, 255, 255, 255]
      then Config_exit else Config_ok, c3)"
    "c3 = c2\<lparr>cl_iface := (cl_iface c2)\<lparr>version := VERSION\<rparr>, cl_prev := ciaddr (cl_iface c2), cl_host := (cl_host c2)\<lparr>h_files := g,
       h_cache := Some (take dhcpInterface_size (encode_iface ((cl_iface c2)\<lparr>version := VERSION\<rparr>))),
       h_ipchg := h_ipchg (cl_host c2) @ [''start'']\<rparr>\<rparr>"
    "g RESOLV_CONF = h_files (cl_host c2) RESOLV_CONF" "g (RESOLV_CONF @ ''.sv'') = h_files (cl_host c2) (RESOLV_CONF @ ''.sv'')"
    using config_tail_willing [OF assms(1,2), of c2] assms(3-5) p2 unfolding i2 by metis
  have d: "dhcpConfig s a c = Some (if opt4 (cl_opts c) dhcpIPaddrLeaseTime = Some [255, 255, 255, 255]
      then Config_exit else Config_ok, c3)"
    unfolding dhcpConfig_def Let_def c0_def [symmetric] sa bind.bind_lunit sum.case sr c2(1) c3(1) [symmetric]
    using assms(7,9,10) c3(1) by (simp add: set_names_def i2)
  show ?thesis
    by (rule that [OF d]) (use c2 c3(2-4) mb in \<open>auto simp: c1_def h_def c0 i2\<close>)
qed

section \<open>The cache as bytes\<close>

definition sized :: "dhcpInterface \<Rightarrow> bool" where
  "sized i \<longleftrightarrow> length (version i) = 11 \<and> length (shaddr i) = 6 \<and> length (class_id i) = 48 \<and> length (client_id i) = 48
     \<and> class_len i < 4294967296 \<and> client_len i < 4294967296"

lemma length_encode_iface: "sized i \<Longrightarrow> length (encode_iface i) = 136"
  by (simp add: sized_def encode_iface_def)

lemma of_le32_le32: "of_le32 (le32 w) = w"
proof -
  have "le_val (le32 w) = unat w" using unat_u32_less [of w] by (simp add: le_val_le_bytes)
  then show ?thesis by simp
qed

lemma decode_encode:
  assumes "sized i"
  shows "decode_iface (encode_iface i) = i"
proof -
  have l: "length (version i) = 11" "length (shaddr i) = 6" "length (class_id i) = 48" "length (client_id i) = 48"
    using assms by (simp_all add: sized_def)
  have v: "le_val (le_bytes 4 (class_len i)) = class_len i" "le_val (le_bytes 4 (client_len i)) = client_len i"
    using assms by (simp_all add: le_val_le_bytes sized_def)
  have "read_at 0 11 (encode_iface i) = version i" "read_at 12 4 (encode_iface i) = le32 (ciaddr i)"
    "read_at 16 4 (encode_iface i) = le32 (siaddr i)" "read_at 20 4 (encode_iface i) = le_bytes 4 (class_len i)"
    "read_at 24 4 (encode_iface i) = le_bytes 4 (client_len i)" "read_at 28 4 (encode_iface i) = le32 (if_xid i)"
    "read_at 32 6 (encode_iface i) = shaddr i" "read_at 38 48 (encode_iface i) = class_id i"
    "read_at 86 48 (encode_iface i) = client_id i"
    using l by (simp_all add: encode_iface_def read_at_def)
  then have "decode_iface (encode_iface i) = \<lparr>version = version i, ciaddr = ciaddr i, siaddr = siaddr i, class_len = class_len i,
      client_len = client_len i, if_xid = if_xid i, shaddr = shaddr i, class_id = class_id i, client_id = client_id i\<rparr>"
    by (simp only: decode_iface_def of_le32_le32 v)
  then show ?thesis by simp
qed

section \<open>Reading the name servers back\<close>

definition read_part :: "string \<Rightarrow> byte \<times> string" where
  "read_part s = (let (n, r) = strtol10 s in (of_int n, r))"

definition undot :: "string \<Rightarrow> byte list \<times> string" where
  "undot s = (let (a, r) = read_part s; (b, r) = read_part (tl r); (c, r) = read_part (tl r); (d, r) = read_part (tl r)
     in ([a, b, c, d], r))"

fun text_lines :: "string \<Rightarrow> string \<Rightarrow> string list" where
  "text_lines l [] = (if l = [] then [] else [l])"
| "text_lines l (c # cs) = (if c = NL then l # text_lines [] cs else text_lines (l @ [c]) cs)"

text \<open>The name servers of a resolver configuration.\<close>

definition nameservers :: "string \<Rightarrow> byte list list" where
  "nameservers t = map (\<lambda>l. fst (undot (drop 11 l))) (filter (\<lambda>l. take 11 l = ''nameserver '') (text_lines [] t))"

lemma le_val_zeros: "le_val (replicate n 0) = 0"
  by (induction n) simp_all

lemma read_part_show:
  assumes "rest = [] \<or> \<not> isdigit (hd rest)"
  shows "read_part (show_nat (unat b) @ rest) = (b, rest)"
proof -
  have "int (unat b) \<le> INT_MAX" using unat_byte_less [of b] unfolding INT_MAX_def by linarith
  from strtol10_show_nat [OF assms this] show ?thesis by (simp add: read_part_def)
qed

lemma undot_dotted: "length a = 4 \<Longrightarrow> fst (undot (dotted a)) = a"
proof -
  assume "length a = 4"
  then obtain w x y z where a: "a = [w, x, y, z]" by (auto simp: numeral_eq_Suc length_Suc_conv)
  have d: "\<not> isdigit (CHR ''.'')" by (simp add: isdigit_def)
  have "read_part (show_nat (unat z)) = (z, [])" using read_part_show [of "[]" z] by simp
  then show ?thesis using d by (simp add: a dotted_def undot_def read_part_show)
qed

lemma text_lines_append:
  assumes "NL \<notin> set l"
  shows "text_lines k (l @ NL # r) = (k @ l) # text_lines [] r"
  using assms by (induction l arbitrary: k) auto

lemma dotted_no_nl: "NL \<notin> set (dotted a)"
proof -
  have "NL \<notin> set (show_nat n)" for n
    using show_nat_digits [of n] by (auto simp: list_all_iff isdigit_def)
  then show ?thesis by (simp add: dotted_def)
qed

lemma nameservers_lines:
  assumes "\<forall>a \<in> set as. length a = 4"
  shows "nameservers (concat (map (\<lambda>a. ''nameserver '' @ dotted a @ [NL]) as) @ r) = as @ nameservers r"
  using assms
proof (induction as)
  case (Cons a as)
  let ?l = "''nameserver '' @ dotted a"
  let ?r = "concat (map (\<lambda>a. ''nameserver '' @ dotted a @ [NL]) as) @ r"
  have "text_lines [] (?l @ NL # ?r) = ?l # text_lines [] ?r"
    using text_lines_append [of ?l "[]" ?r] dotted_no_nl by simp
  then have "nameservers (?l @ NL # ?r) = fst (undot (drop 11 ?l)) # nameservers ?r" by (simp add: nameservers_def)
  then show ?case using Cons undot_dotted [of a] by simp
qed simp

lemma chunks4_length: "a \<in> set (chunks4 v) \<Longrightarrow> length a = 4"
  by (induction v rule: chunks4.induct) auto

text \<open>The domain name is a single line.\<close>

definition plain_domain :: "(byte \<Rightarrow> byte list option) \<Rightarrow> bool" where
  "plain_domain s = (case s domainName of None \<Rightarrow> True | Some d \<Rightarrow> NL \<notin> set (name_text d))"

lemma nameservers_resolv:
  assumes "plain_domain s"
  shows "nameservers (resolv_text s) = addresses s dns"
proof -
  have l: "\<forall>a \<in> set (addresses s dns). length a = 4"
    by (cases "s dns") (auto simp: addresses_def dest: chunks4_length)
  have "nameservers (case s domainName of None \<Rightarrow> [] | Some d \<Rightarrow> ''search '' @ name_text d @ [NL]) = []"
  proof (cases "s domainName")
    case (Some d)
    then show ?thesis using assms [unfolded plain_domain_def] text_lines_append [of "''search '' @ name_text d" "[]" "[]"] by (simp add: nameservers_def)
  qed (simp add: nameservers_def)
  then show ?thesis unfolding resolv_text_def nameservers_lines [OF l] by simp
qed

lemma those_None: "None \<in> set xs \<Longrightarrow> those xs = None"
  by (induction xs) (auto split: option.splits)

lemma offsets_mem:
  assumes "0 < k" "i + k * j < n"
  shows "i + k * j \<in> set (offsets i k n)"
  using assms
proof (induction j arbitrary: i)
  case 0
  then show ?case by (subst offsets.simps) simp
next
  case (Suc j)
  have "i < n" using Suc.prems by simp
  moreover have "(i + k) + k * j \<in> set (offsets (i + k) k n)"
    using Suc.prems by (intro Suc.IH) (simp_all add: add.assoc)
  ultimately show ?case using Suc.prems(1) by (subst offsets.simps) (simp add: add.assoc)
qed

section \<open>An example\<close>

definition sample_table :: dhcpOptions where
  "sample_table = alloc dhcpT2value [0, 0, 12, 78] (alloc dhcpT1value [0, 0, 7, 8] (alloc dhcpIPaddrLeaseTime [0, 0, 14, 16]
     (alloc broadcastAddr [192, 168, 0, 255] (alloc subnetMask [255, 255, 255, 0] (alloc dns [192, 168, 0, 1]
     (alloc dhcpServerIdentifier [192, 168, 0, 1] releaseDhcpOptions))))))"

definition sample_answers :: answers where
  "sample_answers = \<lparr>a_clear = True, a_addr = True, a_mask = (\<lambda>m. True), a_brd = True, a_route = (\<lambda>rs r. Rt_ok),
     a_open = (\<lambda>p. True), a_cache = Cache_written dhcpInterface_size, a_arp = True, a_name = None, a_gethost = None,
     a_getdomain = None\<rparr>"

definition sample_settings :: settings where
  "sample_settings = \<lparr>IfNameExt = ''eth0'', ConfigDir = ''/tmp/dhcpc'', ReplResolvConf = True, ReplNISConf = True,
     ReplNTPConf = True, SetHostName = False, SetDomainName = False, TestCase = False, Window = 0, DoCheckSum = True,
     ClassID = None, ClientID = None, TimeOut = 86400\<rparr>"

definition sample_host :: host where
  "sample_host = \<lparr>h_addr = [0, 0, 0, 0], h_mask = [0, 0, 0, 0], h_brd = [0, 0, 0, 0], h_routes = [], h_files = (\<lambda>p. None),
     h_cache = None, h_hostname = [], h_domain = [], h_arp = [], h_ipchg = [],
     h_up = False, h_sent = [], h_scripts = []\<rparr>"

definition sample_client :: client where
  "sample_client = \<lparr>cl_conf = sample_conf, cl_iface = sample_iface\<lparr>version := replicate 11 0\<rparr>, cl_opts = sample_table,
     cl_frame = replicate 1514 0, cl_buf = replicate 1514 0, cl_at = 42, cl_ip_id = 0, cl_prev = 0, cl_time = 0, cl_alarm = None, cl_inform = 0, cl_resolv = False,
     cl_yp = False, cl_ntp = False, cl_inithost = None, cl_initdomain = None, cl_host = sample_host\<rparr>"

lemma sample_table_content:
  "content sample_table = [dhcpServerIdentifier \<mapsto> [192, 168, 0, 1], dns \<mapsto> [192, 168, 0, 1], subnetMask \<mapsto> [255, 255, 255, 0],
     broadcastAddr \<mapsto> [192, 168, 0, 255], dhcpIPaddrLeaseTime \<mapsto> [0, 0, 14, 16], dhcpT1value \<mapsto> [0, 0, 7, 8],
     dhcpT2value \<mapsto> [0, 0, 12, 78]]"
  by (simp add: sample_table_def content_alloc)

lemma four_dvd: "(4 :: nat) dvd Suc (Suc (Suc (Suc 0)))"
  by presburger

lemma sample_table_ok: "opts_ok sample_table" "names_ok sample_table" "config_ready (content sample_table)"
proof -
  show "opts_ok sample_table" unfolding sample_table_def by (intro opts_ok_alloc opts_ok_release) simp_all
  show "names_ok sample_table"
    unfolding sample_table_def by (simp add: names_ok_other name_options_def names_ok_release)
  show "config_ready (content sample_table)" using four_dvd by (simp add: sample_table_content config_ready_def mult_def)
qed

lemma sample_willing: "willing sample_answers" "short_paths sample_settings" "printable sample_client"
  by (simp_all add: willing_def sample_answers_def short_paths_def sample_settings_def printable_def sample_client_def
      sample_iface_def clientIDsetup_def classIDsetup_def write_at_def CLASS_ID_MAX_LEN_def ETH_ALEN_def)

section \<open>Properties\<close>

text \<open>
  C27. The configuration does what the reply says: on a system that refuses nothing, with complete address
  lists in the table, the interface gets the address, the mask and the broadcast address, the static and
  the default routes are added in the order of the reply, the resolver reads back exactly the name servers
  of the reply, and the cache holds the interface data; only an infinite lease ends the program.
\<close>

theorem config_applies:
  assumes "willing a" and "short_paths s" and "opts_ok (cl_opts c)" and "names_ok (cl_opts c)"
    and "config_ready (content (cl_opts c))" and "printable c"
    and "\<not> TestCase s" and "ReplResolvConf s" and "\<not> SetHostName s" and "\<not> SetDomainName s"
    and "plain_domain (content (cl_opts c))"
  shows "\<exists>c' t. dhcpConfig s a c = Some (if opt4 (cl_opts c) dhcpIPaddrLeaseTime = Some [255, 255, 255, 255]
         then Config_exit else Config_ok, c')
    \<and> h_addr (cl_host c') = le32 (ciaddr (cl_iface c)) \<and> opt4 (cl_opts c) subnetMask = Some (h_mask (cl_host c'))
    \<and> opt4 (cl_opts c) broadcastAddr = Some (h_brd (cl_host c'))
    \<and> h_routes (cl_host c') = h_routes (cl_host c)
       @ map static_entry (case content (cl_opts c) staticRoute of None \<Rightarrow> [] | Some v \<Rightarrow> chunks8 v)
       @ map (default_entry (Window s)) (addresses (content (cl_opts c)) routersOnSubnet)
    \<and> h_files (cl_host c') RESOLV_CONF = Some t \<and> nameservers t = addresses (content (cl_opts c)) dns
    \<and> h_cache (cl_host c') = Some (take dhcpInterface_size (encode_iface ((cl_iface c)\<lparr>version := VERSION\<rparr>)))"
  by (rule config_willing [OF assms(1-10)]) (use nameservers_resolv [OF assms(11)] in auto)

theorem config_applies_witness:
  "\<exists>c' t. dhcpConfig sample_settings sample_answers sample_client = Some (Config_ok, c')
    \<and> h_files (cl_host c') RESOLV_CONF = Some t \<and> nameservers t = [[192, 168, 0, 1]]"
proof -
  have o: "cl_opts sample_client = sample_table" by (simp add: sample_client_def)
  have p: "\<not> TestCase sample_settings" "ReplResolvConf sample_settings" "\<not> SetHostName sample_settings"
    "\<not> SetDomainName sample_settings" by (simp_all add: sample_settings_def)
  have n: "plain_domain (content (cl_opts sample_client))" by (simp add: o sample_table_content plain_domain_def)
  have "opt4 sample_table dhcpIPaddrLeaseTime = Some [0, 0, 14, 16]"
    by (simp add: sample_table_def opt4_def alloc_def)
  moreover have "addresses (content sample_table) dns = [[192, 168, 0, 1]]" by (simp add: sample_table_content addresses_def)
  ultimately show ?thesis
    using config_applies [OF sample_willing(1,2) _ _ _ sample_willing(3) p n] sample_table_ok unfolding o by auto
qed

text \<open>
  C34. The cache round trips: after the cache was written, reading it gives back the interface data, whatever
  the client's data were in between; a cache of which fewer bytes reached the disk is refused.
\<close>

theorem cache_roundtrip:
  assumes "a_cache a = Cache_written n" and "sized (cl_iface c)" and "sized i"
  shows "readDhcpCache ((write_cache a c)\<lparr>cl_iface := i\<rparr>)
    = (if n < dhcpInterface_size
       then (False, (write_cache a c)\<lparr>cl_iface := decode_iface (take n (encode_iface ((cl_iface c)\<lparr>version := VERSION\<rparr>)) @ drop n (encode_iface i))\<rparr>)
       else (True, (write_cache a c)\<lparr>cl_prev := ciaddr (cl_iface c)\<rparr>))"
proof -
  let ?i = "(cl_iface c)\<lparr>version := VERSION\<rparr>"
  have s: "sized ?i" using assms(2) by (simp add: sized_def VERSION_def)
  have l: "length (encode_iface ?i) = 136" "length (encode_iface i) = 136" using length_encode_iface s assms(3) by blast+
  have h: "h_cache (cl_host ((write_cache a c)\<lparr>cl_iface := i\<rparr>)) = Some (take n (encode_iface ?i))"
    using assms(1) by (simp add: write_cache_def)
  have w: "cl_iface (write_cache a c) = ?i" using assms(1) by (simp add: write_cache_def)
  show ?thesis
  proof (cases "n < 136")
    case True
    then show ?thesis unfolding readDhcpCache_def h using l by (simp add: dhcpInterface_size_def)
  next
    case False
    then have e: "take dhcpInterface_size (take n (encode_iface ?i)) @ drop (length (take n (encode_iface ?i))) (encode_iface i) = encode_iface ?i"
      using l by (simp add: dhcpInterface_size_def)
    have u: "(write_cache a c)\<lparr>cl_iface := ?i\<rparr> = write_cache a c" using w by simp
    show ?thesis unfolding readDhcpCache_def h option.case Let_def
      using False l e decode_encode [OF s] u w by (simp add: dhcpInterface_size_def)
  qed
qed

theorem cache_roundtrip_witness:
  "readDhcpCache ((write_cache sample_answers sample_client)\<lparr>cl_iface := decode_iface (replicate 136 0)\<rparr>)
     = (True, (write_cache sample_answers sample_client)\<lparr>cl_prev := 0x4D00A8C0\<rparr>)"
proof -
  have "a_cache sample_answers = Cache_written 136" by (simp add: sample_answers_def dhcpInterface_size_def)
  moreover have "sized (cl_iface sample_client)"
    by (simp add: sized_def sample_client_def sample_iface_def clientIDsetup_def classIDsetup_def CLASS_ID_MAX_LEN_def
        ETH_ALEN_def sample_conf_def)
  moreover have "sized (decode_iface (replicate 136 0))" by (simp add: sized_def decode_iface_def read_at_def le_val_zeros)
  moreover have "ciaddr (cl_iface sample_client) = 0x4D00A8C0"
    by (simp add: sample_client_def sample_iface_def clientIDsetup_def classIDsetup_def)
  ultimately show ?thesis using cache_roundtrip by (simp add: dhcpInterface_size_def)
qed

text \<open>
  A list of name servers that is not made of whole addresses is read past its end: if its length leaves
  one or two bytes over, writing the resolver configuration reads behind the allocated value.
\<close>

theorem dns_overread:
  assumes "opt_val (cl_opts c) dns = Some (v @ [0])" and "opt_len (cl_opts c) dns = length v"
    and "length v mod 4 \<in> {1, 2}" and "a_open a RESOLV_CONF" and "ReplResolvConf s"
  shows "replace_files s a c = None"
proof -
  let ?n = "length v" and ?i = "0 + 4 * (length v div 4)"
  have "4 * (?n div 4) + ?n mod 4 = ?n" "0 < ?n mod 4" "?n mod 4 < 3" using assms(3) by auto
  then have b: "?i < ?n" "\<not> ?i + 4 \<le> ?n + 1" by linarith+
  from b(1) have m: "?i \<in> set (offsets 0 4 ?n)" by (intro offsets_mem) simp_all
  have "quad (cl_opts c) dns ?i = None" using assms(1) b(2) by (simp add: quad_def)
  then have "None \<in> set (map (quad (cl_opts c) dns) (offsets 0 4 ?n))" using m by (metis image_eqI list.set_map)
  then have "resolv_conf (cl_opts c) = None" by (simp add: resolv_conf_def each_quad_def assms(2) those_None)
  then show ?thesis using assms(4,5) by (simp add: replace_files_def replace_file_def put_file_def split: prod.splits)
qed

theorem dns_overread_witness:
  "replace_files sample_settings sample_answers (sample_client\<lparr>cl_opts := sample_table\<lparr>opt_len := (opt_len sample_table)(dns := 5),
     opt_val := (opt_val sample_table)(dns \<mapsto> [192, 168, 0, 1, 7, 0])\<rparr>\<rparr>) = None"
  by (rule dns_overread [where v = "[192, 168, 0, 1, 7]"]) (simp_all add: sample_answers_def sample_settings_def)

text \<open>
  A gateway outside the local network is reached through a host route: when the kernel accepts a default
  route exactly if it can reach the gateway, and a host route makes the gateway reachable, the default
  route is in the routing table afterwards.
\<close>

theorem gateway_over_bridge:
  assumes "\<And>rs. a_route a rs (default_entry w g) = (if reach rs then Rt_ok else Rt_unreachable)"
    and "\<And>rs. a_route a rs (gateway_entry g) = Rt_ok" and "\<And>rs. gateway_entry g \<in> set rs \<Longrightarrow> reach rs"
  shows "h_routes (default_route a w g h) = h_routes h
    @ (if reach (h_routes h) then [] else [gateway_entry g]) @ [default_entry w g]"
  using assms(3) [of "h_routes h @ [gateway_entry g]"]
  by (simp add: default_route_def add_route_def assms(1,2) Let_def)

definition bridge_answers :: answers where
  "bridge_answers = sample_answers\<lparr>a_route := (\<lambda>rs r. if rt_dst r = [0, 0, 0, 0] \<and> rs = [] then Rt_unreachable else Rt_ok)\<rparr>"

theorem gateway_over_bridge_witness:
  "h_routes (default_route bridge_answers 0 [10, 0, 0, 1] sample_host) = [gateway_entry [10, 0, 0, 1], default_entry 0 [10, 0, 0, 1]]"
proof -
  have "a_route bridge_answers rs (default_entry 0 [10, 0, 0, 1]) = (if rs \<noteq> [] then Rt_ok else Rt_unreachable)"
    "a_route bridge_answers rs (gateway_entry [10, 0, 0, 1]) = Rt_ok" for rs
    by (simp_all add: bridge_answers_def default_entry_def gateway_entry_def)
  then have "h_routes (default_route bridge_answers 0 [10, 0, 0, 1] sample_host) = h_routes sample_host
      @ (if h_routes sample_host \<noteq> [] then [] else [gateway_entry [10, 0, 0, 1]]) @ [default_entry 0 [10, 0, 0, 1]]"
    by (rule gateway_over_bridge) auto
  then show ?thesis by (simp add: sample_host_def)
qed

end
