(* ===== verification/Dhcp_Client.thy ===== *)
theory Dhcp_Client
  imports Dhcp_Config
begin

text \<open>
  The states of the DHCP client (\<^verbatim>\<open>dhcpStart\<close>, \<^verbatim>\<open>dhcpReboot\<close>, \<^verbatim>\<open>dhcpInit\<close>, \<^verbatim>\<open>dhcpRequest\<close>, \<^verbatim>\<open>dhcpBound\<close>,
  \<^verbatim>\<open>dhcpRenew\<close>, \<^verbatim>\<open>dhcpRebind\<close>, \<^verbatim>\<open>dhcpRelease\<close>, \<^verbatim>\<open>dhcpStop\<close>, \<^verbatim>\<open>dhcpInform\<close> in \<^verbatim>\<open>client.c\<close>), the signal handler
  (\<^verbatim>\<open>signals.c\<close>) and the loops of \<^verbatim>\<open>main\<close> (\<^verbatim>\<open>dhcpcd.c\<close>), as built for the camera (no automatic address, no
  ARP check).  One call of a state function is a step; what the system answers during the call is an
  argument.  An exchange that is still waiting when the answers end is ended by the pending alarm.
\<close>

section \<open>Definitions\<close>

datatype state = Start | Reboot | Init | Bound | Renew | Rebind | Stop | Inform

text \<open>
  The result of a state function: the next state, a null pointer, the end of the program with an exit
  code, waiting without a pending alarm, or a wild memory access.
\<close>

datatype step = Next state client | Null client | Exit int client | Waits client | Wild

text \<open>
  The answers during one call: the hardware addresses that \<open>dhcpStart\<close> reads (fewer than it asks for if a
  call fails that ends the program), the clock in \<open>dhcpStart\<close>, when the state computes its alarm and at the
  reply, the address of the interface, a random number, the events of up to three exchanges, the answers
  to the configuration, the system name, whether a signal cuts the sleep of \<open>dhcpBound\<close> short, the value of
  the pointer to the server identifier, whether the release can be sent, and the result of \<open>fork\<close>.
\<close>

record answers_step =
  s_start :: "byte list list"
  s_clock0 :: int
  s_now :: int
  s_reply :: int
  s_ifaddr :: "u32 option"
  s_xid :: u32
  s_sends1 :: "send_event list"
  s_recvs1 :: "recv_event list"
  s_sends2 :: "send_event list"
  s_recvs2 :: "recv_event list"
  s_sends3 :: "send_event list"
  s_recvs3 :: "recv_event list"
  s_config :: answers
  s_uname :: "byte list"
  s_early :: bool
  s_pointer :: u32
  s_release :: bool
  s_fork :: int

definition HWADDR_TRIES :: nat where "HWADDR_TRIES = 3"
definition SIGHUP :: int where "SIGHUP = 1"
definition SIGALRM :: int where "SIGALRM = 14"
definition SIGCHLD :: int where "SIGCHLD = 17"

text \<open>An exchange within the client, with the message type awaited and the builder.\<close>

definition run_exchange ::
  "settings \<Rightarrow> u32 \<Rightarrow> nat \<Rightarrow> (dhcpOptions \<Rightarrow> u32 \<Rightarrow> u16 \<Rightarrow> (byte list \<times> u16) option) \<Rightarrow> send_event list \<Rightarrow> recv_event list
     \<Rightarrow> client \<Rightarrow> outcome" where
  "run_exchange s xid msg build ss rs c =
     dhcpSendAndRecv \<lparr>r_xid = xid, r_msg = msg, r_build = build, r_lease = nleaseTime (cl_conf c), r_check = DoCheckSum s\<rparr>
       \<lparr>x_j = 0, x_begin = \<lparr>tv_sec = 0, tv_usec = 0\<rparr>, x_frame = cl_frame c, x_buf = cl_buf c, x_at = cl_at c, x_opts = cl_opts c,
        x_ip_id = cl_ip_id c, x_sent = [], x_waits = []\<rparr> ss rs"

definition after_exchange :: "exchange \<Rightarrow> client \<Rightarrow> client" where
  "after_exchange x c = c\<lparr>cl_frame := x_frame x, cl_buf := x_buf x, cl_at := x_at x, cl_opts := x_opts x, cl_ip_id := x_ip_id x,
     cl_host := (cl_host c)\<lparr>h_sent := h_sent (cl_host c) @ x_sent x\<rparr>\<rparr>"

text \<open>The builders with the data of the client; a missing server identifier is a wild access.\<close>

definition b_discover :: "client \<Rightarrow> dhcpOptions \<Rightarrow> u32 \<Rightarrow> u16 \<Rightarrow> (byte list \<times> u16) option" where
  "b_discover c = (\<lambda>opts xid n. Some (buildDhcpDiscover (cl_conf c) (cl_iface c) xid n))"
definition b_request :: "client \<Rightarrow> dhcpOptions \<Rightarrow> u32 \<Rightarrow> u16 \<Rightarrow> (byte list \<times> u16) option" where
  "b_request c = buildDhcpRequest (cl_conf c) (cl_iface c)"
definition b_reboot :: "client \<Rightarrow> dhcpOptions \<Rightarrow> u32 \<Rightarrow> u16 \<Rightarrow> (byte list \<times> u16) option" where
  "b_reboot c = (\<lambda>opts xid n. Some (buildDhcpReboot (cl_conf c) (cl_iface c) xid n))"
definition b_renew :: "client \<Rightarrow> dhcpOptions \<Rightarrow> u32 \<Rightarrow> u16 \<Rightarrow> (byte list \<times> u16) option" where
  "b_renew c = buildDhcpRenew (cl_conf c) (cl_iface c)"
definition b_rebind :: "client \<Rightarrow> dhcpOptions \<Rightarrow> u32 \<Rightarrow> u16 \<Rightarrow> (byte list \<times> u16) option" where
  "b_rebind c = buildDhcpRebind (cl_conf c) (cl_iface c)"
definition b_inform :: "client \<Rightarrow> dhcpOptions \<Rightarrow> u32 \<Rightarrow> u16 \<Rightarrow> (byte list \<times> u16) option" where
  "b_inform c = (\<lambda>opts xid n. Some (buildDhcpInform (cl_conf c) (cl_iface c) (cl_inform c) xid n))"

text \<open>\<open>dhcpStop\<close>: the saved files are put back if they were renamed, and the script is run.\<close>

definition restore :: "bool \<Rightarrow> string \<Rightarrow> host \<Rightarrow> host" where
  "restore r path h = (if r then snd (rename (path @ ''.sv'') path h) else h)"

definition execute_on_change :: "string \<Rightarrow> client \<Rightarrow> client" where
  "execute_on_change prm c = c\<lparr>cl_host := (cl_host c)\<lparr>h_scripts := h_scripts (cl_host c) @ [prm]\<rparr>\<rparr>"

definition dhcpStop :: "client \<Rightarrow> client" where
  "dhcpStop c =
     (let h = restore (cl_resolv c) RESOLV_CONF (cl_host c);
          h = restore (cl_yp c) NIS_CONF h;
          h = restore (cl_ntp c) NTP_CONF h
      in execute_on_change ''down'' (c\<lparr>cl_opts := releaseDhcpOptions, cl_host := h\<rparr>))"

text \<open>\<open>dhcpRelease\<close>; the server identifier in the message is the pointer to it.\<close>

definition dhcpRelease :: "settings \<Rightarrow> answers_step \<Rightarrow> client \<Rightarrow> client" where
  "dhcpRelease s e c =
     (let c = deleteDhcpCache c; i = cl_iface c
      in if ciaddr i = 0 then c
         else let ptr = (case opt_val (cl_opts c) dhcpServerIdentifier of None \<Rightarrow> 0 | Some _ \<Rightarrow> s_pointer e);
                  (f, n) = buildDhcpRelease (cl_conf c) i ptr (s_xid e) (cl_ip_id c);
                  h = cl_host c;
                  h = (if s_release e then h\<lparr>h_sent := h_sent h @ [take (14 + udpiphdr_size + dhcpMessage_size) f]\<rparr> else h);
                  h = (if a_arp (s_config e) then h\<lparr>h_arp := h_arp h @ [arpRelease (ClientHwAddr (cl_conf c)) (ciaddr i)]\<rparr> else h);
                  h = (case cl_inithost c of Some v \<Rightarrow> if SetHostName s then h\<lparr>h_hostname := v\<rparr> else h | None \<Rightarrow> h);
                  h = (case cl_initdomain c of Some v \<Rightarrow> if SetDomainName s then h\<lparr>h_domain := v\<rparr> else h | None \<Rightarrow> h)
              in c\<lparr>cl_frame := f, cl_ip_id := n, cl_iface := i\<lparr>ciaddr := 0\<rparr>, cl_host := h\<rparr>)"

section \<open>Signals\<close>

text \<open>The file with the process number.\<close>

definition PID_FILE_PATH :: "settings \<Rightarrow> string" where
  "PID_FILE_PATH s = take 63 (ConfigDir s @ ''/dhcpcd-'' @ IfNameExt s @ ''.pid'')"

definition writePidFile :: "settings \<Rightarrow> answers_step \<Rightarrow> int \<Rightarrow> client \<Rightarrow> client option" where
  "writePidFile s e pid c =
     (if a_open (s_config e) (PID_FILE_PATH s)
      then Some (c\<lparr>cl_host := (cl_host c)\<lparr>h_files := (h_files (cl_host c))(PID_FILE_PATH s \<mapsto> show_nat (nat (pid mod 2 ^ 32)) @ [NL])\<rparr>\<rparr>)
      else None)"

definition deletePidFile :: "settings \<Rightarrow> client \<Rightarrow> client" where
  "deletePidFile s c = c\<lparr>cl_host := (cl_host c)\<lparr>h_files := (h_files (cl_host c))(PID_FILE_PATH s := None)\<rparr>\<rparr>"

text \<open>\<open>sigHandler\<close> in the state \<open>st\<close>: it returns, jumps to the last \<^verbatim>\<open>sigsetjmp\<close>, or ends the program.\<close>

datatype handled = Returns client | Jumps nat client | Ends int client

definition sigHandler :: "settings \<Rightarrow> answers_step \<Rightarrow> int \<Rightarrow> state \<Rightarrow> client \<Rightarrow> handled" where
  "sigHandler s e sig st c =
     (if sig = SIGCHLD then Returns c
      else if sig = SIGALRM \<and> st = Bound then Jumps 1 c
      else if sig = SIGALRM \<and> st = Renew then Jumps 2 c
      else if sig = SIGALRM \<and> st = Rebind then Jumps 3 c
      else if sig = SIGALRM \<and> st = Reboot then Jumps 4 c
      else let c = (if sig = SIGHUP then dhcpRelease s e c else c)
           in Ends sig (deletePidFile s (dhcpStop c)))"

text \<open>What follows the jump in \<open>dhcpBound\<close>, \<open>dhcpRenew\<close>, \<open>dhcpRebind\<close> and \<open>dhcpReboot\<close>.\<close>

definition resume :: "settings \<Rightarrow> answers_step \<Rightarrow> nat \<Rightarrow> client \<Rightarrow> step" where
  "resume s e n c =
     (if n = 1 then Next Renew c else if n = 2 then Next Rebind c else if n = 3 then Next Stop c
      else Next Init (c\<lparr>cl_alarm := Some (s_now e + TimeOut s)\<rparr>))"

definition signalled :: "settings \<Rightarrow> answers_step \<Rightarrow> int \<Rightarrow> state \<Rightarrow> client \<Rightarrow> step" where
  "signalled s e sig st c =
     (case sigHandler s e sig st c of
        Returns c \<Rightarrow> Next st c
      | Jumps n c \<Rightarrow> resume s e n c
      | Ends k c \<Rightarrow> Exit k c)"

text \<open>An exchange without further answers lasts until the alarm.\<close>

definition until_alarm :: "settings \<Rightarrow> answers_step \<Rightarrow> state \<Rightarrow> client \<Rightarrow> step" where
  "until_alarm s e st c = (if cl_alarm c = None then Waits c else signalled s e SIGALRM st (c\<lparr>cl_alarm := None\<rparr>))"

section \<open>States\<close>

text \<open>\<open>dhcpStart\<close>: the hardware address is read up to three times while it is zero.\<close>

fun hw_tries :: "nat \<Rightarrow> byte list list \<Rightarrow> byte list option" where
  "hw_tries n [] = None"
| "hw_tries n (hw # hws) = (if take ETH_ALEN hw = replicate ETH_ALEN 0 \<and> n < HWADDR_TRIES then hw_tries (n + 1) hws
     else Some (take ETH_ALEN hw))"

definition dhcpStart :: "answers_step \<Rightarrow> client \<Rightarrow> client option" where
  "dhcpStart e c =
     map_option (\<lambda>hw. c\<lparr>cl_conf := (cl_conf c)\<lparr>ClientHwAddr := hw\<rparr>, cl_ip_id := of_int (s_clock0 e mod 65536),
          cl_host := (cl_host c)\<lparr>h_up := True\<rparr>\<rparr>)
       (hw_tries 1 (s_start e))"

text \<open>The identifiers: from the command line, or set up.\<close>

definition class_setup :: "settings \<Rightarrow> answers_step \<Rightarrow> dhcpInterface \<Rightarrow> dhcpInterface" where
  "class_setup s e i =
     (case ClassID s of
        Some cid \<Rightarrow> i\<lparr>class_id := write_at 0 cid (class_id i), class_len := length cid\<rparr>
      | None \<Rightarrow> classIDsetup (s_uname e) i)"

definition zero_iface :: dhcpInterface where
  "zero_iface = \<lparr>version = replicate 11 0, ciaddr = 0, siaddr = 0, class_len = 0, client_len = 0, if_xid = 0,
     shaddr = replicate 6 0, class_id = replicate 48 0, client_id = replicate 48 0\<rparr>"

text \<open>The server of the last reply.\<close>

definition server_of :: "client \<Rightarrow> client option" where
  "server_of c = map_option (\<lambda>sid. c\<lparr>cl_iface := (cl_iface c)\<lparr>siaddr := of_le32 sid, shaddr := read_at 6 6 (cl_buf c)\<rparr>\<rparr>)
     (opt4 (cl_opts c) dhcpServerIdentifier)"

text \<open>\<open>dhcpRequest\<close>, called in the state \<open>st\<close>.\<close>

definition dhcpRequest ::
  "settings \<Rightarrow> answers_step \<Rightarrow> state \<Rightarrow> u32 \<Rightarrow> (dhcpOptions \<Rightarrow> u32 \<Rightarrow> u16 \<Rightarrow> (byte list \<times> u16) option) \<Rightarrow> client \<Rightarrow> step" where
  "dhcpRequest s e st xid build c =
     (case run_exchange s xid DHCP_ACK build (s_sends3 e) (s_recvs3 e) c of
        Fault \<Rightarrow> Wild
      | Waiting x \<Rightarrow> until_alarm s e st (after_exchange x c)
      | Returned r x \<Rightarrow>
          let c = after_exchange x c
          in if r \<noteq> 0 then Next Init c
             else case dhcpConfig s (s_config e) (c\<lparr>cl_time := s_reply e\<rparr>) of
                    None \<Rightarrow> Wild
                  | Some (Config_failed, c) \<Rightarrow> Null (dhcpStop c)
                  | Some (Config_exit, c) \<Rightarrow> Exit 0 c
                  | Some (Config_ok, c) \<Rightarrow> (case server_of c of None \<Rightarrow> Wild | Some c \<Rightarrow> Next Bound c))"

definition dhcpReboot :: "settings \<Rightarrow> answers_step \<Rightarrow> client \<Rightarrow> step" where
  "dhcpReboot s e c =
     (case dhcpStart e c of
        None \<Rightarrow> Exit 1 c
      | Some c \<Rightarrow>
          let (ok, c) = readDhcpCache (c\<lparr>cl_opts := releaseDhcpOptions, cl_iface := zero_iface\<rparr>)
          in if ok then dhcpRequest s e Reboot (s_xid e) (b_reboot c) c
             else let i = zero_iface\<lparr>ciaddr := (case s_ifaddr e of None \<Rightarrow> 0 | Some a \<Rightarrow> a)\<rparr>
                  in Next Init (c\<lparr>cl_iface := clientIDsetup (ClientID s) (cl_conf c) (class_setup s e i)\<rparr>))"

definition dhcpInit :: "settings \<Rightarrow> answers_step \<Rightarrow> client \<Rightarrow> step" where
  "dhcpInit s e c =
     (let c = c\<lparr>cl_opts := releaseDhcpOptions\<rparr>
      in case run_exchange s (s_xid e) DHCP_OFFER (b_discover c) (s_sends1 e) (s_recvs1 e) c of
           Fault \<Rightarrow> Wild
         | Waiting x \<Rightarrow> until_alarm s e Init (after_exchange x c)
         | Returned r x \<Rightarrow>
             let c = after_exchange x c; xid = of_le32 (read_at (cl_at c + 4) 4 (cl_buf c))
             in if r \<noteq> 0 then Null (dhcpStop c)
                else case run_exchange s xid DHCP_OFFER (b_discover c) (s_sends2 e) (s_recvs2 e) c of
                       Fault \<Rightarrow> Wild
                     | Waiting x \<Rightarrow> until_alarm s e Init (after_exchange x c)
                     | Returned _ x \<Rightarrow>
                         let c = after_exchange x c; xid = of_le32 (read_at (cl_at c + 4) 4 (cl_buf c));
                             yiaddr = of_le32 (read_at (cl_at c + 16) 4 (cl_buf c))
                         in case server_of (c\<lparr>cl_iface := (cl_iface c)\<lparr>ciaddr := yiaddr\<rparr>\<rparr>) of
                              None \<Rightarrow> Wild
                            | Some c \<Rightarrow>
                                let c = c\<lparr>cl_iface := (cl_iface c)\<lparr>if_xid := xid\<rparr>\<rparr>
                                in dhcpRequest s e Init xid (b_request c) c)"

text \<open>The seconds until the time in option \<open>k\<close> after the last reply, in 32-bit arithmetic.\<close>

definition remaining :: "byte \<Rightarrow> int \<Rightarrow> client \<Rightarrow> int option" where
  "remaining k now c = map_option (\<lambda>t. to_int32 (cl_time c + int (be_val t) - now)) (opt4 (cl_opts c) k)"

text \<open>\<open>dhcpBound\<close>: the alarm ends the sleep, unless the sleep ends early and the alarm stays pending.\<close>

definition dhcpBound :: "settings \<Rightarrow> answers_step \<Rightarrow> client \<Rightarrow> step" where
  "dhcpBound s e c =
     (case remaining dhcpT1value (s_now e) c of
        None \<Rightarrow> Wild
      | Some i \<Rightarrow>
          if i > 0
          then let c = c\<lparr>cl_alarm := Some (s_now e + i)\<rparr> in if s_early e then Next Renew c else until_alarm s e Bound c
          else Next Renew c)"

definition dhcpRenew :: "settings \<Rightarrow> answers_step \<Rightarrow> client \<Rightarrow> step" where
  "dhcpRenew s e c =
     (case remaining dhcpT2value (s_now e) c of
        None \<Rightarrow> Wild
      | Some i \<Rightarrow>
          if i > 0
          then let c = c\<lparr>cl_alarm := Some (s_now e + i)\<rparr>
               in case run_exchange s (s_xid e) DHCP_ACK (b_renew c) (s_sends1 e) (s_recvs1 e) c of
                    Fault \<Rightarrow> Wild
                  | Waiting x \<Rightarrow> until_alarm s e Renew (after_exchange x c)
                  | Returned r x \<Rightarrow> if r \<noteq> 0 then Next Rebind (after_exchange x c)
                                    else Next Bound ((after_exchange x c)\<lparr>cl_time := s_reply e\<rparr>)
          else Next Rebind c)"

definition dhcpRebind :: "settings \<Rightarrow> answers_step \<Rightarrow> client \<Rightarrow> step" where
  "dhcpRebind s e c =
     (case remaining dhcpIPaddrLeaseTime (s_now e) c of
        None \<Rightarrow> Wild
      | Some i \<Rightarrow>
          if i > 0
          then let c = c\<lparr>cl_alarm := Some (s_now e + i)\<rparr>
               in case run_exchange s (s_xid e) DHCP_ACK (b_rebind c) (s_sends1 e) (s_recvs1 e) c of
                    Fault \<Rightarrow> Wild
                  | Waiting x \<Rightarrow> until_alarm s e Rebind (after_exchange x c)
                  | Returned r x \<Rightarrow> if r \<noteq> 0 then Next Stop (after_exchange x c)
                                    else case server_of ((after_exchange x c)\<lparr>cl_time := s_reply e\<rparr>) of
                                           None \<Rightarrow> Wild | Some c \<Rightarrow> Next Bound c
          else Next Stop c)"

text \<open>\<open>dhcpInform\<close>: the address asked about, and the state.\<close>

definition inform_address :: "answers_step \<Rightarrow> client \<Rightarrow> bool \<times> client" where
  "inform_address e c =
     (if cl_inform c \<noteq> 0 then (True, c)
      else let c = (case s_ifaddr e of None \<Rightarrow> c | Some a \<Rightarrow> c\<lparr>cl_inform := a\<rparr>)
           in if cl_inform c \<noteq> 0 then (True, c)
              else let (ok, c) = readDhcpCache c in if ok then (True, c\<lparr>cl_inform := ciaddr (cl_iface c)\<rparr>) else (False, c))"

definition dhcpInform :: "settings \<Rightarrow> answers_step \<Rightarrow> client \<Rightarrow> step" where
  "dhcpInform s e c =
     (case dhcpStart e c of
        None \<Rightarrow> Exit 1 c
      | Some c \<Rightarrow>
          let (ok, c) = inform_address e (c\<lparr>cl_opts := releaseDhcpOptions, cl_iface := zero_iface\<rparr>)
          in if \<not> ok then Null c
             else let i = (cl_iface c)\<lparr>ciaddr := cl_inform c\<rparr>;
                      i = (if class_len i = 0 then class_setup s e i else i);
                      i = (if client_len i = 0 then clientIDsetup (ClientID s) (cl_conf c) i else i);
                      c = c\<lparr>cl_iface := i\<rparr>
                  in case run_exchange s (s_xid e) DHCP_ACK (b_inform c) (s_sends1 e) (s_recvs1 e) c of
                       Fault \<Rightarrow> Wild
                     | Waiting x \<Rightarrow> until_alarm s e Inform (after_exchange x c)
                     | Returned r x \<Rightarrow>
                         let c = after_exchange x c
                         in if r \<noteq> 0 then Null c
                            else case dhcpConfig s (s_config e) c of
                                   None \<Rightarrow> Wild
                                 | Some (Config_failed, c) \<Rightarrow> Null c
                                 | Some (_, c) \<Rightarrow> Exit 0 c)"

text \<open>One call of the current state.\<close>

definition state_step :: "settings \<Rightarrow> answers_step \<Rightarrow> state \<Rightarrow> client \<Rightarrow> step" where
  "state_step s e st c =
     (case st of
        Start \<Rightarrow> (case dhcpStart e c of None \<Rightarrow> Exit 1 c | Some c \<Rightarrow> Next Init c)
      | Reboot \<Rightarrow> dhcpReboot s e c
      | Init \<Rightarrow> dhcpInit s e c
      | Bound \<Rightarrow> dhcpBound s e c
      | Renew \<Rightarrow> dhcpRenew s e c
      | Rebind \<Rightarrow> dhcpRebind s e c
      | Stop \<Rightarrow> Next Start (dhcpStop c)
      | Inform \<Rightarrow> dhcpInform s e c)"

section \<open>The program\<close>

text \<open>
  The loop until the first \<open>dhcpBound\<close>, the daemon, and the ends: an exit code, waiting for ever, a wild access.
  An event is a call of the current state or a signal before the next call.  A SIGCHLD during the sleep of
  \<open>dhcpBound\<close> belongs to the answers of that call (\<open>s_early\<close>).
\<close>

datatype machine = Acquiring state client | Serving state client | Ended int client | Blocked client | Crashed

datatype event = Call answers_step | Signal int answers_step

definition become_daemon :: "settings \<Rightarrow> answers_step \<Rightarrow> client \<Rightarrow> machine" where
  "become_daemon s e c =
     (let c = c\<lparr>cl_alarm := None\<rparr>
      in case writePidFile s e (s_fork e) c of
           None \<Rightarrow> Ended 1 c
         | Some c \<Rightarrow> if s_fork e < 0 then Ended 0 c else Serving Bound c)"

definition event_step :: "settings \<Rightarrow> event \<Rightarrow> state \<Rightarrow> client \<Rightarrow> step" where
  "event_step s ev st c = (case ev of Call e \<Rightarrow> state_step s e st c | Signal sig e \<Rightarrow> signalled s e sig st c)"

fun answers_of :: "event \<Rightarrow> answers_step" where
  "answers_of (Call e) = e"
| "answers_of (Signal sig e) = e"

definition machine_step :: "settings \<Rightarrow> event \<Rightarrow> machine \<Rightarrow> machine" where
  "machine_step s ev m =
     (case m of
        Acquiring st c \<Rightarrow>
          (case event_step s ev st c of
             Next st c \<Rightarrow> if st = Bound then become_daemon s (answers_of ev) c else Acquiring st c
           | Null c \<Rightarrow> Ended 1 c | Exit k c \<Rightarrow> Ended k c | Waits c \<Rightarrow> Blocked c | Wild \<Rightarrow> Crashed)
      | Serving st c \<Rightarrow>
          (case event_step s ev st c of
             Next st c \<Rightarrow> Serving st c
           | Null c \<Rightarrow> Ended 1 (deletePidFile s c) | Exit k c \<Rightarrow> Ended k c | Waits c \<Rightarrow> Blocked c | Wild \<Rightarrow> Crashed)
      | _ \<Rightarrow> m)"

definition checkIfAlreadyRunning :: "settings \<Rightarrow> client \<Rightarrow> bool" where
  "checkIfAlreadyRunning s c = (h_files (cl_host c) (PID_FILE_PATH s) \<noteq> None)"

text \<open>The start of the program after the command line: \<open>st\<close> is \<open>dhcpReboot\<close> or \<open>dhcpInform\<close>, \<open>mk\<close> whether the directory of the client exists or was made.\<close>

definition main_start :: "settings \<Rightarrow> int \<Rightarrow> bool \<Rightarrow> state \<Rightarrow> client \<Rightarrow> machine" where
  "main_start s now mk st c =
     (if \<not> TestCase s \<and> checkIfAlreadyRunning s c then Ended 1 c
      else if \<not> mk then Ended 1 c
      else Acquiring st (c\<lparr>cl_alarm := Some (now + TimeOut s)\<rparr>))"

inductive reaches :: "settings \<Rightarrow> machine \<Rightarrow> machine \<Rightarrow> bool" for s where
  here: "reaches s m m"
| step: "reaches s m m' \<Longrightarrow> reaches s m (machine_step s ev m')"

section \<open>What the configuration changes\<close>

text \<open>The address of the client and of the interface, and the file of the name servers with its saved copy.\<close>

definition resolv_paths :: "string list" where
  "resolv_paths = [RESOLV_CONF, RESOLV_CONF @ ''.sv'']"

definition same :: "client \<Rightarrow> client \<Rightarrow> bool" where
  "same c c' \<longleftrightarrow> ciaddr (cl_iface c') = ciaddr (cl_iface c) \<and> h_addr (cl_host c') = h_addr (cl_host c) \<and> cl_resolv c' = cl_resolv c
     \<and> list_all (\<lambda>p. h_files (cl_host c') p = h_files (cl_host c) p) resolv_paths"

lemma same_refl [simp]: "same c c" by (simp add: same_def list_all_iff)

lemma same_trans [trans]: "same a b \<Longrightarrow> same b c \<Longrightarrow> same a c" by (auto simp: same_def list_all_iff)

lemma other_paths:
  assumes "p \<in> set resolv_paths"
  shows "p \<noteq> take 127 (DHCP_HOSTINFO s)" "p \<noteq> take 127 (DHCP_HOSTINFO s @ ''.old'')" "p \<noteq> PID_FILE_PATH s"
    "p \<noteq> NIS_CONF" "p \<noteq> NIS_CONF @ ''.sv''" "p \<noteq> NTP_CONF" "p \<noteq> NTP_CONF @ ''.sv''"
proof -
  have l: "length p \<le> 19" "last p \<in> {CHR ''f'', CHR ''v''}" using assms by (auto simp: resolv_paths_def RESOLV_CONF_def)
  have t: "p \<noteq> take n q" if "19 < n" "last q \<notin> {CHR ''f'', CHR ''v''}" for n :: nat and q :: string
  proof
    assume e: "p = take n q"
    then have "length q \<le> n" using l(1) that(1) by auto
    then show False using e l(2) that(2) by simp
  qed
  show "p \<noteq> take 127 (DHCP_HOSTINFO s)" "p \<noteq> take 127 (DHCP_HOSTINFO s @ ''.old'')" "p \<noteq> PID_FILE_PATH s"
    unfolding PID_FILE_PATH_def by (rule t; simp add: DHCP_HOSTINFO_def)+
  show "p \<noteq> NIS_CONF" "p \<noteq> NIS_CONF @ ''.sv''" "p \<noteq> NTP_CONF" "p \<noteq> NTP_CONF @ ''.sv''"
    using assms conf_paths by (auto simp: resolv_paths_def)
qed

lemma same_files:
  "(\<And>p. p \<in> set resolv_paths \<Longrightarrow> g p = h_files (cl_host c) p) \<Longrightarrow> same c (c\<lparr>cl_host := (cl_host c)\<lparr>h_files := g\<rparr>\<rparr>)"
  by (simp add: same_def list_all_iff)

lemma rename_other: "p \<noteq> old \<Longrightarrow> p \<noteq> new \<Longrightarrow> h_files (snd (rename old new h)) p = h_files h p"
  by (simp add: rename_files split: option.splits)

lemma rename_host: "\<exists>g. snd (rename old new h) = h\<lparr>h_files := g\<rparr>"
  by (auto simp: rename_def split: option.splits intro: exI [of _ "h_files h"])

lemma put_file_other: "put_file a path t h = Some h' \<Longrightarrow> p \<noteq> path \<Longrightarrow> h_files h' p = h_files h p"
  by (auto simp: put_file_def split: if_splits)

lemma put_file_host: "put_file a path t h = Some h' \<Longrightarrow> \<exists>g. h' = h\<lparr>h_files := g\<rparr>"
  by (auto simp: put_file_def split: if_splits intro: exI [of _ "h_files h"])

lemma replace_file_result:
  assumes "replace_file a path t h = Some (r, h')"
  shows "r \<longleftrightarrow> h_files h path \<noteq> None" "\<exists>g. h' = h\<lparr>h_files := g\<rparr>"
    "p \<noteq> path \<Longrightarrow> p \<noteq> path @ ''.sv'' \<Longrightarrow> h_files h' p = h_files h p"
    "h_files h' (path @ ''.sv'') = (case h_files h path of None \<Rightarrow> h_files h (path @ ''.sv'') | Some u \<Rightarrow> Some u)"
proof -
  let ?h = "snd (rename path (path @ ''.sv'') h)"
  have e: "r = fst (rename path (path @ ''.sv'') h)" "put_file a path t ?h = Some h'"
    using assms by (auto simp: replace_file_def split: prod.splits)
  show "r \<longleftrightarrow> h_files h path \<noteq> None" using e(1) rename_files(2) by simp
  show "\<exists>g. h' = h\<lparr>h_files := g\<rparr>" using put_file_host [OF e(2)] rename_host [of path "path @ ''.sv''" h] by auto
  show "h_files h' p = h_files h p" if "p \<noteq> path" "p \<noteq> path @ ''.sv''"
    using put_file_other [OF e(2) that(1)] rename_other [OF that] by simp
  show "h_files h' (path @ ''.sv'') = (case h_files h path of None \<Rightarrow> h_files h (path @ ''.sv'') | Some u \<Rightarrow> Some u)"
    using put_file_other [OF e(2), of "path @ ''.sv''"] by (simp add: rename_files split: option.splits)
qed

lemma replace_same:
  assumes "replace_file a path t (cl_host c) = Some (r, h)" "path \<in> {NIS_CONF, NTP_CONF}"
  shows "same c (c\<lparr>cl_yp := r, cl_host := h\<rparr>)" "same c (c\<lparr>cl_ntp := r, cl_host := h\<rparr>)"
proof -
  have "h_files h p = h_files (cl_host c) p" if p: "p \<in> set resolv_paths" for p
    using replace_file_result(3) [OF assms(1)] assms(2) other_paths [OF p] by blast
  then show "same c (c\<lparr>cl_yp := r, cl_host := h\<rparr>)" "same c (c\<lparr>cl_ntp := r, cl_host := h\<rparr>)"
    using replace_file_result(2) [OF assms(1)] by (auto simp: same_def list_all_iff)
qed

lemma write_info_same:
  assumes "write_info s a c = Some c'"
  shows "same c c'"
proof -
  let ?h = "snd (rename (take 127 (DHCP_HOSTINFO s)) (take 127 (DHCP_HOSTINFO s @ ''.old'')) (cl_host c))"
  obtain h t where h: "c' = c\<lparr>cl_host := h\<rparr>" "put_file a (take 127 (DHCP_HOSTINFO s)) t ?h = Some h"
    using assms unfolding write_info_def Let_def by auto
  obtain g where g: "h = (cl_host c)\<lparr>h_files := g\<rparr>"
    using put_file_host [OF h(2)] rename_host [of "take 127 (DHCP_HOSTINFO s)" "take 127 (DHCP_HOSTINFO s @ ''.old'')" "cl_host c"] by auto
  have "h_files h p = h_files (cl_host c) p" if p: "p \<in> set resolv_paths" for p
    using put_file_other [OF h(2) other_paths(1) [OF p]] rename_other [OF other_paths(1,2) [OF p]] by simp
  then show ?thesis unfolding h(1) using g by (simp add: same_files)
qed

lemma config_tail_same:
  assumes "config_tail s a c = Some (r, c')"
  shows "same c c'" "r \<noteq> Config_failed"
proof -
  obtain c1 where c1: "write_info s a (write_cache a c) = Some c1"
    "c' = ipchg ''start'' (c1\<lparr>cl_prev := ciaddr (cl_iface c1)\<rparr>)" "r \<noteq> Config_failed"
    using assms unfolding config_tail_def Let_def by (auto split: Option.bind_splits)
  have "same c (write_cache a c)" by (auto simp: same_def write_cache_def Let_def list_all_iff split: cache_answer.splits)
  also have "same (write_cache a c) c1" by (rule write_info_same [OF c1(1)])
  also have "same c1 c'" by (simp add: c1(2) same_def ipchg_def list_all_iff)
  finally show "same c c'" "r \<noteq> Config_failed" using c1(3) by simp_all
qed

lemma routes_keep:
  "h_addr (snd (add_route a rt h)) = h_addr h" "h_files (snd (add_route a rt h)) = h_files h"
  "h_addr (default_route a w g h) = h_addr h" "h_files (default_route a w g h) = h_files h"
proof -
  show 1: "h_addr (snd (add_route a rt h)) = h_addr h" "h_files (snd (add_route a rt h)) = h_files h" for rt h
    by (simp_all add: add_route_def Let_def)
  show "h_addr (default_route a w g h) = h_addr h" "h_files (default_route a w g h) = h_files h"
    by (simp_all add: default_route_def split_beta Let_def 1)
qed

lemma fold_routes_keep:
  "h_addr (fold (\<lambda>p h. snd (add_route a (static_entry p) h)) ps h) = h_addr h"
  "h_files (fold (\<lambda>p h. snd (add_route a (static_entry p) h)) ps h) = h_files h"
  "h_addr (fold (default_route a w) gs h) = h_addr h" "h_files (fold (default_route a w) gs h) = h_files h"
proof -
  show "h_addr (fold (\<lambda>p h. snd (add_route a (static_entry p) h)) ps h) = h_addr h"
    "h_files (fold (\<lambda>p h. snd (add_route a (static_entry p) h)) ps h) = h_files h"
    by (induction ps arbitrary: h) (simp_all add: routes_keep)
  show "h_addr (fold (default_route a w) gs h) = h_addr h" "h_files (fold (default_route a w) gs h) = h_files h"
    by (induction gs arbitrary: h) (simp_all add: routes_keep)
qed

lemma set_routes_same:
  assumes "set_routes s a c = Some c'"
  shows "same c c'"
proof -
  obtain h1 h2 where h: "static_routes a (cl_opts c) (cl_host c) = Some h1" "default_routes a (Window s) (cl_opts c) h1 = Some h2"
    "c' = c\<lparr>cl_host := if a_arp a then h2\<lparr>h_arp := h_arp h2 @ [arpInform (ClientHwAddr (cl_conf c)) (cl_iface c)]\<rparr> else h2\<rparr>"
    using assms unfolding set_routes_def Let_def by (auto split: Option.bind_splits if_splits)
  have "h_addr h1 = h_addr (cl_host c)" "h_files h1 = h_files (cl_host c)"
    using h(1) by (auto simp: static_routes_def fold_routes_keep split: Option.bind_splits)
  moreover have "h_addr h2 = h_addr h1" "h_files h2 = h_files h1"
    using h(2) by (auto simp: default_routes_def fold_routes_keep split: if_splits)
  ultimately show ?thesis by (simp add: h(3) same_def list_all_iff)
qed

lemma names_same: "same c (set_host_name a c)" "same c (set_domain_name a c)"
  unfolding set_host_name_def set_domain_name_def Let_def same_def by (auto split: option.split simp: list_all_iff)

lemma set_names_same: "same c (set_names s a c)"
  using names_same [of c a] same_trans [OF names_same(1) names_same(2), of c a a] by (simp add: set_names_def)

lemma replace_files_result:
  assumes "replace_files s a c = Some c'"
  shows "ciaddr (cl_iface c') = ciaddr (cl_iface c)" "h_addr (cl_host c') = h_addr (cl_host c)"
    "ReplResolvConf s \<Longrightarrow> h_files (cl_host c) RESOLV_CONF = Some u
      \<Longrightarrow> cl_resolv c' \<and> h_files (cl_host c') (RESOLV_CONF @ ''.sv'') = Some u" "\<not> ReplResolvConf s \<Longrightarrow> same c c'"
proof -
  obtain c1 c2 where c: "(if ReplResolvConf s then map_option (\<lambda>(r, h). c\<lparr>cl_resolv := r, cl_host := h\<rparr>)
      (replace_file a RESOLV_CONF (resolv_conf (cl_opts c)) (cl_host c)) else Some c) = Some c1"
    "(if ReplNISConf s then map_option (\<lambda>(r, h). c1\<lparr>cl_yp := r, cl_host := h\<rparr>)
      (replace_file a NIS_CONF (nis_conf (cl_opts c1)) (cl_host c1)) else Some c1) = Some c2"
    "(if ReplNTPConf s then map_option (\<lambda>(r, h). c2\<lparr>cl_ntp := r, cl_host := h\<rparr>)
      (replace_file a NTP_CONF (ntp_text (ciaddr (cl_iface c2)) (cl_opts c2)) (cl_host c2)) else Some c2) = Some c'"
    using assms unfolding replace_files_def by (blast elim: bind_eq_Some_conv [THEN iffD1, elim_format])
  have s1: "same c1 c2"
    using c(2) replace_same(1) [of a NIS_CONF "nis_conf (cl_opts c1)" c1] by (auto split: if_splits)
  have s2: "same c2 c'"
    using c(3) replace_same(2) [of a NTP_CONF "ntp_text (ciaddr (cl_iface c2)) (cl_opts c2)" c2] by (auto split: if_splits)
  have f: "ciaddr (cl_iface c1) = ciaddr (cl_iface c) \<and> h_addr (cl_host c1) = h_addr (cl_host c)
    \<and> (h_files (cl_host c) RESOLV_CONF = Some u \<longrightarrow> cl_resolv c1 \<and> h_files (cl_host c1) (RESOLV_CONF @ ''.sv'') = Some u)" if rp: "ReplResolvConf s"
  proof -
    obtain r h where h: "replace_file a RESOLV_CONF (resolv_conf (cl_opts c)) (cl_host c) = Some (r, h)"
      "c1 = c\<lparr>cl_resolv := r, cl_host := h\<rparr>" using c(1) rp by auto
    obtain g where "h = (cl_host c)\<lparr>h_files := g\<rparr>" using replace_file_result(2) [OF h(1)] by blast
    then show ?thesis using replace_file_result(1,4) [OF h(1)] h(2) by simp
  qed
  have f': "c1 = c" if "\<not> ReplResolvConf s" using c(1) that by simp
  have "same c1 c'" by (rule same_trans [OF s1 s2])
  then show "ciaddr (cl_iface c') = ciaddr (cl_iface c)" "h_addr (cl_host c') = h_addr (cl_host c)"
    "ReplResolvConf s \<Longrightarrow> h_files (cl_host c) RESOLV_CONF = Some u
      \<Longrightarrow> cl_resolv c' \<and> h_files (cl_host c') (RESOLV_CONF @ ''.sv'') = Some u" "\<not> ReplResolvConf s \<Longrightarrow> same c c'"
    using f f' by (cases "ReplResolvConf s", simp_all add: same_def resolv_paths_def)+
qed

section \<open>The file of the name servers\<close>

text \<open>
  \<open>untouched u c\<close>: the file is the original \<open>u\<close> and stays so in \<open>dhcpStop\<close>; \<open>restorable u c\<close>: \<open>dhcpStop\<close> brings \<open>u\<close> back.
\<close>

definition untouched :: "string \<Rightarrow> client \<Rightarrow> bool" where
  "untouched u c \<longleftrightarrow> h_files (cl_host c) RESOLV_CONF = Some u \<and> (cl_resolv c \<longrightarrow> h_files (cl_host c) (RESOLV_CONF @ ''.sv'') = None)"

definition restorable :: "string \<Rightarrow> client \<Rightarrow> bool" where
  "restorable u c \<longleftrightarrow> h_files (cl_host (dhcpStop c)) RESOLV_CONF = Some u"

lemma restore_files:
  assumes "p \<in> set resolv_paths" "path \<in> {NIS_CONF, NTP_CONF}"
  shows "h_files (restore r path h) p = h_files h p"
  using rename_other [of p "path @ ''.sv''" path h] other_paths(4-7) [OF assms(1)] assms(2) by (auto simp: restore_def)

lemma restore_resolv:
  "h_files (restore r RESOLV_CONF h) RESOLV_CONF
     = (if r \<and> h_files h (RESOLV_CONF @ ''.sv'') \<noteq> None then h_files h (RESOLV_CONF @ ''.sv'') else h_files h RESOLV_CONF)"
  "h_files (restore r RESOLV_CONF h) (RESOLV_CONF @ ''.sv'') = (if r then None else h_files h (RESOLV_CONF @ ''.sv''))"
  by (auto simp: restore_def rename_files split: option.splits)

lemma stop_files:
  "p \<in> set resolv_paths \<Longrightarrow> h_files (cl_host (dhcpStop c)) p = h_files (restore (cl_resolv c) RESOLV_CONF (cl_host c)) p"
  "cl_resolv (dhcpStop c) = cl_resolv c"
  by (simp_all add: dhcpStop_def execute_on_change_def Let_def restore_files)

lemma restorable_iff:
  "restorable u c \<longleftrightarrow> (if cl_resolv c \<and> h_files (cl_host c) (RESOLV_CONF @ ''.sv'') \<noteq> None
     then h_files (cl_host c) (RESOLV_CONF @ ''.sv'') = Some u else h_files (cl_host c) RESOLV_CONF = Some u)"
  by (auto simp: restorable_def stop_files resolv_paths_def restore_resolv)

lemma untouched_restorable: "untouched u c \<Longrightarrow> restorable u c"
  by (auto simp: untouched_def restorable_iff)


lemma same_resolv:
  assumes "same c c'"
  shows "untouched u c' \<longleftrightarrow> untouched u c" "restorable u c' \<longleftrightarrow> restorable u c"
  using assms by (auto simp: same_def resolv_paths_def untouched_def restorable_iff)

lemma set_address_result:
  assumes "set_address a c = Some r"
  shows "r = Inl h \<Longrightarrow> h_files h = h_files (cl_host c)" "r = Inr h \<Longrightarrow> h_files h = h_files (cl_host c)"
    "r = Inr h \<Longrightarrow> h_addr h = le32 (ciaddr (cl_iface c))"
  using assms unfolding set_address_def Let_def by (auto split: if_splits Option.bind_splits)

text \<open>The stages behind the setting of the address.\<close>

definition config_rest :: "settings \<Rightarrow> answers \<Rightarrow> client \<Rightarrow> (config_end \<times> client) option" where
  "config_rest s a c = do { c \<leftarrow> set_routes s a c; c \<leftarrow> replace_files s a c; config_tail s a (set_names s a c) }"

lemma config_rest_result:
  assumes "config_rest s a c = Some (r, c')"
  shows "ciaddr (cl_iface c') = ciaddr (cl_iface c)" "h_addr (cl_host c') = h_addr (cl_host c)" "r \<noteq> Config_failed"
    "untouched u c \<Longrightarrow> restorable u c'"
proof -
  obtain c1 c2 where c: "set_routes s a c = Some c1" "replace_files s a c1 = Some c2"
    "config_tail s a (set_names s a c2) = Some (r, c')"
    using assms by (auto simp: config_rest_def split: Option.bind_splits)
  note s1 = set_routes_same [OF c(1)] and s2 = same_trans [OF set_names_same config_tail_same(1) [OF c(3)]]
  show "ciaddr (cl_iface c') = ciaddr (cl_iface c)" "h_addr (cl_host c') = h_addr (cl_host c)" "r \<noteq> Config_failed"
    using s1 s2 replace_files_result(1,2) [OF c(2)] config_tail_same(2) [OF c(3)] by (simp_all add: same_def)
  show "restorable u c'" if "untouched u c"
  proof -
    have 1: "untouched u c1" using same_resolv(1) [OF s1] that by simp
    have "restorable u c2"
    proof (cases "ReplResolvConf s")
      case True
      then show ?thesis using replace_files_result(3) [OF c(2) True, of u] 1 by (simp add: untouched_def restorable_iff)
    next
      case False
      then show ?thesis using 1 same_resolv [OF replace_files_result(4) [OF c(2) False]] untouched_restorable by simp
    qed
    then show ?thesis using same_resolv(2) [OF s2] by simp
  qed
qed

lemma config_result:
  assumes "dhcpConfig s a c = Some (r, c')"
  shows "ciaddr (cl_iface c') = ciaddr (cl_iface c)"
    "r \<noteq> Config_failed \<Longrightarrow> \<not> TestCase s \<Longrightarrow> h_addr (cl_host c') = le32 (ciaddr (cl_iface c'))"
    "r = Config_failed \<Longrightarrow> untouched u c \<Longrightarrow> untouched u c'" "untouched u c \<Longrightarrow> restorable u c'"
proof -
  define c0 where "c0 = ipchg ''stop'' c"
  have s0: "same c c0" by (simp add: c0_def ipchg_def same_def list_all_iff)
  have i: "untouched u c0 \<longleftrightarrow> untouched u c" "ciaddr (cl_iface c0) = ciaddr (cl_iface c)"
    using same_resolv [OF s0] s0 by (simp_all add: same_def)
  consider (test) "TestCase s" "config_tail s a c0 = Some (r, c')"
    | (failed) h where "set_address a c0 = Some (Inl h)" "r = Config_failed" "c' = c0\<lparr>cl_host := h\<rparr>"
    | (set) h where "set_address a c0 = Some (Inr h)" "config_rest s a (c0\<lparr>cl_host := h\<rparr>) = Some (r, c')"
    using assms unfolding dhcpConfig_def Let_def c0_def [symmetric] config_rest_def
    by (auto split: if_splits Option.bind_splits sum.splits)
  then have "ciaddr (cl_iface c') = ciaddr (cl_iface c)
    \<and> (r \<noteq> Config_failed \<longrightarrow> \<not> TestCase s \<longrightarrow> h_addr (cl_host c') = le32 (ciaddr (cl_iface c')))
    \<and> (untouched u c \<longrightarrow> restorable u c' \<and> (r = Config_failed \<longrightarrow> untouched u c'))"
  proof cases
    case test
    then show ?thesis using config_tail_same [OF test(2)] same_resolv [OF config_tail_same(1) [OF test(2)]] i untouched_restorable
      by (simp add: same_def)
  next
    case (failed h)
    then have "untouched u c' \<longleftrightarrow> untouched u c0" using set_address_result(1) [OF failed(1) refl] by (simp add: untouched_def)
    then show ?thesis using i untouched_restorable failed by simp
  next
    case (set h)
    have "untouched u (c0\<lparr>cl_host := h\<rparr>) \<longleftrightarrow> untouched u c0" using set_address_result(2) [OF set(1) refl] by (simp add: untouched_def)
    then show ?thesis using config_rest_result [OF set(2)] set_address_result(3) [OF set(1) refl] i by simp
  qed
  then show "ciaddr (cl_iface c') = ciaddr (cl_iface c)"
    "r \<noteq> Config_failed \<Longrightarrow> \<not> TestCase s \<Longrightarrow> h_addr (cl_host c') = le32 (ciaddr (cl_iface c'))"
    "r = Config_failed \<Longrightarrow> untouched u c \<Longrightarrow> untouched u c'" "untouched u c \<Longrightarrow> restorable u c'" by simp_all
qed

section \<open>Properties kept by the states\<close>

text \<open>
  The configured states, and a contract for properties of the client: \<open>Idle\<close> in the states before the
  configuration, \<open>Conf\<close> behind it.  What the states do besides \<open>dhcpConfig\<close> and \<open>dhcpStop\<close> keeps both.
\<close>

definition configured :: "state \<Rightarrow> bool" where
  "configured st \<longleftrightarrow> st \<in> {Bound, Renew, Rebind, Stop}"

lemma configured_states [simp]:
  "configured Bound" "configured Renew" "configured Rebind" "configured Stop"
  "\<not> configured Start" "\<not> configured Reboot" "\<not> configured Init" "\<not> configured Inform"
  by (simp_all add: configured_def)

definition files_kept :: "client \<Rightarrow> client \<Rightarrow> bool" where
  "files_kept c c' \<longleftrightarrow> cl_resolv c' = cl_resolv c \<and> list_all (\<lambda>p. h_files (cl_host c') p = h_files (cl_host c) p) resolv_paths"

lemma same_files_kept: "same c c' \<Longrightarrow> files_kept c c'"
  by (simp add: same_def files_kept_def)

lemma files_kept_trans: "files_kept a b \<Longrightarrow> files_kept b c \<Longrightarrow> files_kept a c"
  by (auto simp: files_kept_def list_all_iff)

lemma after_exchange_same: "same c (after_exchange x c)"
  by (simp add: after_exchange_def same_def list_all_iff)

lemma server_of_same: "server_of c = Some c' \<Longrightarrow> same c c'"
  by (auto simp: server_of_def same_def list_all_iff)

lemma field_same:
  "same c (c\<lparr>cl_alarm := al\<rparr>)" "same c (c\<lparr>cl_time := t\<rparr>)" "same c (c\<lparr>cl_opts := opts\<rparr>)"
  "files_kept c (c\<lparr>cl_iface := i\<rparr>)" "files_kept c (c\<lparr>cl_inform := a\<rparr>)"
  by (simp_all add: same_def files_kept_def list_all_iff)

lemma start_files: "dhcpStart e c = Some c' \<Longrightarrow> files_kept c c'"
  by (auto simp: dhcpStart_def files_kept_def list_all_iff)

lemma cache_files: "files_kept c (snd (readDhcpCache c))"
  by (simp add: readDhcpCache_def files_kept_def list_all_iff Let_def split: option.splits)

lemma inform_files: "files_kept c (snd (inform_address e c))"
proof -
  have 1: "files_kept c (case s_ifaddr e of None \<Rightarrow> c | Some a \<Rightarrow> c\<lparr>cl_inform := a\<rparr>)"
    by (simp add: files_kept_def list_all_iff split: option.splits)
  have 2: "files_kept d (snd (case readDhcpCache d of (ok, c) \<Rightarrow> if ok then (True, c\<lparr>cl_inform := ciaddr (cl_iface c)\<rparr>) else (False, c)))" for d
    using cache_files [of d] by (auto simp: files_kept_def list_all_iff split: prod.splits)
  show ?thesis
    using 1 files_kept_trans [OF 1 2] by (simp add: inform_address_def Let_def files_kept_def list_all_iff)
qed

lemma release_files: "files_kept c (dhcpRelease s e c)"
  by (auto simp: dhcpRelease_def deleteDhcpCache_def files_kept_def list_all_iff Let_def split: prod.splits option.splits)

lemma pid_same: "same c (deletePidFile s c)" "writePidFile s e pid c = Some c' \<Longrightarrow> same c c'"
  using other_paths(3) by (auto simp: deletePidFile_def writePidFile_def same_def list_all_iff split: if_splits)

locale client_property =
  fixes s :: settings and Idle :: "client \<Rightarrow> bool" and Conf :: "client \<Rightarrow> bool"
  assumes idle_kept: "files_kept c c' \<Longrightarrow> Idle c \<Longrightarrow> Idle c'"
    and conf_kept: "same c c' \<Longrightarrow> Conf c \<Longrightarrow> Conf c'"
    and config_ok: "dhcpConfig s a c = Some (r, c') \<Longrightarrow> r \<noteq> Config_failed \<Longrightarrow> Idle c \<Longrightarrow> Conf c'"
    and config_failed: "dhcpConfig s a c = Some (Config_failed, c') \<Longrightarrow> Idle c \<Longrightarrow> Idle c'"
    and stop_idle: "Idle c \<Longrightarrow> Idle (dhcpStop c)"
    and stop_conf: "files_kept c c' \<Longrightarrow> Conf c \<Longrightarrow> Idle (dhcpStop c')"
begin

definition holds :: "state \<Rightarrow> client \<Rightarrow> bool" where
  "holds st c = (if configured st then Conf c else Idle c)"

definition ok :: "step \<Rightarrow> bool" where
  "ok r = (case r of Next st c \<Rightarrow> holds st c | Null c \<Rightarrow> Idle c | Exit k c \<Rightarrow> k \<noteq> 0 \<longrightarrow> Idle c | Waits c \<Rightarrow> True | Wild \<Rightarrow> True)"

lemma ok_simps [simp]:
  "ok (Next st c) = holds st c" "ok (Null c) = Idle c" "ok (Exit k c) = (k \<noteq> 0 \<longrightarrow> Idle c)" "ok (Waits c)" "ok Wild"
  by (simp_all add: ok_def)

lemma holds_simps [simp]: "configured st \<Longrightarrow> holds st c = Conf c" "\<not> configured st \<Longrightarrow> holds st c = Idle c"
  by (simp_all add: holds_def)

lemma holds_same: "same c c' \<Longrightarrow> holds st c \<Longrightarrow> holds st c'"
  using idle_kept [OF same_files_kept] conf_kept by (cases "configured st") (simp_all add: holds_def)

lemma signalled_ok:
  assumes "holds st c"
  shows "ok (signalled s e sig st c)"
proof -
  have "Idle (deletePidFile s (dhcpStop c'))" if "files_kept c c'" for c'
  proof -
    have "Idle (dhcpStop c')" using assms that stop_conf stop_idle idle_kept by (auto simp: holds_def split: if_splits)
    then show ?thesis using idle_kept same_files_kept pid_same(1) by blast
  qed
  moreover have "files_kept c c" by (simp add: files_kept_def list_all_iff)
  moreover have "Idle c \<Longrightarrow> Idle (c\<lparr>cl_alarm := al\<rparr>)" for al by (rule idle_kept [OF same_files_kept [OF field_same(1)]])
  ultimately show ?thesis
    using assms release_files
    by (auto simp: signalled_def sigHandler_def resume_def ok_def holds_def configured_def Let_def split: if_splits)
qed

lemma until_alarm_ok: "holds st c \<Longrightarrow> ok (until_alarm s e st c)"
  using signalled_ok [OF holds_same [OF field_same(1)]] by (simp add: until_alarm_def ok_def)

lemma exchange_holds: "holds st c \<Longrightarrow> holds st (after_exchange x c)"
  by (rule holds_same [OF after_exchange_same])

lemma dhcpRequest_ok:
  assumes "Idle c" "\<not> configured st"
  shows "ok (dhcpRequest s e st xid build c)"
proof -
  have i: "Idle (after_exchange x c)" for x by (rule idle_kept [OF same_files_kept [OF after_exchange_same] assms(1)])
  have a: "ok (until_alarm s e st (after_exchange x c))" for x
    using until_alarm_ok [of st "after_exchange x c"] i assms(2) by (simp add: holds_def)
  have t: "Idle ((after_exchange x c)\<lparr>cl_time := tm\<rparr>)" for x tm
    by (rule idle_kept [OF same_files_kept [OF field_same(2)] i])
  show ?thesis
    using i a config_ok [OF _ _ t] config_failed [OF _ t, THEN stop_idle] conf_kept [OF server_of_same]
    unfolding dhcpRequest_def Let_def
    by (auto split: outcome.split option.split config_end.split)
qed

lemma idle_fields: "Idle c \<Longrightarrow> Idle (c\<lparr>cl_iface := i\<rparr>)" "Idle c \<Longrightarrow> Idle (c\<lparr>cl_opts := opts\<rparr>)" "Idle c \<Longrightarrow> Idle (after_exchange x c)"
  by (rule idle_kept [OF field_same(4)], assumption) (rule idle_kept [OF same_files_kept], rule field_same after_exchange_same, assumption)+

lemma conf_fields: "Conf c \<Longrightarrow> Conf (c\<lparr>cl_alarm := al\<rparr>)" "Conf c \<Longrightarrow> Conf (c\<lparr>cl_time := t\<rparr>)" "Conf c \<Longrightarrow> Conf (after_exchange x c)"
  by (rule conf_kept, rule field_same after_exchange_same, assumption)+

lemma dhcpReboot_ok:
  assumes "Idle c"
  shows "ok (dhcpReboot s e c)"
proof (cases "dhcpStart e c")
  case (Some c1)
  define c2 where "c2 = c1\<lparr>cl_opts := releaseDhcpOptions, cl_iface := zero_iface\<rparr>"
  have "Idle c2" unfolding c2_def by (intro idle_fields idle_kept [OF start_files [OF Some] assms])
  then have "Idle (snd (readDhcpCache c2))" by (rule idle_kept [OF cache_files])
  then show ?thesis using Some dhcpRequest_ok idle_fields(1) by (auto simp: dhcpReboot_def Let_def c2_def [symmetric] split: prod.splits)
qed (use assms in \<open>simp add: dhcpReboot_def\<close>)

lemma dhcpInit_ok:
  assumes "Idle c"
  shows "ok (dhcpInit s e c)"
proof -
  have a: "ok (until_alarm s e Init c)" if "Idle c" for c using until_alarm_ok [of Init c] that by simp
  have o: "Idle (c\<lparr>cl_opts := releaseDhcpOptions\<rparr>)" by (rule idle_fields(2) [OF assms])
  have v: "Idle c'" if "server_of c = Some c'" "Idle c" for c c' using idle_kept same_files_kept server_of_same that by blast
  note f = idle_fields(3) [OF o] and g = idle_fields(3) [OF idle_fields(3) [OF o]]
  show ?thesis
    unfolding dhcpInit_def Let_def
    using a [OF f] a [OF g] stop_idle [OF f] v [OF _ idle_fields(1) [OF g], THEN idle_fields(1), THEN dhcpRequest_ok [of _ Init]]
    by (auto split: outcome.split option.split)
qed

lemma bound_states_ok:
  assumes "Conf c"
  shows "ok (dhcpBound s e c)" "ok (dhcpRenew s e c)" "ok (dhcpRebind s e c)"
proof -
  have a: "ok (until_alarm s e st c)" if "Conf c" "configured st" for c st using until_alarm_ok [of st c] that by simp
  note f = conf_fields(1) [OF assms] and g = conf_fields(3) [OF conf_fields(1) [OF assms]]
  show "ok (dhcpBound s e c)" unfolding dhcpBound_def Let_def using assms f a [OF f] by (auto split: option.split)
  show "ok (dhcpRenew s e c)" unfolding dhcpRenew_def Let_def
    using assms g a [OF g] conf_fields(2) [OF g] by (auto split: option.split outcome.split)
  show "ok (dhcpRebind s e c)" unfolding dhcpRebind_def Let_def
    using assms g a [OF g] conf_kept [OF server_of_same conf_fields(2) [OF g]] by (auto split: option.split outcome.split)
qed

lemma dhcpInform_ok:
  assumes "Idle c"
  shows "ok (dhcpInform s e c)"
proof (cases "dhcpStart e c")
  case (Some c1)
  define c2 where "c2 = c1\<lparr>cl_opts := releaseDhcpOptions, cl_iface := zero_iface\<rparr>"
  have "Idle c2" unfolding c2_def by (intro idle_fields idle_kept [OF start_files [OF Some] assms])
  then have i: "Idle (snd (inform_address e c2))" by (rule idle_kept [OF inform_files])
  have a: "ok (until_alarm s e Inform c)" if "Idle c" for c using until_alarm_ok [of Inform c] that by simp
  have "ok (case out of Fault \<Rightarrow> Wild | Waiting x \<Rightarrow> until_alarm s e Inform (after_exchange x d)
      | Returned r x \<Rightarrow> if r \<noteq> 0 then Null (after_exchange x d)
          else case dhcpConfig s (s_config e) (after_exchange x d) of None \<Rightarrow> Wild | Some (Config_failed, c) \<Rightarrow> Null c
             | Some (_, c) \<Rightarrow> Exit 0 c)" if d: "Idle d" for out d
    using idle_fields(3) [OF d] a [OF idle_fields(3) [OF d]] config_failed [OF _ idle_fields(3) [OF d]]
    by (auto split: outcome.split option.split config_end.split)
  note t = this [OF idle_fields(1) [OF i]]
  show ?thesis
  proof (cases "inform_address e c2")
    case (Pair b d)
    then show ?thesis
      using i t unfolding dhcpInform_def Some option.case Let_def c2_def [symmetric] Pair prod.case snd_conv
      by (cases b) (simp_all only: not_True_eq_False not_False_eq_True if_True if_False ok_simps)
  qed
qed (use assms in \<open>simp add: dhcpInform_def\<close>)

lemma event_step_ok:
  assumes "holds st c"
  shows "ok (event_step s ev st c)"
proof (cases ev)
  case (Call e)
  have "Conf c \<Longrightarrow> Idle (dhcpStop c)" using stop_conf [of c c] same_files_kept [OF same_refl] by simp
  moreover have "Idle c \<Longrightarrow> dhcpStart e c = Some c' \<Longrightarrow> Idle c'" for c' by (rule idle_kept [OF start_files])
  ultimately show ?thesis using assms dhcpReboot_ok dhcpInit_ok bound_states_ok dhcpInform_ok
    by (cases st) (auto simp: Call event_step_def state_step_def split: option.split)
next
  case (Signal sig e)
  then show ?thesis using signalled_ok [OF assms] by (simp add: event_step_def)
qed

text \<open>The whole program: the current state of a running client, and of one that ended with an error.\<close>

fun good :: "machine \<Rightarrow> bool" where
  "good (Acquiring st c) = holds st c"
| "good (Serving st c) = holds st c"
| "good _ = True"

lemma good_start: "Idle c \<Longrightarrow> \<not> configured st \<Longrightarrow> good (main_start s now mk st c)"
  using idle_kept [OF same_files_kept [OF field_same(1)]] by (auto simp: main_start_def)

lemma good_holds: "good m \<Longrightarrow> m = Acquiring st c \<or> m = Serving st c \<Longrightarrow> holds st c"
  by auto

lemma become_daemon_good: "Conf c \<Longrightarrow> good (become_daemon s e c)"
  using conf_kept [OF pid_same(2) conf_fields(1)] by (auto simp: become_daemon_def Let_def split: option.splits)

lemma machine_step_good: "good m \<Longrightarrow> good (machine_step s ev m)"
  using event_step_ok [of _ _ ev] become_daemon_good [of _ "answers_of ev"]
  by (cases m) (auto simp: machine_step_def split: step.split; fastforce)+

lemma reaches_good: "reaches s m m' \<Longrightarrow> good m \<Longrightarrow> good m'"
  by (induction rule: reaches.induct) (simp_all add: machine_step_good)

lemma ended_idle:
  assumes "good m" "machine_step s ev m = Ended k c" "k \<noteq> 0" "\<And>k c. m \<noteq> Ended k c"
    and "a_open (s_config (answers_of ev)) (PID_FILE_PATH s)"
  shows "Idle c"
proof -
  have b: "become_daemon s (answers_of ev) c' \<noteq> Ended k c" for c'
    using assms(3,5) by (auto simp: become_daemon_def writePidFile_def Let_def)
  have d: "Idle c' \<Longrightarrow> Idle (deletePidFile s c')" for c' by (rule idle_kept [OF same_files_kept [OF pid_same(1)]])
  show ?thesis
    using assms(1-4) event_step_ok [of _ _ ev] b d
    by (cases m) (auto simp: machine_step_def split: step.splits if_splits; fastforce)+
qed

end



interpretation address: client_property s "\<lambda>c. True" "\<lambda>c. \<not> TestCase s \<longrightarrow> h_addr (cl_host c) = le32 (ciaddr (cl_iface c))"
  by unfold_locales (use config_result(2) in \<open>auto simp: same_def\<close>)

section \<open>Acquiring a lease\<close>

text \<open>Options whose address lists are complete; what is missing is filled in by the client.\<close>

definition long4 :: "(byte \<Rightarrow> byte list option) \<Rightarrow> byte \<Rightarrow> bool" where
  "long4 s c = (case s c of None \<Rightarrow> True | Some v \<Rightarrow> 4 \<le> length v)"

definition formed :: "(byte \<Rightarrow> byte list option) \<Rightarrow> bool" where
  "formed s \<longleftrightarrow> list_all (long4 s) [subnetMask, broadcastAddr, dns, dhcpServerIdentifier]
     \<and> list_all (mult 4 s) [dns, routersOnSubnet, ntpServers, nisServers] \<and> mult 8 s staticRoute"

definition offered :: "byte list \<Rightarrow> byte list \<Rightarrow> (byte \<times> byte list) list \<Rightarrow> (byte \<Rightarrow> byte list option) \<Rightarrow> byte \<Rightarrow> byte list option" where
  "offered nl f os opts = with_defaults nl (read_at 26 4 f) (read_at 58 4 f) (opts ++ map_of (rev os))"

lemma formed_readable: "formed s \<Longrightarrow> readable s"
  by (simp add: formed_def readable_def long4_def)

lemma mult_add: "mult k s c \<Longrightarrow> mult k t c \<Longrightarrow> mult k (s ++ t) c"
  by (simp add: mult_def map_add_def split: option.splits)

lemma long4_add: "long4 s c \<Longrightarrow> long4 t c \<Longrightarrow> long4 (s ++ t) c"
  by (simp add: long4_def map_add_def split: option.splits)

lemma formed_add: "formed s \<Longrightarrow> formed t \<Longrightarrow> formed (s ++ t)"
  unfolding formed_def by (simp add: mult_add long4_add)

lemma ready_long4: "(case s c of None \<Rightarrow> False | Some v \<Rightarrow> 4 \<le> length v) \<Longrightarrow> long4 s c"
  by (simp add: long4_def split: option.splits)

lemma ready_formed: "config_ready s \<Longrightarrow> formed s"
  unfolding formed_def config_ready_def by (simp add: ready_long4)

lemma formed_empty: "formed Map.empty"
  by (simp add: formed_def mult_def long4_def)

text \<open>The client completes the options of any reply that is well formed.\<close>

lemma fill_some: "\<exists>v. fill k w s k = Some v" "\<exists>v. fill4 k w s k = Some v"
  by (auto simp: fill_def fill4_def split: option.splits)

lemma fill_ready: "long4 s k \<Longrightarrow> length w = 4 \<Longrightarrow> case fill k w s k of None \<Rightarrow> False | Some v \<Rightarrow> 4 \<le> length v"
  by (auto simp: fill_def long4_def split: option.splits)

lemma fill4_ready: "length w = 4 \<Longrightarrow> case fill4 k w s k of None \<Rightarrow> False | Some v \<Rightarrow> 4 \<le> length v"
  by (auto simp: fill4_def split: option.splits)

lemma fill_mult: "mult 4 s k \<Longrightarrow> length w = 4 \<Longrightarrow> mult 4 (fill k w s) k"
  by (simp add: fill_def mult_def split: option.splits)

lemma defaults_ready:
  assumes "formed s" "length nl = 4" "length src = 4" "length y = 4"
  shows "config_ready (with_defaults nl src y s)"
proof -
  define s1 where "s1 = fill dhcpServerIdentifier src s"
  define s2 where "s2 = fill dns (take 4 (the (s1 dhcpServerIdentifier))) s1"
  define s3 where "s3 = fill subnetMask (class_mask y) s2"
  define s4 where "s4 = fill broadcastAddr (map2 (\<lambda>y b. y OR NOT b) y (take 4 (the (s3 subnetMask)))) s3"
  define s5 where "s5 = fill4 dhcpIPaddrLeaseTime nl s4"
  define s6 where "s6 = fill4 dhcpT1value (be_bytes 4 (be_val (the (s5 dhcpIPaddrLeaseTime)) div 2)) s5"
  define s7 where "s7 = fill4 dhcpT2value (be_bytes 4 (7 * be_val (the (s5 dhcpIPaddrLeaseTime)) div 8)) s6"
  have e: "with_defaults nl src y s = s7"
    by (simp add: with_defaults_def Let_def s1_def s2_def s3_def s4_def s5_def s6_def s7_def)
  note d = s7_def s6_def s5_def s4_def s3_def s2_def s1_def
  have l: "long4 s subnetMask" "long4 s broadcastAddr" "long4 s dns" "long4 s dhcpServerIdentifier"
    "mult 4 s dns" "mult 4 s routersOnSubnet" "mult 4 s ntpServers" "mult 4 s nisServers" "mult 8 s staticRoute"
    using assms(1) by (simp_all add: formed_def)
  have sid: "case s7 dhcpServerIdentifier of None \<Rightarrow> False | Some v \<Rightarrow> 4 \<le> length v" "s1 dhcpServerIdentifier = s7 dhcpServerIdentifier"
    using fill_ready [OF l(4) assms(3)] by (simp_all add: d fill_other)
  have m: "case s7 subnetMask of None \<Rightarrow> False | Some v \<Rightarrow> 4 \<le> length v" "s3 subnetMask = s7 subnetMask"
    using fill_ready [of s2 subnetMask "class_mask y"] l(1) by (simp_all add: d fill_other class_mask_def long4_def)
  have len: "length (take 4 (the (s1 dhcpServerIdentifier))) = 4" "length (take 4 (the (s3 subnetMask))) = 4"
    using sid m by (auto split: option.splits)
  have n: "case s7 dns of None \<Rightarrow> False | Some v \<Rightarrow> 4 \<le> length v" "mult 4 s7 dns"
    using fill_ready [OF _ len(1), of s1 dns] fill_mult [OF _ len(1), of s1 dns] l(3,5)
    by (simp_all add: d fill_other long4_def mult_def)
  have b: "case s7 broadcastAddr of None \<Rightarrow> False | Some v \<Rightarrow> 4 \<le> length v"
    using fill_ready [of s3 broadcastAddr "map2 (\<lambda>y b. y OR NOT b) y (take 4 (the (s3 subnetMask)))"] l(2) assms(4) len(2)
    by (simp add: s7_def s6_def s5_def s4_def fill_other) (simp add: d fill_other long4_def)
  have t: "case s7 dhcpIPaddrLeaseTime of None \<Rightarrow> False | Some v \<Rightarrow> 4 \<le> length v"
    "case s7 dhcpT1value of None \<Rightarrow> False | Some v \<Rightarrow> 4 \<le> length v" "case s7 dhcpT2value of None \<Rightarrow> False | Some v \<Rightarrow> 4 \<le> length v"
    using fill4_ready [OF assms(2)] by (simp_all add: s7_def s6_def s5_def fill_other fill4_ready)
  have u: "mult 4 s7 routersOnSubnet" "mult 4 s7 ntpServers" "mult 4 s7 nisServers" "mult 8 s7 staticRoute"
    using l(6-9) by (simp_all add: d fill_other mult_def)
  show ?thesis unfolding e config_ready_def using sid(1) m(1) n b t u by simp
qed

lemma defaults_lease:
  assumes "length nl = 4"
  shows "\<exists>v. with_defaults nl src y s dhcpIPaddrLeaseTime = Some v \<and> length v = 4"
proof -
  have "\<exists>v. fill4 dhcpIPaddrLeaseTime nl t dhcpIPaddrLeaseTime = Some v \<and> length v = 4" for t
    using assms by (auto simp: fill4_def split: option.splits)
  then show ?thesis by (simp add: with_defaults_def Let_def fill_other)
qed

text \<open>The events of an exchange that a reply in the frame \<open>f\<close> ends, and a well-formed reply of type \<open>t\<close>.\<close>

definition answered :: "u32 \<Rightarrow> bool \<Rightarrow> byte list \<Rightarrow> send_event list \<Rightarrow> recv_event list \<Rightarrow> bool" where
  "answered xid check f ss rs \<longleftrightarrow> (\<exists>pre now rnd sl post. rs = pre @ Recv f now rnd sl # post
     \<and> list_all (irrelevant \<lparr>r_xid = xid, r_msg = 0, r_build = (\<lambda>opts xid n. None), r_lease = [], r_check = check\<rparr>) pre
     \<and> list_all prompt ss \<and> length pre < length ss)"

definition good_answer :: "u32 \<Rightarrow> nat \<Rightarrow> bool \<Rightarrow> send_event list \<Rightarrow> recv_event list \<Rightarrow> (byte \<times> byte list) list \<Rightarrow> byte list \<Rightarrow> bool" where
  "good_answer xid t check ss rs os f \<longleftrightarrow> server_frame xid os f \<and> map_of (rev os) dhcpMessageType = Some [of_nat t]
     \<and> formed (map_of (rev os)) \<and> read_at 58 4 f \<noteq> [0, 0, 0, 0] \<and> answered xid check f ss rs"

lemma good_answer_xid:
  assumes "good_answer xid t check ss rs os f"
  shows "of_le32 (read_at 46 4 f) = xid" "length f = 1514"
  using assms of_le32_le32 [of xid] by (simp_all add: good_answer_def server_frame_def good_frame_def frame_size_def IPPACKET_SIZE_def)

lemma run_exchange_reply:
  assumes "good_answer xid t (DoCheckSum s) ss rs os f" "t < 256 \<and> (t = msg \<or> t = DHCP_NAK)" "opts_ok (cl_opts c)" "names_ok (cl_opts c)"
    "formed (content (cl_opts c))" "length (nleaseTime (cl_conf c)) = 4"
    and "\<And>n. \<exists>f' n'. build (cl_opts c) xid n = Some (f', n') \<and> length f' = frame_size"
  obtains x where "run_exchange s xid msg build ss rs c = Returned (if t = msg then 0 else 1) x" "opts_ok (x_opts x)" "names_ok (x_opts x)"
    "content (x_opts x) = offered (nleaseTime (cl_conf c)) f os (content (cl_opts c))" "config_ready (content (x_opts x))"
    "x_at x = 42" "x_buf x = f"
proof -
  define q where "q = \<lparr>r_xid = xid, r_msg = msg, r_build = build, r_lease = nleaseTime (cl_conf c), r_check = DoCheckSum s\<rparr>"
  define x0 where "x0 = \<lparr>x_j = 0, x_begin = \<lparr>tv_sec = 0, tv_usec = 0\<rparr>, x_frame = cl_frame c, x_buf = cl_buf c, x_at = cl_at c, x_opts = cl_opts c,
        x_ip_id = cl_ip_id c, x_sent = [], x_waits = []\<rparr>"
  have q: "r_xid q = xid" "r_msg q = msg" "r_lease q = nleaseTime (cl_conf c)" "x_opts x0 = cl_opts c" by (simp_all add: q_def x0_def)
  have g: "server_frame xid os f" "map_of (rev os) dhcpMessageType = Some [of_nat t]" "formed (map_of (rev os))" "read_at 58 4 f \<noteq> [0, 0, 0, 0]"
    using assms(1) by (simp_all add: good_answer_def)
  have i: "irrelevant \<lparr>r_xid = xid, r_msg = 0, r_build = \<lambda>opts xid n. None, r_lease = [], r_check = DoCheckSum s\<rparr> = irrelevant q"
    by (rule ext) (simp add: irrelevant_def q_def split: recv_event.split)
  obtain pre now rnd sl post where a: "rs = pre @ Recv f now rnd sl # post" "list_all (irrelevant q) pre" "list_all prompt ss" "length pre < length ss"
    using assms(1) unfolding good_answer_def answered_def i by blast
  have r: "readable (content (x_opts x0) ++ map_of (rev os))" using formed_readable [OF formed_add [OF assms(5) g(3)]] q by simp
  have b: "builds q (x_opts x0)" using assms(7) by (simp add: builds_def q_def x0_def)
  obtain x sent where x: "dhcpSendAndRecv q x0 ss rs = Returned (if t = msg then 0 else 1) x" "opts_ok (x_opts x)" "x_at x = 42"
    "content (x_opts x) = with_defaults (r_lease q) (read_at 26 4 f) (read_at 58 4 (x_buf x)) (content (x_opts x0) ++ map_of (rev os))"
    "\<exists>sent. parseDhcpMsgRecv (r_lease q) sent 42 f (x_opts x0) = Some (t, x_buf x, x_opts x)" "x_buf x = f"
    using exchange_reply [of q os f t x0 pre ss now rnd sl post] a g r b assms(2,3,6) q by metis
  have f: "length (read_at 26 4 f) = 4" "length (read_at 58 4 f) = 4" using good_answer_xid(2) [OF assms(1)] by simp_all
  have c: "content (x_opts x) = offered (nleaseTime (cl_conf c)) f os (content (cl_opts c))" using x(4,6) q by (simp add: offered_def)
  show ?thesis
  proof (rule that [OF _ x(2) _ c _ x(3,6)])
    show "run_exchange s xid msg build ss rs c = Returned (if t = msg then 0 else 1) x" using x(1) by (simp add: run_exchange_def q_def x0_def)
    show "names_ok (x_opts x)" using x(5) parse_names assms(4) q(4) by metis
    show "config_ready (content (x_opts x))"
      unfolding c offered_def by (rule defaults_ready [OF formed_add [OF assms(5) g(3)] assms(6) f])
  qed
qed

lemma discover_builds:
  assumes "conf_ok (cl_conf c)" "iface_ok (cl_iface c)"
  shows "\<exists>f' n'. b_discover c opts xid n = Some (f', n') \<and> length f' = frame_size"
  using discover_frame [OF assms, of xid n] by (cases "buildDhcpDiscover (cl_conf c) (cl_iface c) xid n") (simp add: b_discover_def good_frame_def)

lemma request_builds:
  assumes "conf_ok (cl_conf c)" "iface_ok (cl_iface c)" "config_ready (content opts)" "opts_ok opts"
  shows "\<exists>f' n'. b_request c opts xid n = Some (f', n') \<and> length f' = frame_size"
proof -
  obtain v w where v: "opt4 opts dhcpServerIdentifier = Some v" "opt4 opts dhcpIPaddrLeaseTime = Some w"
    using ready_some(3,4) [OF assms(3,4)] by blast
  then obtain f' n' where f: "b_request c opts xid n = Some (f', n')"
    by (fastforce simp: b_request_def buildDhcpRequest_def lease_chunk_def Let_def split: prod.splits)
  have "length f' = frame_size"
    by (rule request_frame [OF assms(1,2) f [unfolded b_request_def]]) (unfold good_frame_def, blast)
  then show ?thesis using f by simp
qed


text \<open>A server that makes the offer \<open>f1\<close> to the first and \<open>f2\<close> to the second message and acknowledges with \<open>f3\<close>.\<close>

definition serves :: "settings \<Rightarrow> answers_step \<Rightarrow> (byte \<times> byte list) list list \<Rightarrow> byte list list \<Rightarrow> bool" where
  "serves s e os fs \<longleftrightarrow> length os = 3 \<and> length fs = 3
     \<and> good_answer (s_xid e) DHCP_OFFER (DoCheckSum s) (s_sends1 e) (s_recvs1 e) (os ! 0) (fs ! 0)
     \<and> good_answer (s_xid e) DHCP_OFFER (DoCheckSum s) (s_sends2 e) (s_recvs2 e) (os ! 1) (fs ! 1)
     \<and> good_answer (s_xid e) DHCP_ACK (DoCheckSum s) (s_sends3 e) (s_recvs3 e) (os ! 2) (fs ! 2)"

text \<open>The options after the three exchanges.\<close>

definition negotiated :: "byte list \<Rightarrow> (byte \<times> byte list) list list \<Rightarrow> byte list list \<Rightarrow> byte \<Rightarrow> byte list option" where
  "negotiated nl os fs = offered nl (fs ! 2) (os ! 2) (offered nl (fs ! 1) (os ! 1) (offered nl (fs ! 0) (os ! 0) Map.empty))"

lemma discover_answered:
  assumes "good_answer xid DHCP_OFFER (DoCheckSum s) ss rs os f" "conf_ok (cl_conf c)" "iface_ok (cl_iface c)"
    and "opts_ok (cl_opts c)" "names_ok (cl_opts c)" "formed (content (cl_opts c))"
  obtains x where "run_exchange s xid DHCP_OFFER (b_discover c) ss rs c = Returned 0 x" "opts_ok (x_opts x)" "names_ok (x_opts x)"
    "content (x_opts x) = offered (nleaseTime (cl_conf c)) f os (content (cl_opts c))" "config_ready (content (x_opts x))"
    "x_at x = 42" "x_buf x = f"
  by (rule run_exchange_reply [OF assms(1) _ assms(4-6), where msg = DHCP_OFFER and build = "b_discover c"])
    (use assms(2) discover_builds [OF assms(2,3)] in \<open>auto simp: conf_ok_def DHCP_OFFER_def\<close>)

lemma request_answered:
  assumes "good_answer xid DHCP_ACK (DoCheckSum s) ss rs os f" "conf_ok (cl_conf c)" "iface_ok (cl_iface c)"
    and "opts_ok (cl_opts c)" "names_ok (cl_opts c)" "config_ready (content (cl_opts c))"
  obtains x where "run_exchange s xid DHCP_ACK (b_request c) ss rs c = Returned 0 x" "opts_ok (x_opts x)" "names_ok (x_opts x)"
    "content (x_opts x) = offered (nleaseTime (cl_conf c)) f os (content (cl_opts c))" "config_ready (content (x_opts x))"
    "x_at x = 42" "x_buf x = f"
  by (rule run_exchange_reply [OF assms(1) _ assms(4,5) ready_formed [OF assms(6)], where msg = DHCP_ACK and build = "b_request c"])
    (use assms(2) request_builds [OF assms(2,3,6,4)] in \<open>auto simp: conf_ok_def DHCP_ACK_def\<close>)

text \<open>A system on which the configuration succeeds.\<close>

definition cooperative :: "settings \<Rightarrow> answers \<Rightarrow> bool" where
  "cooperative s a \<longleftrightarrow> willing a \<and> short_paths s \<and> \<not> TestCase s \<and> ReplResolvConf s \<and> \<not> SetHostName s \<and> \<not> SetDomainName s"

lemma opt4_content: "opts_ok opts \<Longrightarrow> content opts c = Some v \<Longrightarrow> 4 \<le> length v \<Longrightarrow> opt4 opts c = Some (take 4 v)"
  by (auto simp: opt4_def content_def min_def opts_ok_def split: option.splits if_splits)

lemma le32_of_le32: "length v = 4 \<Longrightarrow> le32 (of_le32 v) = v"
  using le_val_less [of v] by (simp add: unat_of_nat take_bit_nat_eq_self le_bytes_le_val)

lemma dhcpRequest_acquires:
  assumes "good_answer xid DHCP_ACK (DoCheckSum s) (s_sends3 e) (s_recvs3 e) os f" "conf_ok (cl_conf c)" "iface_ok (cl_iface c)"
    and "opts_ok (cl_opts c)" "names_ok (cl_opts c)" "config_ready (content (cl_opts c))"
    and "cooperative s (s_config e)" "0 \<in> set (drop 86 f)" "0 \<in> set (class_id (cl_iface c))"
    and "offered (nleaseTime (cl_conf c)) f os (content (cl_opts c)) dhcpIPaddrLeaseTime \<noteq> Some [255, 255, 255, 255]"
  obtains c' where "dhcpRequest s e st xid (b_request c) c = Next Bound c'" "h_addr (cl_host c') = le32 (ciaddr (cl_iface c))"
    "ciaddr (cl_iface c') = ciaddr (cl_iface c)" "content (cl_opts c') = offered (nleaseTime (cl_conf c)) f os (content (cl_opts c))"
    "opts_ok (cl_opts c')" "opt4 (cl_opts c') subnetMask = Some (h_mask (cl_host c'))" "opt4 (cl_opts c') dhcpServerIdentifier = Some (le32 (siaddr (cl_iface c')))"
    "h_files (cl_host c') RESOLV_CONF = Some (resolv_text (content (cl_opts c')))" "cl_time c' = s_reply e" "shaddr (cl_iface c') = read_at 6 6 f"
proof -
  obtain x where x: "run_exchange s xid DHCP_ACK (b_request c) (s_sends3 e) (s_recvs3 e) c = Returned 0 x" "opts_ok (x_opts x)" "names_ok (x_opts x)"
    "content (x_opts x) = offered (nleaseTime (cl_conf c)) f os (content (cl_opts c))" "config_ready (content (x_opts x))" "x_at x = 42" "x_buf x = f"
    by (rule request_answered [OF assms(1-6)])
  define d where "d = (after_exchange x c)\<lparr>cl_time := s_reply e\<rparr>"
  have d: "cl_opts d = x_opts x" "cl_iface d = cl_iface c" "cl_buf d = f" "cl_at d = 42" "cl_time d = s_reply e"
    using x(6,7) by (simp_all add: d_def after_exchange_def)
  have p: "printable d" using assms(8,9) by (simp add: printable_def d)
  have w: "willing (s_config e)" "short_paths s" "\<not> TestCase s" "ReplResolvConf s" "\<not> SetHostName s" "\<not> SetDomainName s"
    using assms(7) by (simp_all add: cooperative_def)
  obtain l where l: "content (x_opts x) dhcpIPaddrLeaseTime = Some l" "length l = 4"
    using defaults_lease [of "nleaseTime (cl_conf c)"] assms(2) unfolding x(4) offered_def conf_ok_def by blast
  then have le: "opt4 (cl_opts d) dhcpIPaddrLeaseTime \<noteq> Some [255, 255, 255, 255]"
    using opt4_content [OF x(2) l(1)] assms(10) x(4) by (simp add: d)
  obtain c' where c': "dhcpConfig s (s_config e) d = Some (Config_ok, c')" "h_addr (cl_host c') = le32 (ciaddr (cl_iface d))"
    "opt4 (cl_opts d) subnetMask = Some (h_mask (cl_host c'))" "h_files (cl_host c') RESOLV_CONF = Some (resolv_text (content (cl_opts d)))"
    "cl_iface c' = (cl_iface d)\<lparr>version := VERSION\<rparr>" "cl_opts c' = cl_opts d" "cl_buf c' = cl_buf d" "cl_time c' = cl_time d"
    by (rule config_willing [OF w(1,2) _ _ _ p w(3-6)]) (use x(2,3,5) le in \<open>auto simp: d\<close>)
  obtain v where v: "opt4 (x_opts x) dhcpServerIdentifier = Some v" using ready_some(3) [OF x(5,2)] by blast
  define c2 where "c2 = c'\<lparr>cl_iface := (cl_iface c')\<lparr>siaddr := of_le32 v, shaddr := read_at 6 6 f\<rparr>\<rparr>"
  have so: "server_of c' = Some c2" using v by (simp add: server_of_def c2_def c' d)
  have "dhcpRequest s e st xid (b_request c) c = Next Bound c2"
    using x(1) c'(1) so by (simp add: dhcpRequest_def d_def [symmetric])
  then show ?thesis
    by (rule that) (use x(2,4) v opt4_length [OF v] c'(3) in \<open>simp_all add: c2_def c'(2,4-8) d le32_of_le32\<close>)
qed

lemma iface_fields: "iface_ok i \<Longrightarrow> length m = 6 \<Longrightarrow> iface_ok (i\<lparr>ciaddr := a, siaddr := b, shaddr := m, if_xid := n\<rparr>)"
  by (simp add: iface_ok_def client_chunk_def)

lemma dhcpInit_acquires:
  assumes "serves s e os fs" "conf_ok (cl_conf c)" "iface_ok (cl_iface c)" "cooperative s (s_config e)"
    and "0 \<in> set (drop 86 (fs ! 2))" "0 \<in> set (class_id (cl_iface c))"
    and "negotiated (nleaseTime (cl_conf c)) os fs dhcpIPaddrLeaseTime \<noteq> Some [255, 255, 255, 255]"
  obtains c' where "dhcpInit s e c = Next Bound c'" "h_addr (cl_host c') = read_at 58 4 (fs ! 1)"
    "le32 (ciaddr (cl_iface c')) = read_at 58 4 (fs ! 1)" "content (cl_opts c') = negotiated (nleaseTime (cl_conf c)) os fs"
    "opts_ok (cl_opts c')" "opt4 (cl_opts c') subnetMask = Some (h_mask (cl_host c'))" "opt4 (cl_opts c') dhcpServerIdentifier = Some (le32 (siaddr (cl_iface c')))"
    "h_files (cl_host c') RESOLV_CONF = Some (resolv_text (content (cl_opts c')))" "cl_time c' = s_reply e" "shaddr (cl_iface c') = read_at 6 6 (fs ! 2)"
proof -
  let ?nl = "nleaseTime (cl_conf c)"
  define c0 where "c0 = c\<lparr>cl_opts := releaseDhcpOptions\<rparr>"
  have g: "good_answer (s_xid e) DHCP_OFFER (DoCheckSum s) (s_sends1 e) (s_recvs1 e) (os ! 0) (fs ! 0)"
    "good_answer (s_xid e) DHCP_OFFER (DoCheckSum s) (s_sends2 e) (s_recvs2 e) (os ! 1) (fs ! 1)"
    "good_answer (s_xid e) DHCP_ACK (DoCheckSum s) (s_sends3 e) (s_recvs3 e) (os ! 2) (fs ! 2)"
    using assms(1) by (simp_all add: serves_def)
  have r0: "opts_ok (cl_opts c0)" "names_ok (cl_opts c0)" "formed (content (cl_opts c0))" "content (cl_opts c0) = Map.empty"
    using formed_empty by (simp_all add: c0_def opts_ok_release names_ok_release content_release)
  obtain x1 where x1: "run_exchange s (s_xid e) DHCP_OFFER (b_discover c0) (s_sends1 e) (s_recvs1 e) c0 = Returned 0 x1" "opts_ok (x_opts x1)"
    "names_ok (x_opts x1)" "content (x_opts x1) = offered ?nl (fs ! 0) (os ! 0) Map.empty" "config_ready (content (x_opts x1))" "x_at x1 = 42" "x_buf x1 = fs ! 0"
    by (rule discover_answered [OF g(1) _ _ r0(1-3)]) (use assms(2,3) r0(4) in \<open>auto simp: c0_def\<close>)
  define c1 where "c1 = after_exchange x1 c0"
  have c1: "cl_opts c1 = x_opts x1" "cl_conf c1 = cl_conf c" "cl_iface c1 = cl_iface c" "of_le32 (read_at (cl_at c1 + 4) 4 (cl_buf c1)) = s_xid e"
    using good_answer_xid(1) [OF g(1)] x1(6,7) by (simp_all add: c1_def c0_def after_exchange_def)
  obtain x2 where x2: "run_exchange s (s_xid e) DHCP_OFFER (b_discover c1) (s_sends2 e) (s_recvs2 e) c1 = Returned 0 x2" "opts_ok (x_opts x2)"
    "names_ok (x_opts x2)" "content (x_opts x2) = offered ?nl (fs ! 1) (os ! 1) (offered ?nl (fs ! 0) (os ! 0) Map.empty)"
    "config_ready (content (x_opts x2))" "x_at x2 = 42" "x_buf x2 = fs ! 1"
    by (rule discover_answered [OF g(2), of c1]) (use assms(2,3) x1(2,3,4) ready_formed [OF x1(5)] in \<open>auto simp: c1\<close>)
  obtain v where v: "opt4 (x_opts x2) dhcpServerIdentifier = Some v" using ready_some(3) [OF x2(5,2)] by blast
  define y where "y = of_le32 (read_at 58 4 (fs ! 1))"
  define c2 where "c2 = (after_exchange x2 c1)\<lparr>cl_iface := (cl_iface c)\<lparr>ciaddr := y, siaddr := of_le32 v,
    shaddr := read_at 6 6 (fs ! 1), if_xid := s_xid e\<rparr>\<rparr>"
  have l: "length (fs ! 1) = 1514" using good_answer_xid(2) [OF g(2)] .
  have c2: "cl_opts c2 = x_opts x2" "cl_conf c2 = cl_conf c" "iface_ok (cl_iface c2)" "class_id (cl_iface c2) = class_id (cl_iface c)" "ciaddr (cl_iface c2) = y"
    using iface_fields [OF assms(3), of "read_at 6 6 (fs ! 1)"] l c1(2) by (simp_all add: c2_def after_exchange_def)
  have s: "dhcpInit s e c = dhcpRequest s e Init (s_xid e) (b_request c2) c2"
  proof -
    define d where "d = after_exchange x2 c1"
    have d: "cl_iface d = cl_iface c" "cl_opts d = x_opts x2" "cl_buf d = fs ! 1" "cl_at d = 42"
      using x2(6,7) c1(3) by (simp_all add: d_def after_exchange_def)
    have "server_of (d\<lparr>cl_iface := (cl_iface d)\<lparr>ciaddr := y\<rparr>\<rparr>)
        = Some (d\<lparr>cl_iface := (cl_iface c)\<lparr>ciaddr := y, siaddr := of_le32 v, shaddr := read_at 6 6 (fs ! 1)\<rparr>\<rparr>)"
      by (simp add: server_of_def d v)
    then show ?thesis
      using good_answer_xid(1) [OF g(2)]
      unfolding dhcpInit_def Let_def c0_def [symmetric] x1(1) outcome.case c1_def [symmetric] c1(4) x2(1) d_def [symmetric] d(3,4)
      by (simp add: y_def c2_def d_def [symmetric])
  qed
  have n: "offered (nleaseTime (cl_conf c2)) (fs ! 2) (os ! 2) (content (cl_opts c2)) = negotiated ?nl os fs"
    by (simp add: negotiated_def c2 x2(4))
  have y: "le32 y = read_at 58 4 (fs ! 1)" unfolding y_def using l by (intro le32_of_le32) simp
  show ?thesis
    by (rule dhcpRequest_acquires [OF g(3), of c2 Init])
      (use assms(2,4-7) x2(2,3,5) c2 s y n in \<open>auto intro!: that\<close>)
qed

section \<open>The reply behind the configuration\<close>












section \<open>From the start to the lease\<close>

lemma zero_iface_fields: "length (shaddr zero_iface) = 6" "length (class_id zero_iface) = 48" "length (client_id zero_iface) = 48"
  by (simp_all add: zero_iface_def)

lemma hw_tries_length: "hw_tries n hws = Some hw \<Longrightarrow> list_all (\<lambda>h. 6 \<le> length h) hws \<Longrightarrow> length hw = 6"
  by (induction n hws rule: hw_tries.induct) (auto simp: ETH_ALEN_def split: if_splits)

text \<open>A first start: no cache, an Ethernet interface, the identifiers set up.\<close>

definition fresh :: "settings \<Rightarrow> answers_step \<Rightarrow> client \<Rightarrow> bool" where
  "fresh s e c \<longleftrightarrow> conf_ok (cl_conf c) \<and> h_cache (cl_host c) = None \<and> \<not> checkIfAlreadyRunning s c \<and> ClassID s = None
     \<and> hw_tries 1 (s_start e) \<noteq> None \<and> list_all (\<lambda>h. 6 \<le> length h) (s_start e) \<and> 0 < length (s_uname e) \<and> length (s_uname e) \<le> 48
     \<and> (case ClientID s of None \<Rightarrow> True | Some cid \<Rightarrow> length cid \<le> 48)"

lemma reboot_fresh:
  assumes "fresh s e c"
  obtains c' where "dhcpReboot s e c = Next Init c'" "conf_ok (cl_conf c')" "iface_ok (cl_iface c')" "0 \<in> set (class_id (cl_iface c'))"
    "nleaseTime (cl_conf c') = nleaseTime (cl_conf c)"
proof -
  obtain hw where hw: "hw_tries 1 (s_start e) = Some hw" using assms by (auto simp: fresh_def)
  define conf where "conf = (cl_conf c)\<lparr>ClientHwAddr := hw\<rparr>"
  have l: "length hw = 6" using hw_tries_length [OF hw] assms by (simp add: fresh_def)
  have k: "conf_ok conf" "nleaseTime conf = nleaseTime (cl_conf c)" using assms l by (simp_all add: conf_def conf_ok_def fresh_def)
  define i where "i = zero_iface\<lparr>ciaddr := (case s_ifaddr e of None \<Rightarrow> 0 | Some a \<Rightarrow> a)\<rparr>"
  let ?i = "clientIDsetup (ClientID s) conf (classIDsetup (s_uname e) i)"
  have j: "iface_ok ?i"
    using assms k(1) zero_iface_fields by (intro setup_ok) (simp_all add: i_def fresh_def)
  have z: "0 \<in> set (class_id ?i)"
    by (simp add: clientIDsetup_def classIDsetup_def write_at_def split: option.splits)
  obtain d where d: "dhcpReboot s e c = Next Init (d\<lparr>cl_iface := ?i\<rparr>)" "cl_conf d = conf"
    using assms hw
    by (intro that [of "c\<lparr>cl_conf := conf, cl_ip_id := of_int (s_clock0 e mod 65536), cl_host := (cl_host c)\<lparr>h_up := True\<rparr>,
          cl_opts := releaseDhcpOptions, cl_iface := zero_iface\<rparr>"])
      (simp_all add: dhcpReboot_def dhcpStart_def readDhcpCache_def class_setup_def fresh_def conf_def i_def)
  show ?thesis by (rule that [OF d(1)]) (use d(2) k j z in simp_all)
qed

text \<open>The first settings of the example: a server on the local network, which answers at once.\<close>

definition sample_step :: answers_step where
  "sample_step = \<lparr>s_start = [[0, 14, 8, 1, 2, 3]], s_clock0 = 1000, s_now = 1001, s_reply = 1002, s_ifaddr = None, s_xid = 7,
     s_sends1 = sample_sends, s_recvs1 = [Recv (sample_offer 2) \<lparr>tv_sec = 2, tv_usec = 0\<rparr> 5 Expired],
     s_sends2 = sample_sends, s_recvs2 = [Recv (sample_offer 2) \<lparr>tv_sec = 2, tv_usec = 0\<rparr> 5 Expired],
     s_sends3 = sample_sends, s_recvs3 = [Recv (sample_offer 5) \<lparr>tv_sec = 2, tv_usec = 0\<rparr> 5 Expired],
     s_config = sample_answers, s_uname = [76, 105, 110, 117, 120], s_early = False, s_pointer = 0, s_release = True, s_fork = 99\<rparr>"

definition first_client :: client where
  "first_client = sample_client\<lparr>cl_conf := sample_conf\<lparr>nleaseTime := [0, 0, 14, 16]\<rparr>,
     cl_host := sample_host\<lparr>h_files := [RESOLV_CONF \<mapsto> ''# none'']\<rparr>\<rparr>"

lemma sample_offer_facts: "read_at 58 4 (sample_offer t) = [192, 168, 0, 77]" "0 \<in> set (drop 86 (sample_offer t))"
proof -
  let ?cs = "[type_chunk t, [dhcpServerIdentifier, 4, 192, 168, 0, 1], [endOption]]"
  have b: "put_options ?cs sample_head = write_at 282 (concat ?cs) sample_head"
    by (rule put_options_eq) (simp_all add: sample_head_facts type_chunk_def)
  have l: "length (put_options ?cs sample_head) = 1514" unfolding b by (simp add: sample_head_facts type_chunk_def)
  have l': "length (sample_offer t) = 1514"
    using sample_server_frame [of t] by (simp add: server_frame_def good_frame_def frame_size_def IPPACKET_SIZE_def)
  note u = udp_send_frame(3) [OF l, of "0x0100A8C0" INADDR_BROADCAST 0, folded sample_packet_def sample_offer_def]
  have "read_at 58 4 (sample_offer t) = read_at 58 4 (put_options ?cs sample_head)" by (rule read_at_drop_eq [OF u]) simp
  then show "read_at 58 4 (sample_offer t) = [192, 168, 0, 77]"
    unfolding b by (simp add: sample_head_def read_at_write_at read_at_write_other type_chunk_def)
  have "sample_offer t ! 86 = put_options ?cs sample_head ! 86" by (rule nth_drop_eq [OF u]) (simp_all add: l l')
  also have "\<dots> = 0" unfolding b by (simp add: sample_head_def nth_write_at type_chunk_def)
  finally show "0 \<in> set (drop 86 (sample_offer t))" using nth_mem [of 0 "drop 86 (sample_offer t)"] l' by simp
qed

lemma sample_answer:
  "good_answer 7 t True sample_sends [Recv (sample_offer t) \<lparr>tv_sec = 2, tv_usec = 0\<rparr> 5 Expired] (sample_offer_opts t) (sample_offer t)"
proof -
  have "formed (map_of (rev (sample_offer_opts t)))"
    by (simp add: formed_def sample_offer_opts_def long4_def mult_def)
  then show ?thesis
    unfolding good_answer_def answered_def
    using sample_server_frame [of t] sample_premises(2) [of t] sample_offer_facts(1) [of t] sample_fields(7,8)
    by (auto intro!: exI [of _ "[]"])
qed

lemma sample_serves: "serves sample_settings sample_step [sample_offer_opts 2, sample_offer_opts 2, sample_offer_opts 5] [sample_offer 2, sample_offer 2, sample_offer 5]"
  using sample_answer by (simp add: serves_def sample_step_def sample_settings_def DHCP_OFFER_def DHCP_ACK_def)

lemma fill4_at: "fill4 k v s k = (case s k of None \<Rightarrow> Some v | Some b \<Rightarrow> if length b = 4 \<and> b \<noteq> [0, 0, 0, 0] then Some b else Some v)"
  by (simp add: fill4_def split: option.splits)

lemma offered_lease: "offered nl f os opts dhcpIPaddrLeaseTime = fill4 dhcpIPaddrLeaseTime nl (opts ++ map_of (rev os)) dhcpIPaddrLeaseTime"
  by (simp add: offered_def with_defaults_def Let_def fill_other fill4_at)

lemma hardware: "[0, 14, 8, 1, 2, 3] \<noteq> replicate 6 (0 :: byte)"
  by (simp add: eval_nat_numeral)

lemma sample_fresh: "fresh sample_settings sample_step first_client" "cooperative sample_settings (s_config sample_step)"
  using sample_willing(1,2) hardware
  by (simp_all add: fresh_def first_client_def sample_client_def sample_host_def sample_settings_def sample_step_def conf_ok_def sample_conf_def
      checkIfAlreadyRunning_def PID_FILE_PATH_def RESOLV_CONF_def HWADDR_TRIES_def ETH_ALEN_def cooperative_def)

lemma start_to_bound:
  assumes "fresh s e0 c0" and "serves s e os fs" and "cooperative s (s_config e)" and "0 \<in> set (drop 86 (fs ! 2))" and "0 \<le> s_fork e"
    and "negotiated (nleaseTime (cl_conf c0)) os fs dhcpIPaddrLeaseTime \<noteq> Some [255, 255, 255, 255]"
  shows "\<exists>c. machine_step s (Call e) (machine_step s (Call e0) (main_start s now True Reboot c0)) = Serving Bound c
    \<and> h_addr (cl_host c) = read_at 58 4 (fs ! 1) \<and> content (cl_opts c) = negotiated (nleaseTime (cl_conf c0)) os fs
    \<and> opt4 (cl_opts c) subnetMask = Some (h_mask (cl_host c))
    \<and> h_files (cl_host c) RESOLV_CONF = Some (resolv_text (negotiated (nleaseTime (cl_conf c0)) os fs))
    \<and> opt4 (cl_opts c) dhcpServerIdentifier = Some (le32 (siaddr (cl_iface c))) \<and> cl_time c = s_reply e \<and> cl_alarm c = None
    \<and> checkIfAlreadyRunning s c"
proof -
  have f: "fresh s e0 (c0\<lparr>cl_alarm := Some (now + TimeOut s)\<rparr>)" using assms(1) by (simp add: fresh_def checkIfAlreadyRunning_def)
  obtain c1 where c1: "dhcpReboot s e0 (c0\<lparr>cl_alarm := Some (now + TimeOut s)\<rparr>) = Next Init c1" "conf_ok (cl_conf c1)" "iface_ok (cl_iface c1)"
    "0 \<in> set (class_id (cl_iface c1))" "nleaseTime (cl_conf c1) = nleaseTime (cl_conf c0)"
    by (rule reboot_fresh [OF f]) auto
  have m1: "machine_step s (Call e0) (main_start s now True Reboot c0) = Acquiring Init c1"
    using assms(1) c1(1) by (simp add: main_start_def fresh_def machine_step_def event_step_def state_step_def)
  obtain c2 where c2: "dhcpInit s e c1 = Next Bound c2" "h_addr (cl_host c2) = read_at 58 4 (fs ! 1)"
    "content (cl_opts c2) = negotiated (nleaseTime (cl_conf c0)) os fs"
    "opt4 (cl_opts c2) subnetMask = Some (h_mask (cl_host c2))" "opt4 (cl_opts c2) dhcpServerIdentifier = Some (le32 (siaddr (cl_iface c2)))"
    "h_files (cl_host c2) RESOLV_CONF = Some (resolv_text (content (cl_opts c2)))" "cl_time c2 = s_reply e"
    by (rule dhcpInit_acquires [OF assms(2) c1(2,3) assms(3,4) c1(4)]) (use assms(6) c1(5) in auto)
  have o: "a_open (s_config e) (PID_FILE_PATH s)" using assms(3) by (simp add: cooperative_def willing_def)
  show ?thesis
    unfolding m1 using c2 o assms(5) other_paths(3) [of RESOLV_CONF s]
    by (simp add: machine_step_def event_step_def state_step_def become_daemon_def writePidFile_def checkIfAlreadyRunning_def resolv_paths_def)
qed

definition sample_run :: machine where
  "sample_run = machine_step sample_settings (Call sample_step) (machine_step sample_settings (Call sample_step)
     (main_start sample_settings 1000 True Reboot first_client))"

lemma sample_run_premises:
  defines "os \<equiv> [sample_offer_opts 2, sample_offer_opts 2, sample_offer_opts 5]" and "fs \<equiv> [sample_offer 2, sample_offer 2, sample_offer 5]"
  shows "serves sample_settings sample_step os fs" "0 \<in> set (drop 86 (fs ! 2))" "0 \<le> s_fork sample_step" "read_at 58 4 (fs ! 1) = [192, 168, 0, 77]"
    "negotiated (nleaseTime (cl_conf first_client)) os fs dhcpIPaddrLeaseTime = Some [0, 0, 14, 16]"
    "negotiated (nleaseTime (cl_conf first_client)) os fs dhcpIPaddrLeaseTime \<noteq> Some [255, 255, 255, 255]"
proof -
  show "serves sample_settings sample_step os fs" unfolding os_def fs_def by (rule sample_serves)
  show "0 \<in> set (drop 86 (fs ! 2))" "0 \<le> s_fork sample_step" "read_at 58 4 (fs ! 1) = [192, 168, 0, 77]"
    using sample_offer_facts by (simp_all add: fs_def sample_step_def)
  show "negotiated (nleaseTime (cl_conf first_client)) os fs dhcpIPaddrLeaseTime = Some [0, 0, 14, 16]"
    by (simp add: negotiated_def offered_lease os_def first_client_def sample_offer_opts_def fill4_def map_add_def)
  then show "negotiated (nleaseTime (cl_conf first_client)) os fs dhcpIPaddrLeaseTime \<noteq> Some [255, 255, 255, 255]" by simp
qed

lemma sample_bound:
  obtains c where "sample_run = Serving Bound c" "h_addr (cl_host c) = [192, 168, 0, 77]" "reaches sample_settings (main_start sample_settings 1000 True Reboot first_client) (Serving Bound c)"
proof -
  obtain c where c: "sample_run = Serving Bound c" "h_addr (cl_host c) = [192, 168, 0, 77]"
    using start_to_bound [OF sample_fresh(1) sample_run_premises(1) sample_fresh(2) sample_run_premises(2,3,6), of 1000]
      sample_run_premises(4) by (auto simp: sample_run_def)
  moreover have "reaches sample_settings (main_start sample_settings 1000 True Reboot first_client) sample_run"
    unfolding sample_run_def by (intro reaches.intros)
  ultimately show ?thesis using that by simp
qed

section \<open>Properties\<close>



text \<open>
  C6. While the client is bound, renews or rebinds its lease, the address of the interface is the address
  it has a lease for and names in its requests: in every run of the program, whatever the network answers and
  whatever signals arrive.
\<close>

theorem bound_address:
  assumes "reaches s (main_start s now mk st0 c0) m" and "st0 \<in> {Reboot, Inform}" and "\<not> TestCase s"
    and "m = Acquiring st c \<or> m = Serving st c" and "st \<in> {Bound, Renew, Rebind, Stop}"
  shows "h_addr (cl_host c) = le32 (ciaddr (cl_iface c))"
proof -
  have "address.good s (main_start s now mk st0 c0)" by (rule address.good_start) (use assms(2) in auto)
  then have "address.good s m" by (rule address.reaches_good [OF assms(1)])
  then have "address.holds s st c" by (rule address.good_holds [OF _ assms(4)])
  moreover have "configured st" using assms(5) by (simp add: configured_def)
  ultimately show ?thesis using assms(3) unfolding address.holds_def by simp
qed

theorem bound_address_witness:
  "\<exists>c. sample_run = Serving Bound c \<and> le32 (ciaddr (cl_iface c)) = [192, 168, 0, 77]"
proof -
  obtain c where c: "sample_run = Serving Bound c" "h_addr (cl_host c) = [192, 168, 0, 77]"
    "reaches sample_settings (main_start sample_settings 1000 True Reboot first_client) (Serving Bound c)" by (rule sample_bound)
  have "\<not> TestCase sample_settings" by (simp add: sample_settings_def)
  from bound_address [OF c(3) _ this, of Bound c] show ?thesis using c by auto
qed





lemma stop_keeps:
  "h_addr (cl_host (dhcpStop c)) = h_addr (cl_host c)" "h_routes (cl_host (dhcpStop c)) = h_routes (cl_host c)"
  "h_up (cl_host (dhcpStop c)) = h_up (cl_host c)" "h_sent (cl_host (dhcpStop c)) = h_sent (cl_host c)"
  "h_cache (cl_host (dhcpStop c)) = h_cache (cl_host c)" "cl_alarm (dhcpStop c) = cl_alarm c"
proof -
  have r: "\<exists>g. restore b p h = h\<lparr>h_files := g\<rparr>" for b p h
    using rename_host [of "p @ ''.sv''" p h] by (auto simp: restore_def intro: exI [of _ "h_files h"])
  obtain g1 where g1: "restore (cl_resolv c) RESOLV_CONF (cl_host c) = (cl_host c)\<lparr>h_files := g1\<rparr>" using r by blast
  obtain g2 where g2: "restore (cl_yp c) NIS_CONF ((cl_host c)\<lparr>h_files := g1\<rparr>) = (cl_host c)\<lparr>h_files := g1\<rparr>\<lparr>h_files := g2\<rparr>" using r by blast
  obtain g3 where g3: "restore (cl_ntp c) NTP_CONF ((cl_host c)\<lparr>h_files := g2\<rparr>) = (cl_host c)\<lparr>h_files := g2\<rparr>\<lparr>h_files := g3\<rparr>" using r by blast
  show "h_addr (cl_host (dhcpStop c)) = h_addr (cl_host c)" "h_routes (cl_host (dhcpStop c)) = h_routes (cl_host c)"
    "h_up (cl_host (dhcpStop c)) = h_up (cl_host c)" "h_sent (cl_host (dhcpStop c)) = h_sent (cl_host c)"
    "h_cache (cl_host (dhcpStop c)) = h_cache (cl_host c)" "cl_alarm (dhcpStop c) = cl_alarm c"
    using g2 g3 by (simp_all add: dhcpStop_def execute_on_change_def Let_def g1)
qed

text \<open>
  A hangup signal gives up the lease in every state: the cache is deleted, one DHCPRELEASE for the address is
  sent if there is one, the file with the process number is removed and the program ends with exit code 1; the
  interface is not taken down and keeps its address and its routes.
\<close>

theorem hup_releases:
  "\<exists>c'. sigHandler s e SIGHUP st c = Ends 1 c' \<and> h_cache (cl_host c') = None \<and> \<not> checkIfAlreadyRunning s c'
    \<and> h_sent (cl_host c') = h_sent (cl_host c) @ (if ciaddr (cl_iface c) \<noteq> 0 \<and> s_release e
        then [take 590 (fst (buildDhcpRelease (cl_conf c) (cl_iface c) (if opt_val (cl_opts c) dhcpServerIdentifier = None then 0 else s_pointer e)
                (s_xid e) (cl_ip_id c)))] else [])
    \<and> h_addr (cl_host c') = h_addr (cl_host c) \<and> h_routes (cl_host c') = h_routes (cl_host c) \<and> h_up (cl_host c') = h_up (cl_host c)"
proof -
  let ?c = "dhcpRelease s e c"
  have "sigHandler s e SIGHUP st c = Ends 1 (deletePidFile s (dhcpStop ?c))"
    by (simp add: sigHandler_def SIGHUP_def SIGCHLD_def SIGALRM_def)
  moreover have "h_cache (cl_host ?c) = None" "h_addr (cl_host ?c) = h_addr (cl_host c)" "h_routes (cl_host ?c) = h_routes (cl_host c)"
    "h_up (cl_host ?c) = h_up (cl_host c)"
    unfolding dhcpRelease_def Let_def deleteDhcpCache_def by (auto split: prod.split option.split)
  moreover have "h_sent (cl_host ?c) = h_sent (cl_host c) @ (if ciaddr (cl_iface c) \<noteq> 0 \<and> s_release e
      then [take 590 (fst (buildDhcpRelease (cl_conf c) (cl_iface c) (if opt_val (cl_opts c) dhcpServerIdentifier = None then 0 else s_pointer e)
              (s_xid e) (cl_ip_id c)))] else [])"
    unfolding dhcpRelease_def Let_def deleteDhcpCache_def
    by (auto simp: udpiphdr_size_def ip_size_def udphdr_size_def dhcpMessage_size_def split: prod.split option.split)
  ultimately show ?thesis using stop_keeps by (simp add: deletePidFile_def checkIfAlreadyRunning_def)
qed

text \<open>
  C38. An expired lease stays in use: when the client has given up rebinding and starts over, the interface
  is up and still has the expired address and the routes until another lease is configured.
\<close>

theorem expired_address_kept:
  assumes "remaining dhcpIPaddrLeaseTime (s_now e1) c = Some i" and "i \<le> 0" and "dhcpStart e3 (dhcpStop c) \<noteq> None"
  shows "\<exists>c'. machine_step s (Call e3) (machine_step s (Call e2) (machine_step s (Call e1) (Serving Rebind c))) = Serving Init c'
    \<and> h_addr (cl_host c') = h_addr (cl_host c) \<and> h_routes (cl_host c') = h_routes (cl_host c) \<and> h_up (cl_host c')"
proof -
  obtain c' where c': "dhcpStart e3 (dhcpStop c) = Some c'" using assms(3) by blast
  then have "h_addr (cl_host c') = h_addr (cl_host c)" "h_routes (cl_host c') = h_routes (cl_host c)" "h_up (cl_host c')"
    using stop_keeps [of c] by (auto simp: dhcpStart_def)
  then show ?thesis using assms(1,2) c' by (simp add: machine_step_def event_step_def state_step_def dhcpRebind_def)
qed

theorem expired_address_kept_witness:
  "\<exists>c'. machine_step sample_settings (Call sample_step) (machine_step sample_settings (Call sample_step)
      (machine_step sample_settings (Call (sample_step\<lparr>s_now := 4000\<rparr>)) (Serving Rebind sample_client))) = Serving Init c'"
proof -
  have "remaining dhcpIPaddrLeaseTime (s_now (sample_step\<lparr>s_now := 4000\<rparr>)) sample_client = Some (- 400)"
    by (simp add: remaining_def sample_client_def sample_table_def alloc_def opt4_def be_val_def to_int32_def)
  moreover have "dhcpStart sample_step (dhcpStop sample_client) \<noteq> None"
    using hardware by (simp add: dhcpStart_def sample_step_def ETH_ALEN_def)
  ultimately show ?thesis
    using expired_address_kept [of "sample_step\<lparr>s_now := 4000\<rparr>" sample_client "- 400" sample_step sample_settings sample_step] by auto
qed



end
