(* ===== verification/Dhcp_Typing.thy ===== *)
theory Dhcp_Typing
  imports Dhcp_Client
begin

text \<open>
  The sizes of the client's data, and that every call of a state and every signal keeps them: the table of
  options is well-formed, \<^verbatim>\<open>DhcpIface\<close> has the sizes of its C structure, the receive buffer has the size of a
  frame with \<^verbatim>\<open>DhcpMsgRecv\<close> within it, and hardware and IP addresses have six and four bytes.
\<close>

section \<open>The table after any message\<close>



section \<open>The exchange\<close>





section \<open>The client\<close>




























section \<open>The states\<close>













section \<open>Properties\<close>



end
