(* ===== verification/Iks_Digest.thy ===== *)
theory Iks_Digest
  imports Camera_Prelude
begin

text \<open>
  What the two digests of the Jabber client (\<^verbatim>\<open>sha.c\<close>, \<^verbatim>\<open>md5.c\<close> in \<^verbatim>\<open>jabberlog\<close>) share: rotation of a word,
  the blocks of 64 bytes of a message, the padding of the standards, printing in hexadecimal digits, and
  the interface of a digest that reads its message in fragments.
\<close>

section \<open>Definitions\<close>

definition rotl :: "nat \<Rightarrow> u32 \<Rightarrow> u32" where
  "rotl n x = push_bit n x OR drop_bit (32 - n) x"

definition hex_lower :: "nat \<Rightarrow> char" where
  "hex_lower n = (if n < 10 then char_of (48 + n) else char_of (87 + n))"

text \<open>\<^verbatim>\<open>sprintf("%0nx", x)\<close>.\<close>

fun hex_digits :: "nat \<Rightarrow> nat \<Rightarrow> string" where
  "hex_digits 0 x = []"
| "hex_digits (Suc n) x = hex_digits n (x div 16) @ [hex_lower (x mod 16)]"

section \<open>Blocks and padding\<close>

fun blocks64 :: "byte list \<Rightarrow> byte list list" where
  "blocks64 m = (if length m < 64 then [] else take 64 m # blocks64 (drop 64 m))"

declare blocks64.simps [simp del]

definition rest64 :: "byte list \<Rightarrow> byte list" where
  "rest64 m = drop (64 * (length m div 64)) m"

text \<open>A one bit, zeros up to 56 bytes in the last block, and the length in bits in 8 bytes (RFC 1321, 3.1; FIPS 180, 4).\<close>

definition pad_zeros :: "byte list \<Rightarrow> byte list" where
  "pad_zeros m = 0x80 # replicate ((119 - length m mod 64) mod 64) 0"

definition bit_length :: "byte list \<Rightarrow> nat" where
  "bit_length m = 8 * length m mod 2 ^ 64"

lemma length_rest64 [simp]: "length (rest64 m) = length m mod 64"
  by (simp add: rest64_def minus_mult_div_eq_mod)

lemma blocks64_short [simp]: "length m < 64 \<Longrightarrow> blocks64 m = []"
  by (simp add: blocks64.simps [of m])

lemma blocks64_append: "length a mod 64 = 0 \<Longrightarrow> blocks64 (a @ b) = blocks64 a @ blocks64 b"
proof (induction a rule: blocks64.induct)
  case (1 a)
  show ?case
  proof (cases "length a < 64")
    case True
    then have "a = []" using 1(2) by (cases a) auto
    then show ?thesis by simp
  next
    case False
    have "length (drop 64 a) mod 64 = 0" using 1(2) False by (simp add: le_mod_geq)
    then show ?thesis using 1(1) [OF False] False by (simp add: blocks64.simps [of "a @ b"] blocks64.simps [of a])
  qed
qed

lemma blocks64_single: "length a = 64 \<Longrightarrow> blocks64 a = [a]"
  by (simp add: blocks64.simps [of a])

definition whole64 :: "byte list \<Rightarrow> byte list" where
  "whole64 m = take (64 * (length m div 64)) m"

lemma whole_rest: "whole64 m @ rest64 m = m" "length (whole64 m) mod 64 = 0"
  by (simp_all add: whole64_def rest64_def min_absorb2 [OF times_div_less_eq_dividend])

lemma blocks64_whole: "blocks64 m = blocks64 (whole64 m)"
proof -
  have "blocks64 (whole64 m @ rest64 m) = blocks64 (whole64 m) @ blocks64 (rest64 m)"
    by (rule blocks64_append [OF whole_rest(2)])
  moreover have "length (rest64 m) < 64" by simp
  ultimately show ?thesis by (simp add: whole_rest(1) del: length_rest64)
qed

lemma blocks64_add:
  assumes "length r < 64" and "length a mod 64 = 0"
  shows "blocks64 (a @ r) = blocks64 a" "rest64 (a @ r) = r" "whole64 (a @ r) = a"
proof -
  have l: "length (a @ r) div 64 = length a div 64" "64 * (length a div 64) = length a"
    using assms by (auto simp: div_add1_eq)
  then show "rest64 (a @ r) = r" "whole64 (a @ r) = a" by (simp_all add: rest64_def whole64_def)
  then show "blocks64 (a @ r) = blocks64 a" using blocks64_whole [of "a @ r"] by simp
qed

lemma rest64_append:
  assumes "length (rest64 m) + length d < 64"
  shows "rest64 (m @ d) = rest64 m @ d" "blocks64 (m @ d) = blocks64 m"
proof -
  have "m @ d = whole64 m @ (rest64 m @ d)" using whole_rest(1) [of m] by (metis append.assoc)
  moreover have "length (rest64 m @ d) < 64" using assms by simp
  ultimately show "rest64 (m @ d) = rest64 m @ d" "blocks64 (m @ d) = blocks64 m"
    using blocks64_add [OF _ whole_rest(2), of "rest64 m @ d" m] blocks64_whole [of m] by presburger+
qed

lemma rest64_full:
  assumes "length (rest64 m) + length d = 64"
  shows "rest64 (m @ d) = []" "blocks64 (m @ d) = blocks64 m @ [rest64 m @ d]"
proof -
  have e: "m @ d = whole64 m @ (rest64 m @ d)" using whole_rest(1) [of m] by (metis append.assoc)
  have l: "length (rest64 m @ d) = 64" using assms by simp
  then have "length (m @ d) mod 64 = 0" unfolding e using whole_rest(2) [of m] by (simp add: mod_add_eq)
  then have "length (rest64 (m @ d)) = 0" by simp
  then show "rest64 (m @ d) = []" by (simp only: length_0_conv)
  show "blocks64 (m @ d) = blocks64 m @ [rest64 m @ d]"
    unfolding e blocks64_append [OF whole_rest(2)] blocks64_single [OF l] by (simp add: blocks64_whole [of m])
qed

lemma pad_length: "(length m + length (pad_zeros m)) mod 64 = 56"
proof -
  let ?r = "length m mod 64"
  have "(length m + Suc ((119 - ?r) mod 64)) mod 64 = (?r + Suc (119 - ?r)) mod 64"
    by (metis add_Suc_right mod_Suc_eq mod_add_eq mod_mod_trivial)
  moreover have "?r \<le> 119" using mod_less_divisor [of 64 "length m"] by linarith
  ultimately show ?thesis by (simp add: pad_zeros_def)
qed

lemma upt_cut: "i \<le> j \<Longrightarrow> j \<le> k \<Longrightarrow> [i..<k] = [i..<j] @ [j..<k]"
  using upt_add_eq_append [of i j "k - j"] by simp

lemma le_bytes_add: "le_bytes (a + b) x = le_bytes a x @ le_bytes b (x div 256 ^ a)"
  by (induction a arbitrary: x) (simp_all add: div_mult2_eq)

text \<open>A counter of 64 bits in two words.\<close>

lemma counter_add:
  fixes hi lo n :: u32
  assumes "unat hi * 2 ^ 32 + unat lo = x mod 2 ^ 64"
  shows "unat (hi + (if lo + n < n then 1 else 0)) * 2 ^ 32 + unat (lo + n) = (x + unat n) mod 2 ^ 64"
proof -
  have l: "unat lo < 2 ^ 32" "unat hi < 2 ^ 32" "unat n < 2 ^ 32" using unat_u32_less [of lo] unat_u32_less [of hi] unat_u32_less [of n] by simp_all
  have lo: "unat (lo + n) = (unat lo + unat n) mod 2 ^ 32" by (simp add: unat_word_ariths)
  have c: "lo + n < n \<longleftrightarrow> 2 ^ 32 \<le> unat lo + unat n"
    unfolding word_less_nat_alt lo using l by (cases "unat lo + unat n < 2 ^ 32") (auto simp: le_mod_geq not_less)
  have x: "(x + unat n) mod 2 ^ 64 = (unat hi * 2 ^ 32 + unat lo + unat n) mod 2 ^ 64" using assms by (simp add: mod_simps)
  have h: "unat (hi + 1) = (unat hi + 1) mod 2 ^ 32" by (simp add: unat_word_ariths)
  show ?thesis
  proof (cases "2 ^ 32 \<le> unat lo + unat n")
    case carry: True
    then have a: "unat (lo + n) = unat lo + unat n - 2 ^ 32" unfolding lo using l by (simp add: le_mod_geq)
    show ?thesis
    proof (cases "unat hi + 1 = 2 ^ 32")
      case True
      then show ?thesis using carry a c l x h by (simp add: le_mod_geq)
    next
      case False
      then have "unat (hi + 1) = unat hi + 1" using l(2) h by simp
      moreover have "unat hi * 2 ^ 32 + unat lo + unat n < 2 ^ 64" using False l by simp
      ultimately show ?thesis using carry a c x by simp
    qed
  next
    case False
    then show ?thesis using c l lo x by simp
  qed
qed

section \<open>Reading in fragments\<close>

text \<open>
  A digest absorbs fragments and is finished by the padding: \<open>holds s m\<close> says that the state has read the
  message \<open>m\<close>.  The result is the reference digest of the concatenation, however the message was cut.
\<close>

locale fragment_digest =
  fixes init :: 's and absorb :: "'s \<Rightarrow> byte list \<Rightarrow> 's" and finish :: "'s \<Rightarrow> 's" and out :: "'s \<Rightarrow> 'd"
    and holds :: "'s \<Rightarrow> byte list \<Rightarrow> bool" and fine :: "byte list \<Rightarrow> bool" and reference :: "byte list \<Rightarrow> 'd"
  assumes init_holds: "holds init []"
    and absorb_holds: "holds s m \<Longrightarrow> holds (absorb s d) (m @ d)"
    and finish_out: "holds s m \<Longrightarrow> fine m \<Longrightarrow> out (finish s) = reference m"
begin

lemma fragments_hold: "holds s m \<Longrightarrow> holds (foldl absorb s ds) (m @ concat ds)"
  by (induction ds arbitrary: s m) (simp, metis absorb_holds append.assoc concat.simps(2) foldl_Cons)

lemma digest_fragments: "fine (concat ds) \<Longrightarrow> out (finish (foldl absorb init ds)) = reference (concat ds)"
  using fragments_hold [OF init_holds, of ds] by (simp add: finish_out)

end

end
