(* ===== verification/Iks_Sha.thy ===== *)
theory Iks_Sha
  imports Iks_Digest
begin

text \<open>
  The SHA-1 digest (\<^verbatim>\<open>jabberlog/sha.c\<close>).  The word being filled is shifted left by a byte for every byte
  read, so that after four bytes nothing is left of what the schedule of the last block had put there.
\<close>

section \<open>Definitions\<close>

record iksha =
  sha_hash :: "u32 list"
  sha_buf :: "u32 list"
  sha_blen :: nat
  sha_lenhi :: u32
  sha_lenlo :: u32

definition iks_sha_reset :: iksha where
  "iks_sha_reset = \<lparr>sha_hash = [0x67452301, 0xefcdab89, 0x98badcfe, 0x10325476, 0xc3d2e1f0], sha_buf = replicate 80 0,
     sha_blen = 0, sha_lenhi = 0, sha_lenlo = 0\<rparr>"

type_synonym sha_regs = "u32 \<times> u32 \<times> u32 \<times> u32 \<times> u32"

text \<open>The macro \<^verbatim>\<open>SHA\<close>, with the function and the constant of its part.\<close>

definition sha_turn :: "(u32 \<Rightarrow> u32 \<Rightarrow> u32 \<Rightarrow> u32) \<Rightarrow> u32 \<Rightarrow> u32 list \<Rightarrow> nat \<Rightarrow> sha_regs \<Rightarrow> sha_regs" where
  "sha_turn f k buf i = (\<lambda>(A, B, C, D, E). (rotl 5 A + f B C D + E + buf ! i + k, A, rotl 30 B, C, D))"

definition sha_extend :: "nat \<Rightarrow> u32 list \<Rightarrow> u32 list" where
  "sha_extend i buf = buf[i := rotl 1 (buf ! (i - 3) XOR buf ! (i - 8) XOR buf ! (i - 14) XOR buf ! (i - 16))]"

definition sha_schedule :: "u32 list \<Rightarrow> u32 list" where
  "sha_schedule buf = fold sha_extend [16..<80] buf"

definition sha_rounds :: "u32 list \<Rightarrow> sha_regs \<Rightarrow> sha_regs" where
  "sha_rounds buf r =
     (let r = fold (sha_turn (\<lambda>B C D. ((C XOR D) AND B) XOR D) 0x5a827999 buf) [0..<20] r;
          r = fold (sha_turn (\<lambda>B C D. B XOR C XOR D) 0x6ed9eba1 buf) [20..<40] r;
          r = fold (sha_turn (\<lambda>B C D. (B AND C) OR (D AND (B OR C))) 0x8f1bbcdc buf) [40..<60] r
      in fold (sha_turn (\<lambda>B C D. B XOR C XOR D) 0xca62c1d6 buf) [60..<80] r)"

definition sha_calculate :: "iksha \<Rightarrow> iksha" where
  "sha_calculate sha =
     (let buf = sha_schedule (sha_buf sha); h = sha_hash sha;
          (A, B, C, D, E) = sha_rounds buf (h ! 0, h ! 1, h ! 2, h ! 3, h ! 4)
      in sha\<lparr>sha_buf := buf, sha_hash := [h ! 0 + A, h ! 1 + B, h ! 2 + C, h ! 3 + D, h ! 4 + E]\<rparr>)"

definition sha_byte :: "iksha \<Rightarrow> byte \<Rightarrow> iksha" where
  "sha_byte sha b =
     (let i = sha_blen sha div 4;
          sha = sha\<lparr>sha_buf := (sha_buf sha)[i := push_bit 8 (sha_buf sha ! i) OR ucast b], sha_blen := sha_blen sha + 1\<rparr>;
          sha = (if sha_blen sha mod 64 = 0 then (sha_calculate sha)\<lparr>sha_blen := 0\<rparr> else sha);
          lo = sha_lenlo sha + 8
      in sha\<lparr>sha_lenlo := lo, sha_lenhi := sha_lenhi sha + (if lo < 8 then 1 else 0)\<rparr>)"

definition sha_buffer :: "iksha \<Rightarrow> byte list \<Rightarrow> iksha" where
  "sha_buffer = foldl sha_byte"

text \<open>The loop that fills up the block with zeros.\<close>

definition sha_left :: "iksha \<Rightarrow> nat" where
  "sha_left sha = (if sha_blen sha \<le> 56 then 56 - sha_blen sha else 57 + (63 - sha_blen sha mod 64))"

lemma sha_byte_blen: "sha_blen (sha_byte sha b) = (if (sha_blen sha + 1) mod 64 = 0 then 0 else sha_blen sha + 1)"
  by (simp add: sha_byte_def Let_def sha_calculate_def split: prod.split)

function sha_fill :: "iksha \<Rightarrow> iksha" where
  "sha_fill sha = (if sha_blen sha = 56 then sha else sha_fill (sha_buffer sha [0]))"
  by auto
termination
proof (relation "measure sha_left")
  fix sha :: iksha assume a: "sha_blen sha \<noteq> 56"
  have "sha_blen sha mod 64 < 64" by simp
  moreover have "(sha_blen sha + 1) mod 64 \<noteq> 0 \<Longrightarrow> (sha_blen sha + 1) mod 64 = sha_blen sha mod 64 + 1" by (simp add: mod_Suc split: if_splits)
  ultimately show "(sha_buffer sha [0], sha) \<in> measure sha_left"
    using a by (auto simp: sha_left_def sha_buffer_def sha_byte_blen)
qed simp

declare sha_fill.simps [simp del]

definition iks_sha_finish :: "iksha \<Rightarrow> iksha" where
  "iks_sha_finish sha =
     (let pad = be32 (sha_lenhi sha) @ be32 (sha_lenlo sha)
      in sha_buffer (sha_fill (sha_buffer sha [0x80])) pad)"

definition iks_sha_hash :: "iksha \<Rightarrow> byte list \<Rightarrow> bool \<Rightarrow> iksha" where
  "iks_sha_hash sha data finish =
     (let sha = (if data \<noteq> [] then sha_buffer sha data else sha)
      in if finish then iks_sha_finish sha else sha)"

definition iks_sha_print :: "iksha \<Rightarrow> string" where
  "iks_sha_print sha = concat (map (\<lambda>w. hex_digits 8 (unat w)) (take 5 (sha_hash sha)))"

definition iks_sha :: "string \<Rightarrow> string" where
  "iks_sha data = iks_sha_print (iks_sha_hash iks_sha_reset (map of_char data) True)"

section \<open>The standard\<close>

text \<open>FIPS 180-1: the functions and constants of step \<open>t\<close>, the schedule of a block and its compression.\<close>

definition fips_f :: "nat \<Rightarrow> u32 \<Rightarrow> u32 \<Rightarrow> u32 \<Rightarrow> u32" where
  "fips_f t B C D =
     (if t < 20 then (B AND C) OR (NOT B AND D)
      else if t < 40 then B XOR C XOR D
      else if t < 60 then (B AND C) OR (B AND D) OR (C AND D)
      else B XOR C XOR D)"

definition fips_K :: "nat \<Rightarrow> u32" where
  "fips_K t = (if t < 20 then 0x5a827999 else if t < 40 then 0x6ed9eba1 else if t < 60 then 0x8f1bbcdc else 0xca62c1d6)"

definition be_word :: "byte list \<Rightarrow> nat \<Rightarrow> u32" where
  "be_word b i = of_nat (be_val (read_at (4 * i) 4 b))"

fun fips_W :: "byte list \<Rightarrow> nat \<Rightarrow> u32" where
  "fips_W b t = (if t < 16 then be_word b t
     else rotl 1 (fips_W b (t - 3) XOR fips_W b (t - 8) XOR fips_W b (t - 14) XOR fips_W b (t - 16)))"

declare fips_W.simps [simp del]

definition fips_step :: "byte list \<Rightarrow> nat \<Rightarrow> sha_regs \<Rightarrow> sha_regs" where
  "fips_step b t = (\<lambda>(A, B, C, D, E). (rotl 5 A + fips_f t B C D + E + fips_W b t + fips_K t, A, rotl 30 B, C, D))"

definition fips_compress :: "u32 list \<Rightarrow> byte list \<Rightarrow> u32 list" where
  "fips_compress h b =
     (let (A, B, C, D, E) = fold (fips_step b) [0..<80] (h ! 0, h ! 1, h ! 2, h ! 3, h ! 4)
      in [h ! 0 + A, h ! 1 + B, h ! 2 + C, h ! 3 + D, h ! 4 + E])"

definition fips_sha1 :: "byte list \<Rightarrow> u32 list" where
  "fips_sha1 m = foldl fips_compress [0x67452301, 0xefcdab89, 0x98badcfe, 0x10325476, 0xc3d2e1f0]
     (blocks64 (m @ pad_zeros m @ be_bytes 8 (bit_length m)))"

section \<open>One block\<close>

lemma length_schedule: "length (fold sha_extend xs buf) = length buf"
  by (induction xs arbitrary: buf) (simp_all add: sha_extend_def)

lemma length_sha_schedule: "length (sha_schedule buf) = length buf"
  unfolding sha_schedule_def by (rule length_schedule)

lemma schedule_prefix:
  assumes "length buf = 80" and "\<And>t. t < 16 \<Longrightarrow> buf ! t = be_word b t"
  shows "16 + n \<le> 80 \<Longrightarrow> t < 16 + n \<Longrightarrow> fold sha_extend [16..<16 + n] buf ! t = fips_W b t"
proof (induction n arbitrary: t)
  case 0
  then show ?case using assms(2) by (simp add: fips_W.simps)
next
  case (Suc n)
  define B where "B = fold sha_extend [16..<16 + n] buf"
  have IH: "t < 16 + n \<Longrightarrow> B ! t = fips_W b t" for t using Suc unfolding B_def by simp
  have l: "length B = 80" unfolding B_def by (simp add: length_schedule assms(1))
  have s: "fold sha_extend [16..<16 + Suc n] buf = sha_extend (16 + n) B" 
    unfolding B_def by (simp only: add_Suc_right upt_Suc fold_append) simp
  have e: "16 + n - 3 = 13 + n" "16 + n - 8 = 8 + n" "16 + n - 14 = 2 + n" "16 + n - 16 = n" by simp_all
  show ?case
  proof (cases "t = 16 + n")
    case True
    have "sha_extend (16 + n) B ! (16 + n) = rotl 1 (B ! (13 + n) XOR B ! (8 + n) XOR B ! (2 + n) XOR B ! n)"
      unfolding sha_extend_def e using l Suc.prems by simp
    moreover have "fips_W b (16 + n) = rotl 1 (fips_W b (13 + n) XOR fips_W b (8 + n) XOR fips_W b (2 + n) XOR fips_W b n)"
      unfolding fips_W.simps [of b "16 + n"] e by simp
    ultimately show ?thesis unfolding s True using IH by simp
  next
    case False
    then have "sha_extend (16 + n) B ! t = B ! t" by (simp add: sha_extend_def)
    then show ?thesis unfolding s using IH Suc.prems False by simp
  qed
qed

lemma schedule_word:
  assumes "length buf = 80" and "\<And>t. t < 16 \<Longrightarrow> buf ! t = be_word b t" and "t < 80"
  shows "sha_schedule buf ! t = fips_W b t"
  using schedule_prefix [OF assms(1,2), of 64 t] assms(3) unfolding sha_schedule_def by simp

lemma fips_functions:
  "((C XOR D) AND B) XOR D = (B AND C) OR (NOT B AND D)"
  "(B AND C) OR (D AND (B OR C)) = (B AND C) OR (B AND D) OR (C AND D)" for B C D :: u32
  by (auto simp: bit_eq_iff bit_and_iff bit_or_iff bit_xor_iff bit_not_iff)

lemma fold_turns:
  assumes "\<And>i. i \<in> set xs \<Longrightarrow> buf ! i = fips_W b i" and "\<And>i. i \<in> set xs \<Longrightarrow> k = fips_K i"
    and "\<And>i B C D. i \<in> set xs \<Longrightarrow> f B C D = fips_f i B C D"
  shows "fold (sha_turn f k buf) xs = fold (fips_step b) xs"
proof -
  have "sha_turn f k buf i = fips_step b i" if "i \<in> set xs" for i
    using assms(1,2) [OF that] assms(3) [OF that] by (auto simp: sha_turn_def fips_step_def fun_eq_iff)
  then show ?thesis by (intro ext fold_cong) auto
qed

lemma rounds_fips:
  assumes w: "\<And>t. t < 80 \<Longrightarrow> buf ! t = fips_W b t"
  shows "sha_rounds buf r = fold (fips_step b) [0..<80] r"
proof -
  have 1: "fold (sha_turn (\<lambda>B C D. ((C XOR D) AND B) XOR D) 0x5a827999 buf) [0..<20] = fold (fips_step b) [0..<20]"
    by (rule fold_turns) (auto simp: w fips_K_def fips_f_def fips_functions)
  have 2: "fold (sha_turn (\<lambda>B C D. B XOR C XOR D) 0x6ed9eba1 buf) [20..<40] = fold (fips_step b) [20..<40]"
    by (rule fold_turns) (auto simp: w fips_K_def fips_f_def)
  have 3: "fold (sha_turn (\<lambda>B C D. (B AND C) OR (D AND (B OR C))) 0x8f1bbcdc buf) [40..<60] = fold (fips_step b) [40..<60]"
    by (rule fold_turns) (auto simp: w fips_K_def fips_f_def fips_functions)
  have 4: "fold (sha_turn (\<lambda>B C D. B XOR C XOR D) 0xca62c1d6 buf) [60..<80] = fold (fips_step b) [60..<80]"
    by (rule fold_turns) (auto simp: w fips_K_def fips_f_def)
  have "[0..<80] = [0..<20] @ [20..<80]" "[20..<80] = [20..<40] @ [40..<80]" "[40..<80] = [40..<60] @ [60..<80]"
    by (rule upt_cut; simp)+
  then show ?thesis unfolding sha_rounds_def Let_def 1 2 3 4 by (simp only: fold_append o_apply)
qed

lemma calculate_block:
  assumes "length (sha_buf s) = 80" and "\<And>t. t < 16 \<Longrightarrow> sha_buf s ! t = be_word b t"
  shows "sha_hash (sha_calculate s) = fips_compress (sha_hash s) b"
proof -
  define h where "h = sha_hash s"
  define r where "r = fold (fips_step b) [0..<80] (h ! 0, h ! 1, h ! 2, h ! 3, h ! 4)"
  have "sha_rounds (sha_schedule (sha_buf s)) (h ! 0, h ! 1, h ! 2, h ! 3, h ! 4) = r"
    unfolding r_def by (rule rounds_fips [OF schedule_word [OF assms]])
  then show ?thesis unfolding sha_calculate_def fips_compress_def Let_def h_def [symmetric] r_def [symmetric]
    by (simp split: prod.split)
qed

section \<open>Reading bytes\<close>

lemma shift_in: "unat (push_bit 8 w OR ucast b :: u32) = (256 * unat w + unat b) mod 2 ^ 32" for b :: byte
proof -
  have "push_bit 8 w AND (ucast b :: u32) = 0"
    by (rule bit_eqI) (auto simp: bit_and_iff bit_push_bit_iff bit_ucast_iff dest: bit_imp_le_length)
  then have "push_bit 8 w OR (ucast b :: u32) = 256 * w + ucast b"
    using word_plus_and_or [of "push_bit 8 w" "ucast b :: u32"] by (simp add: push_bit_eq_mult mult.commute)
  moreover have "unat (ucast b :: u32) = unat b" using unat_byte_less [of b] by (simp add: unsigned_ucast_eq take_bit_eq_mod)
  ultimately show ?thesis by (simp add: unat_word_ariths mod_simps)
qed

lemma be_val_snoc: "be_val (xs @ [b]) = 256 * be_val xs + unat b"
  by (simp add: be_val_def)

definition sha_holds :: "iksha \<Rightarrow> byte list \<Rightarrow> bool" where
  "sha_holds s m \<longleftrightarrow>
     length (sha_buf s) = 80 \<and> sha_blen s = length m mod 64
     \<and> sha_hash s = foldl fips_compress (sha_hash iks_sha_reset) (blocks64 m)
     \<and> (\<forall>i < length m mod 64 div 4. sha_buf s ! i = be_word (rest64 m) i)
     \<and> unat (sha_buf s ! (length m mod 64 div 4)) mod 256 ^ (length m mod 4) = be_val (drop (4 * (length m mod 64 div 4)) (rest64 m))
     \<and> unat (sha_lenhi s) * 2 ^ 32 + unat (sha_lenlo s) = bit_length m"

lemma be_word_snoc: "4 * i + 4 \<le> length r \<Longrightarrow> be_word (r @ [b]) i = be_word r i"
  by (simp add: be_word_def read_at_def)

lemma word_complete:
  assumes "unat (w :: u32) mod 256 ^ 4 = be_val (drop (4 * i) r)" and "length r = 4 * i + 4"
  shows "w = be_word r i"
proof -
  have "unat w < 256 ^ 4" using unat_u32_less [of w] by simp
  then have "unat w = be_val (read_at (4 * i) 4 r)" using assms by (simp add: read_at_def)
  then show ?thesis unfolding be_word_def by (metis of_nat_unat ucast_id unsigned_of_nat)
qed

lemma mod_256_step: "(256 * u + v) mod 256 ^ (e + 1) = (256 * (u mod 256 ^ e) + v) mod 256 ^ (e + 1)" for u v e :: nat
proof -
  have "256 * (u mod 256 ^ e) = (256 * u) mod (256 * 256 ^ e)" by (rule mult_mod_right)
  then show ?thesis unfolding add_0_right Suc_eq_plus1 [symmetric] power_Suc by (simp only: mod_add_left_eq)
qed

lemma fill_word:
  assumes "sha_holds s m"
  shows "unat (push_bit 8 (sha_buf s ! (length m mod 64 div 4)) OR ucast b :: u32) mod 256 ^ (length m mod 4 + 1)
    = be_val (drop (4 * (length m mod 64 div 4)) (rest64 m @ [b]))"
proof -
  let ?q = "length m mod 64 div 4" and ?e = "length m mod 4"
  have "?e + 1 \<le> 4" using mod_less_divisor [of 4 "length m"] by linarith
  then have d: "256 ^ (?e + 1) dvd (2 ^ 32 :: nat)" using le_imp_power_dvd [of "?e + 1" 4 "256 :: nat"] by simp
  have "unat (push_bit 8 (sha_buf s ! ?q) OR ucast b :: u32) mod 256 ^ (?e + 1) = (256 * unat (sha_buf s ! ?q) + unat b) mod 256 ^ (?e + 1)"
    unfolding shift_in using d by (simp add: mod_mod_cancel del: power_Suc)
  also have "\<dots> = 256 * (unat (sha_buf s ! ?q) mod 256 ^ ?e) + unat b"
  proof -
    have "256 * (u mod 256 ^ ?e) + unat b < 256 ^ (?e + 1)" for u :: nat
    proof -
      have "u mod 256 ^ ?e < 256 ^ ?e" by simp
      then have "256 * (u mod 256 ^ ?e) + 256 \<le> 256 * 256 ^ ?e" by linarith
      then show ?thesis using unat_byte_less [of b] by simp
    qed
    moreover note mod_256_step [of "unat (sha_buf s ! ?q)" "unat b" ?e]
    ultimately show ?thesis by simp
  qed
  also have "\<dots> = be_val (drop (4 * ?q) (rest64 m) @ [b])"
    using assms by (simp add: sha_holds_def be_val_snoc)
  also have "drop (4 * ?q) (rest64 m) @ [b] = drop (4 * ?q) (rest64 m @ [b])" by simp
  finally show ?thesis .
qed

lemma mod_64_4: "n mod 4 = n mod 64 mod (4 :: nat)"
  by (simp add: mod_mod_cancel)

lemma quarter:
  "k mod 4 = 3 \<Longrightarrow> k = 4 * (k div 4) + 3" "k mod 4 = 3 \<Longrightarrow> Suc k div 4 = Suc (k div 4)" "k mod 4 = 3 \<Longrightarrow> Suc k mod 4 = 0"
  "k mod 4 \<noteq> 3 \<Longrightarrow> Suc k div 4 = k div 4" "k mod 4 \<noteq> 3 \<Longrightarrow> Suc k mod 4 = Suc (k mod 4)" for k :: nat
  by presburger+

lemma calculate_keeps:
  "length (sha_buf (sha_calculate s)) = length (sha_buf s)" "sha_lenhi (sha_calculate s) = sha_lenhi s"
  "sha_lenlo (sha_calculate s) = sha_lenlo s" "sha_blen (sha_calculate s) = sha_blen s"
  unfolding sha_calculate_def Let_def by (simp_all add: length_sha_schedule split: prod.split)

lemma unat_8: "unat (8 :: u32) = 8"
  by code_simp

lemma sha_byte_holds:
  assumes "sha_holds s m"
  shows "sha_holds (sha_byte s b) (m @ [b])"
proof -
  let ?q = "length m mod 64 div 4" and ?r = "rest64 m"
  define w where "w = (push_bit 8 (sha_buf s ! ?q) OR ucast b :: u32)"
  define t where "t = s\<lparr>sha_buf := (sha_buf s)[?q := w], sha_blen := length m mod 64 + 1\<rparr>"
  have h: "length (sha_buf s) = 80" "sha_blen s = length m mod 64" "sha_hash s = foldl fips_compress (sha_hash iks_sha_reset) (blocks64 m)"
    "\<And>i. i < ?q \<Longrightarrow> sha_buf s ! i = be_word ?r i" "unat (sha_lenhi s) * 2 ^ 32 + unat (sha_lenlo s) = bit_length m"
    using assms by (auto simp: sha_holds_def)
  have wm: "unat w mod 256 ^ (length m mod 4 + 1) = be_val (drop (4 * ?q) (?r @ [b]))" unfolding w_def by (rule fill_word [OF assms])
  have q: "?q < 16" "4 * ?q \<le> length ?r" by auto
  have old: "(sha_buf s)[?q := w] ! i = be_word (?r @ [b]) i" if "i < ?q" for i
    using that h(4) be_word_snoc [of i ?r b] q by simp
  have new: "(sha_buf s)[?q := w] ! ?q = be_word (?r @ [b]) ?q" if "length m mod 4 = 3"
  proof -
    have "length ?r = 4 * ?q + 3" using quarter(1) [of "length m mod 64"] that mod_64_4 [of "length m"] by simp
    then show ?thesis using word_complete [of w ?q "?r @ [b]"] wm that q h(1) by simp
  qed
  have c: "unat (sha_lenhi s + (if sha_lenlo s + 8 < 8 then 1 else 0)) * 2 ^ 32 + unat (sha_lenlo s + 8) = bit_length (m @ [b])"
    using counter_add [of "sha_lenhi s" "sha_lenlo s" "8 * length m" 8, unfolded unat_8] h(5) by (simp add: bit_length_def add.commute)
  show ?thesis
  proof (cases "length m mod 64 = 63")
    case True
    then have l4: "length m mod 4 = 3" "?q = 15" using mod_64_4 [of "length m"] by simp_all
    have words: "sha_buf t ! i = be_word (?r @ [b]) i" if "i < 16" for i
      using that old [of i] new l4 unfolding t_def by (cases "i = 15") auto
    have "sha_hash (sha_calculate t) = fips_compress (sha_hash s) (?r @ [b])"
      using calculate_block [of t, OF _ words] h(1) by (simp add: t_def)
    moreover have full: "rest64 (m @ [b]) = []" "blocks64 (m @ [b]) = blocks64 m @ [?r @ [b]]" using rest64_full [of m "[b]"] True by auto
    moreover have "sha_byte s b = (sha_calculate t)\<lparr>sha_blen := 0, sha_lenlo := sha_lenlo s + 8,
        sha_lenhi := sha_lenhi s + (if sha_lenlo s + 8 < 8 then 1 else 0)\<rparr>"
      using True unfolding sha_byte_def t_def w_def Let_def by (simp add: h(2) calculate_keeps)
    moreover have "Suc (length m) mod 64 = 0" "Suc (length m) mod 4 = 0" using True l4 by (simp_all add: mod_Suc)
    ultimately show ?thesis
      using c h(1,3) by (simp add: sha_holds_def calculate_keeps t_def be_val_def)
  next
    case False
    then have k: "Suc (length m) mod 64 = Suc (length m mod 64)" by (simp add: mod_Suc)
    have more: "rest64 (m @ [b]) = ?r @ [b]" "blocks64 (m @ [b]) = blocks64 m"
      using rest64_append [of m "[b]"] False mod_less_divisor [of 64 "length m"] by auto
    have e: "sha_byte s b = t\<lparr>sha_lenlo := sha_lenlo s + 8, sha_lenhi := sha_lenhi s + (if sha_lenlo s + 8 < 8 then 1 else 0)\<rparr>"
      using False k unfolding sha_byte_def t_def w_def Let_def by (simp add: h(2))
    show ?thesis
    proof (cases "length m mod 4 = 3")
      case True
      then have "Suc (length m mod 64) div 4 = Suc ?q" "Suc (length m) mod 4 = 0" "length ?r = 4 * ?q + 3"
        using quarter(1,2) [of "length m mod 64"] quarter(3) [of "length m"] mod_64_4 [of "length m"] by simp_all
      moreover from this(3) have "drop (4 * Suc ?q) (?r @ [b]) = []" by (simp del: length_rest64)
      ultimately show ?thesis using c h(1,3) old new [OF True] k more
        by (auto simp: sha_holds_def e t_def less_Suc_eq be_val_def simp del: drop_append)
    next
      case False
      then have "Suc (length m mod 64) div 4 = ?q" "Suc (length m) mod 4 = length m mod 4 + 1"
        using quarter(4) [of "length m mod 64"] quarter(5) [of "length m"] mod_64_4 [of "length m"] by simp_all
      then show ?thesis using c h(1,3) old wm k more q by (auto simp: sha_holds_def e t_def)
    qed
  qed
qed

lemma sha_buffer_holds: "sha_holds s m \<Longrightarrow> sha_holds (sha_buffer s d) (m @ d)"
proof (induction d arbitrary: s m)
  case (Cons b d)
  from Cons.IH [OF sha_byte_holds [OF Cons.prems, of b]] show ?case by (simp add: sha_buffer_def)
qed (simp add: sha_buffer_def)

section \<open>The padding\<close>

lemma fill_count:
  "k < 64 \<Longrightarrow> k \<noteq> 56 \<Longrightarrow> (120 - k) mod 64 = Suc ((120 - (if Suc k mod 64 = 0 then 0 else Suc k)) mod 64)" for k :: nat
proof -
  assume k: "k < 64" "k \<noteq> 56"
  show ?thesis
  proof (cases "k < 56")
    case True
    then show ?thesis by (simp add: le_mod_geq)
  next
    case False
    then show ?thesis using k by (cases "k = 63") (simp_all add: mod_Suc)
  qed
qed

lemma fill_zeros: "sha_blen s < 64 \<Longrightarrow> sha_fill s = sha_buffer s (replicate ((120 - sha_blen s) mod 64) 0)"
proof (induction s rule: sha_fill.induct)
  case (1 s)
  show ?case
  proof (cases "sha_blen s = 56")
    case True
    then show ?thesis by (simp add: sha_fill.simps sha_buffer_def)
  next
    case False
    let ?t = "sha_buffer s [0]"
    have b: "sha_blen ?t = (if Suc (sha_blen s) mod 64 = 0 then 0 else Suc (sha_blen s))" by (simp add: sha_buffer_def sha_byte_blen)
    then have "sha_blen ?t < 64" using 1(2) by (auto simp: mod_Suc)
    from 1(1) [OF False this] have f: "sha_fill s = sha_buffer ?t (replicate ((120 - sha_blen ?t) mod 64) 0)"
      using False by (simp add: sha_fill.simps [of s])
    show ?thesis unfolding f b fill_count [OF 1(2) False] by (simp add: sha_buffer_def)
  qed
qed

lemma pad_count: "(120 - Suc n mod 64) mod 64 = (119 - n mod 64) mod 64" for n :: nat
  by (simp add: mod_Suc)

lemma be_bytes_join:
  assumes "l < 256 ^ 4"
  shows "be_bytes 8 (h * 2 ^ 32 + l) = be_bytes 4 h @ be_bytes 4 l"
proof -
  have "le_bytes 4 (h * 2 ^ 32 + l) = le_bytes 4 l"
    using le_bytes_le_val [of "le_bytes 4 (h * 2 ^ 32 + l)" 4] le_bytes_le_val [of "le_bytes 4 l" 4] by (simp add: le_val_le_bytes)
  moreover have "(h * 2 ^ 32 + l) div 256 ^ 4 = h" using assms by simp
  ultimately show ?thesis using le_bytes_add [of 4 4 "h * 2 ^ 32 + l"] by (simp add: be_bytes_def)
qed

lemma sha_finish_out:
  assumes "sha_holds s m"
  shows "sha_hash (iks_sha_finish s) = fips_sha1 m"
proof -
  let ?p = "be32 (sha_lenhi s) @ be32 (sha_lenlo s)" and ?t = "sha_buffer s [0x80]"
  have t: "sha_holds ?t (m @ [0x80])" by (rule sha_buffer_holds [OF assms])
  then have b: "sha_blen ?t = Suc (length m) mod 64" by (simp add: sha_holds_def)
  have p: "?p = be_bytes 8 (bit_length m)"
    using be_bytes_join [of "unat (sha_lenlo s)" "unat (sha_lenhi s)"] unat_u32_less [of "sha_lenlo s"] assms by (simp add: sha_holds_def)
  have "iks_sha_finish s = sha_buffer (sha_buffer ?t (replicate ((120 - Suc (length m) mod 64) mod 64) 0)) ?p"
    unfolding iks_sha_finish_def Let_def using fill_zeros [of ?t] b by simp
  moreover have "sha_holds (sha_buffer (sha_buffer ?t (replicate ((120 - Suc (length m) mod 64) mod 64) 0)) ?p)
      (((m @ [0x80]) @ replicate ((120 - Suc (length m) mod 64) mod 64) 0) @ ?p)"
    by (intro sha_buffer_holds t)
  ultimately show ?thesis unfolding p pad_count by (simp add: sha_holds_def fips_sha1_def pad_zeros_def iks_sha_reset_def)
qed

lemma sha_reset_holds: "sha_holds iks_sha_reset []"
  by (simp add: sha_holds_def iks_sha_reset_def bit_length_def be_val_def rest64_def)

interpretation sha1: fragment_digest iks_sha_reset sha_buffer iks_sha_finish sha_hash sha_holds "\<lambda>m. True" fips_sha1
  by unfold_locales (simp_all add: sha_reset_holds sha_buffer_holds sha_finish_out)

section \<open>Properties\<close>

lemma sha_hash_absorb: "iks_sha_hash s d False = sha_buffer s d"
  by (simp add: iks_sha_hash_def sha_buffer_def)

lemma length_fips: "length (fips_sha1 m) = 5"
proof -
  have "length (foldl fips_compress h bs) = 5" if "length h = 5" for h bs
    using that by (induction bs arbitrary: h) (simp_all add: fips_compress_def split: prod.split)
  then show ?thesis unfolding fips_sha1_def by simp
qed

text \<open>
  C13. The SHA-1 digest is the one of the standard, however the message is cut into fragments:
  \<open>iks_sha_hash\<close> on any fragments, the last one finishing, and \<open>iks_sha_print\<close> give the 40 hexadecimal
  digits of SHA-1 (FIPS 180) of the concatenation, for every length.
\<close>

theorem sha_digest:
  "iks_sha_print (iks_sha_hash (foldl (\<lambda>s d. iks_sha_hash s d False) iks_sha_reset ds) d True)
     = concat (map (\<lambda>w. hex_digits 8 (unat w)) (fips_sha1 (concat ds @ d)))"
proof -
  have "iks_sha_hash s d True = iks_sha_finish (sha_buffer s d)" for s by (simp add: iks_sha_hash_def sha_buffer_def)
  then have "sha_hash (iks_sha_hash (foldl (\<lambda>s d. iks_sha_hash s d False) iks_sha_reset ds) d True) = fips_sha1 (concat (ds @ [d]))"
    using sha1.digest_fragments [of "ds @ [d]"] by (simp add: sha_hash_absorb)
  then show ?thesis by (simp add: iks_sha_print_def length_fips)
qed

end
