(* ===== verification/Iks_Md5.thy ===== *)
theory Iks_Md5
  imports Iks_Digest
begin

text \<open>
  The MD5 digest (\<^verbatim>\<open>jabberlog/md5.c\<close>).  A full buffer is only compressed when another byte arrives.
  When the message ends with a full buffer, \<^verbatim>\<open>iks_md5_hash\<close> stores the first byte of the padding behind the
  buffer, where the structure has \<^verbatim>\<open>blen\<close>; the value that \<^verbatim>\<open>blen\<close> then has depends on the order in which the
  compiler stores the byte and the incremented index, and is a parameter.
\<close>

section \<open>Definitions\<close>

record iksmd5 =
  md5_total0 :: u32
  md5_total1 :: u32
  md5_state :: "u32 list"
  md5_buffer :: "byte list"
  md5_blen :: nat

definition iks_md5_reset :: iksmd5 where
  "iks_md5_reset = \<lparr>md5_total0 = 0, md5_total1 = 0, md5_state = [0x67452301, 0xEFCDAB89, 0x98BADCFE, 0x10325476],
     md5_buffer = replicate 64 0, md5_blen = 0\<rparr>"

definition md5_T :: "u32 list" where
  "md5_T =
    [0xd76aa478, 0xe8c7b756, 0x242070db, 0xc1bdceee, 0xf57c0faf, 0x4787c62a, 0xa8304613, 0xfd469501,
     0x698098d8, 0x8b44f7af, 0xffff5bb1, 0x895cd7be, 0x6b901122, 0xfd987193, 0xa679438e, 0x49b40821,
     0xf61e2562, 0xc040b340, 0x265e5a51, 0xe9b6c7aa, 0xd62f105d, 0x02441453, 0xd8a1e681, 0xe7d3fbc8,
     0x21e1cde6, 0xc33707d6, 0xf4d50d87, 0x455a14ed, 0xa9e3e905, 0xfcefa3f8, 0x676f02d9, 0x8d2a4c8a,
     0xfffa3942, 0x8771f681, 0x6d9d6122, 0xfde5380c, 0xa4beea44, 0x4bdecfa9, 0xf6bb4b60, 0xbebfbc70,
     0x289b7ec6, 0xeaa127fa, 0xd4ef3085, 0x04881d05, 0xd9d4d039, 0xe6db99e5, 0x1fa27cf8, 0xc4ac5665,
     0xf4292244, 0x432aff97, 0xab9423a7, 0xfc93a039, 0x655b59c3, 0x8f0ccc92, 0xffeff47d, 0x85845dd1,
     0x6fa87e4f, 0xfe2ce6e0, 0xa3014314, 0x4e0811a1, 0xf7537e82, 0xbd3af235, 0x2ad7d2bb, 0xeb86d391]"

definition get_uint32 :: "byte list \<Rightarrow> nat \<Rightarrow> u32" where
  "get_uint32 b i = ucast (b ! i) OR push_bit 8 (ucast (b ! (i + 1))) OR push_bit 16 (ucast (b ! (i + 2))) OR push_bit 24 (ucast (b ! (i + 3)))"

definition put_uint32 :: "u32 \<Rightarrow> byte list" where
  "put_uint32 n = [ucast n, ucast (drop_bit 8 n), ucast (drop_bit 16 n), ucast (drop_bit 24 n)]"

text \<open>The macros \<^verbatim>\<open>F\<close>, \<^verbatim>\<open>G\<close>, \<^verbatim>\<open>H\<close>, \<^verbatim>\<open>I\<close> and \<^verbatim>\<open>P\<close>.\<close>

definition md5_F :: "u32 \<Rightarrow> u32 \<Rightarrow> u32 \<Rightarrow> u32" where "md5_F x y z = z XOR (x AND (y XOR z))"
definition md5_G :: "u32 \<Rightarrow> u32 \<Rightarrow> u32 \<Rightarrow> u32" where "md5_G x y z = y XOR (z AND (x XOR y))"
definition md5_H :: "u32 \<Rightarrow> u32 \<Rightarrow> u32 \<Rightarrow> u32" where "md5_H x y z = x XOR y XOR z"
definition md5_I :: "u32 \<Rightarrow> u32 \<Rightarrow> u32 \<Rightarrow> u32" where "md5_I x y z = y XOR (x OR NOT z)"

definition md5_P :: "u32 list \<Rightarrow> nat \<Rightarrow> (u32 \<Rightarrow> u32 \<Rightarrow> u32 \<Rightarrow> u32) \<Rightarrow> u32 \<Rightarrow> nat \<Rightarrow> u32 \<Rightarrow> u32 list" where
  "md5_P r i f x s t =
     (let r = r[i := r ! i + (f (r ! ((i + 1) mod 4)) (r ! ((i + 2) mod 4)) (r ! ((i + 3) mod 4)) + x + t)]
      in r[i := rotl s (r ! i) + r ! ((i + 1) mod 4)])"

text \<open>
  One of the four loops: \<open>k\<close> starts at 0 and goes down by one modulo 4, \<open>p\<close> starts at \<open>p0\<close> and goes up by \<open>dp\<close> modulo 16;
  \<open>n\<close> turns are left of 16.
\<close>

fun md5_loop :: "nat \<Rightarrow> (u32 \<Rightarrow> u32 \<Rightarrow> u32 \<Rightarrow> u32) \<Rightarrow> nat list \<Rightarrow> u32 list \<Rightarrow> u32 list \<Rightarrow> nat \<Rightarrow> nat \<Rightarrow> nat \<Rightarrow> u32 list \<Rightarrow> u32 list" where
  "md5_loop 0 f RS X T dp k p R = R"
| "md5_loop (Suc n) f RS X T dp k p R =
     (let i = 15 - n
      in md5_loop n f RS X T dp ((k + 3) mod 4) ((p + dp) mod 16) (md5_P R k f (X ! p) (RS ! (i mod 4)) (T ! i)))"

definition md5_words :: "byte list \<Rightarrow> u32 list" where
  "md5_words b = map (\<lambda>i. get_uint32 b (i * 4)) [0..<16]"

definition md5_rounds :: "u32 list \<Rightarrow> u32 list \<Rightarrow> u32 list" where
  "md5_rounds X R =
     (let R = md5_loop 16 md5_F [7, 12, 17, 22] X md5_T 1 0 0 R;
          R = md5_loop 16 md5_G [5, 9, 14, 20] X (drop 16 md5_T) 5 0 1 R;
          R = md5_loop 16 md5_H [4, 11, 16, 23] X (drop 32 md5_T) 3 0 5 R
      in md5_loop 16 md5_I [6, 10, 15, 21] X (drop 48 md5_T) 7 0 0 R)"

definition iks_md5_compute :: "iksmd5 \<Rightarrow> iksmd5" where
  "iks_md5_compute md5 =
     (let R = md5_rounds (md5_words (md5_buffer md5)) (map (\<lambda>i. md5_state md5 ! i) [0..<4])
      in md5\<lparr>md5_state := map (\<lambda>i. md5_state md5 ! i + R ! i) [0..<4]\<rparr>)"

text \<open>\<^verbatim>\<open>total\<close> as a counter of 64 bits.\<close>

definition md5_count :: "u32 \<Rightarrow> iksmd5 \<Rightarrow> iksmd5" where
  "md5_count n md5 =
     (let t = md5_total0 md5 + n in md5\<lparr>md5_total0 := t, md5_total1 := md5_total1 md5 + (if t < n then 1 else 0)\<rparr>)"

text \<open>The loop over the data after the first fill.\<close>

function md5_rest :: "iksmd5 \<Rightarrow> byte list \<Rightarrow> iksmd5" where
  "md5_rest md5 data =
     (if data = [] then md5
      else let md5 = md5_count 512 ((iks_md5_compute md5)\<lparr>md5_blen := 0\<rparr>); j = (if length data < 64 then length data else 64)
           in md5_rest (md5\<lparr>md5_buffer := write_at 0 (take j data) (md5_buffer md5), md5_blen := j\<rparr>) (drop j data))"
  by auto
termination by (relation "measure (\<lambda>(md5, data). length data)") (auto simp: Let_def)

declare md5_rest.simps [simp del]

definition md5_absorb :: "iksmd5 \<Rightarrow> byte list \<Rightarrow> iksmd5" where
  "md5_absorb md5 data =
     (let i = 64 - md5_blen md5; j = (if length data < i then length data else i)
      in md5_rest (md5\<lparr>md5_buffer := write_at (md5_blen md5) (take j data) (md5_buffer md5), md5_blen := md5_blen md5 + j\<rparr>) (drop j data))"

text \<open>\<^verbatim>\<open>buffer[blen++] = 0x80\<close>, and the zeros up to the index \<open>n\<close>.\<close>

definition md5_mark :: "nat \<Rightarrow> iksmd5 \<Rightarrow> iksmd5" where
  "md5_mark v md5 =
     (if md5_blen md5 < 64 then md5\<lparr>md5_buffer := (md5_buffer md5)[md5_blen md5 := 0x80], md5_blen := md5_blen md5 + 1\<rparr>
      else md5\<lparr>md5_blen := v\<rparr>)"

definition md5_zeros :: "nat \<Rightarrow> iksmd5 \<Rightarrow> iksmd5" where
  "md5_zeros n md5 = md5\<lparr>md5_buffer := write_at (md5_blen md5) (replicate (n - md5_blen md5) 0) (md5_buffer md5),
     md5_blen := max n (md5_blen md5)\<rparr>"

definition md5_finish :: "nat \<Rightarrow> iksmd5 \<Rightarrow> iksmd5" where
  "md5_finish v md5 =
     (let md5 = md5_mark v (md5_count (of_nat (8 * md5_blen md5)) md5);
          md5 = (if md5_blen md5 > 56 then (iks_md5_compute (md5_zeros 64 md5))\<lparr>md5_blen := 0\<rparr> else md5);
          md5 = md5_zeros 56 md5
      in iks_md5_compute (md5\<lparr>md5_buffer := write_at 60 (put_uint32 (md5_total1 md5)) (write_at 56 (put_uint32 (md5_total0 md5)) (md5_buffer md5))\<rparr>))"

definition iks_md5_hash :: "nat \<Rightarrow> iksmd5 \<Rightarrow> byte list \<Rightarrow> bool \<Rightarrow> iksmd5" where
  "iks_md5_hash v md5 data finish = (let md5 = md5_absorb md5 data in if finish then md5_finish v md5 else md5)"

definition iks_md5_digest :: "iksmd5 \<Rightarrow> byte list" where
  "iks_md5_digest md5 = put_uint32 (md5_state md5 ! 0) @ put_uint32 (md5_state md5 ! 1) @ put_uint32 (md5_state md5 ! 2) @ put_uint32 (md5_state md5 ! 3)"

definition iks_md5_print :: "iksmd5 \<Rightarrow> string" where
  "iks_md5_print md5 = concat (map (\<lambda>b. hex_digits 2 (unat b)) (iks_md5_digest md5))"

definition iks_md5 :: "nat \<Rightarrow> string \<Rightarrow> string" where
  "iks_md5 v data = iks_md5_print (iks_md5_hash v iks_md5_reset (map of_char data) True)"

section \<open>The standard\<close>

text \<open>RFC 1321, 3.4: the auxiliary functions, the operations of the four rounds and the compression of a block.\<close>

definition rfc_f :: "nat \<Rightarrow> u32 \<Rightarrow> u32 \<Rightarrow> u32 \<Rightarrow> u32" where
  "rfc_f i x y z =
     (if i < 16 then (x AND y) OR (NOT x AND z)
      else if i < 32 then (x AND z) OR (y AND NOT z)
      else if i < 48 then x XOR y XOR z
      else y XOR (x OR NOT z))"

definition rfc_k :: "nat \<Rightarrow> nat" where
  "rfc_k i = (if i < 16 then i else if i < 32 then (1 + 5 * i) mod 16 else if i < 48 then (5 + 3 * i) mod 16 else 7 * i mod 16)"

definition rfc_s :: "nat \<Rightarrow> nat" where
  "rfc_s i = [[7, 12, 17, 22], [5, 9, 14, 20], [4, 11, 16, 23], [6, 10, 15, 21]] ! (i div 16) ! (i mod 4)"

type_synonym md5_regs = "u32 \<times> u32 \<times> u32 \<times> u32"

definition le_word :: "byte list \<Rightarrow> nat \<Rightarrow> u32" where
  "le_word b i = of_nat (le_val (read_at (4 * i) 4 b))"

text \<open>Operation \<open>i\<close> on \<open>(a, b, c, d)\<close>; the registers change their roles for the next one.\<close>

definition rfc_step :: "byte list \<Rightarrow> nat \<Rightarrow> md5_regs \<Rightarrow> md5_regs" where
  "rfc_step blk i = (\<lambda>(a, b, c, d). (d, b + rotl (rfc_s i) (a + rfc_f i b c d + le_word blk (rfc_k i) + md5_T ! i), b, c))"

definition rfc_compress :: "u32 list \<Rightarrow> byte list \<Rightarrow> u32 list" where
  "rfc_compress h blk =
     (let (a, b, c, d) = fold (rfc_step blk) [0..<64] (h ! 0, h ! 1, h ! 2, h ! 3)
      in [h ! 0 + a, h ! 1 + b, h ! 2 + c, h ! 3 + d])"

definition rfc_md5 :: "byte list \<Rightarrow> byte list" where
  "rfc_md5 m = concat (map le32 (foldl rfc_compress [0x67452301, 0xEFCDAB89, 0x98BADCFE, 0x10325476]
     (blocks64 (m @ pad_zeros m @ le_bytes 8 (bit_length m)))))"

section \<open>One block\<close>

lemma rfc_functions:
  "md5_F x y z = (x AND y) OR (NOT x AND z)" "md5_G x y z = (x AND z) OR (y AND NOT z)"
  by (auto simp: md5_F_def md5_G_def bit_eq_iff bit_and_iff bit_or_iff bit_xor_iff bit_not_iff)

lemma or_plus: "(a :: u32) AND b = 0 \<Longrightarrow> a OR b = a + b"
  using word_plus_and_or [of a b] by simp

lemma get_uint32_val: "get_uint32 b i = of_nat (unat (b ! i) + 256 * (unat (b ! (i + 1)) + 256 * (unat (b ! (i + 2)) + 256 * unat (b ! (i + 3)))))"
proof -
  let ?a = "ucast (b ! i) :: u32" and ?b = "push_bit 8 (ucast (b ! (i + 1))) :: u32"
  let ?c = "push_bit 16 (ucast (b ! (i + 2))) :: u32" and ?d = "push_bit 24 (ucast (b ! (i + 3))) :: u32"
  have "?c AND ?d = 0" "?b AND (?c OR ?d) = 0" "?a AND (?b OR ?c OR ?d) = 0"
    by (rule bit_eqI; auto simp: bit_and_iff bit_or_iff bit_push_bit_iff bit_ucast_iff dest: bit_imp_le_length)+
  then have "?a OR (?b OR (?c OR ?d)) = ?a + (?b + (?c + ?d))" by (simp add: or_plus)
  then show ?thesis unfolding get_uint32_def by (simp add: push_bit_eq_mult distrib_left mult.commute)
qed

lemma words_le: "length b = 64 \<Longrightarrow> i < 16 \<Longrightarrow> md5_words b ! i = le_word b i"
proof -
  assume a: "length b = 64" "i < 16"
  then have "read_at (4 * i) 4 b = [b ! (4 * i), b ! (4 * i + 1), b ! (4 * i + 2), b ! (4 * i + 3)]"
    by (intro nth_equalityI) (auto simp: nth_read_at less_Suc_eq numeral_eq_Suc)
  then show ?thesis using a by (simp add: md5_words_def le_word_def get_uint32_val mult.commute)
qed

definition md5_regs_of :: "nat \<Rightarrow> u32 list \<Rightarrow> md5_regs" where
  "md5_regs_of k R = (R ! k, R ! ((k + 1) mod 4), R ! ((k + 2) mod 4), R ! ((k + 3) mod 4))"

lemma md5_P_step:
  assumes "length R = 4" and "k < 4" and "\<And>x y z. f x y z = rfc_f i x y z" and "x = le_word blk (rfc_k i)" and "s = rfc_s i" and "t = md5_T ! i"
  shows "md5_regs_of ((k + 3) mod 4) (md5_P R k f x s t) = rfc_step blk i (md5_regs_of k R)" "length (md5_P R k f x s t) = 4"
proof -
  consider "k = 0" | "k = 1" | "k = 2" | "k = 3" using assms(2) by linarith
  then show "md5_regs_of ((k + 3) mod 4) (md5_P R k f x s t) = rfc_step blk i (md5_regs_of k R)"
    by cases (simp_all add: assms(1) md5_regs_of_def md5_P_def rfc_step_def Let_def assms(3-6) nth_list_update add_ac)
  show "length (md5_P R k f x s t) = 4" by (simp add: md5_P_def Let_def assms(1))
qed

lemma md5_loop_steps:
  assumes f: "\<And>i x y z. i < 16 \<Longrightarrow> f x y z = rfc_f (base + i) x y z"
    and x: "\<And>i. i < 16 \<Longrightarrow> X ! ((p0 + dp * i) mod 16) = le_word blk (rfc_k (base + i))"
    and s: "\<And>i. i < 16 \<Longrightarrow> RS ! (i mod 4) = rfc_s (base + i)"
    and t: "\<And>i. i < 16 \<Longrightarrow> T ! i = md5_T ! (base + i)"
  shows "length R = 4 \<Longrightarrow> k < 4 \<Longrightarrow> n \<le> 16 \<Longrightarrow> p = (p0 + dp * (16 - n)) mod 16
    \<Longrightarrow> md5_regs_of ((k + 3 * n) mod 4) (md5_loop n f RS X T dp k p R) = fold (rfc_step blk) [base + (16 - n)..<base + 16] (md5_regs_of k R)
      \<and> length (md5_loop n f RS X T dp k p R) = 4"
proof (induction n arbitrary: k p R)
  case 0
  then show ?case by simp
next
  case (Suc n)
  let ?i = "15 - n"
  define R' where "R' = md5_P R k f (X ! p) (RS ! (?i mod 4)) (T ! ?i)"
  have i: "?i < 16" "16 - Suc n = ?i" "16 - n = Suc ?i" using Suc.prems(3) by auto
  have P: "md5_regs_of ((k + 3) mod 4) R' = rfc_step blk (base + ?i) (md5_regs_of k R)" "length R' = 4"
    unfolding R'_def using Suc.prems i f [OF i(1)] x [OF i(1)] s [OF i(1)] t [OF i(1)] by (intro md5_P_step; simp)+
  have p: "(p + dp) mod 16 = (p0 + dp * (16 - n)) mod 16" unfolding Suc.prems(4) i by (simp add: mod_simps add_ac)
  have k: "((k + 3) mod 4 + 3 * n) mod 4 = (k + 3 * Suc n) mod 4" by (simp add: mod_simps add_ac)
  have u: "[base + ?i..<base + 16] = (base + ?i) # [base + Suc ?i..<base + 16]" using i(1) by (simp add: upt_conv_Cons)
  have "md5_regs_of (((k + 3) mod 4 + 3 * n) mod 4) (md5_loop n f RS X T dp ((k + 3) mod 4) ((p + dp) mod 16) R')
      = fold (rfc_step blk) [base + (16 - n)..<base + 16] (md5_regs_of ((k + 3) mod 4) R')
      \<and> length (md5_loop n f RS X T dp ((k + 3) mod 4) ((p + dp) mod 16) R') = 4"
    by (rule Suc.IH [OF P(2) _ _ p]) (use Suc.prems in auto)
  then show ?case unfolding k i(2,3) P(1) u by (simp add: Let_def R'_def del: upt_Suc)
qed

lemma length_md5_T: "length md5_T = 64"
  by (simp add: md5_T_def)

lemma rfc_k_rounds:
  "rfc_k (0 + i) = (0 + 1 * i) mod 16" "rfc_k (16 + i) = (1 + 5 * i) mod 16" "rfc_k (32 + i) = (5 + 3 * i) mod 16" "rfc_k (48 + i) = (0 + 7 * i) mod 16"
  if "i < 16"
proof -
  have "(1 + 5 * (16 + i)) mod 16 = (1 + 5 * i + 5 * 16) mod 16" "(5 + 3 * (32 + i)) mod 16 = (5 + 3 * i + 6 * 16) mod 16"
    "7 * (48 + i) mod 16 = (7 * i + 21 * 16) mod 16" by (simp_all add: algebra_simps)
  then show "rfc_k (0 + i) = (0 + 1 * i) mod 16" "rfc_k (16 + i) = (1 + 5 * i) mod 16" "rfc_k (32 + i) = (5 + 3 * i) mod 16" "rfc_k (48 + i) = (0 + 7 * i) mod 16"
    using that unfolding rfc_k_def by (simp_all only: mod_mult_self1) simp_all
qed

lemma rfc_s_rounds:
  "[7, 12, 17, 22] ! (i mod 4) = rfc_s (0 + i)" "[5, 9, 14, 20] ! (i mod 4) = rfc_s (16 + i)"
  "[4, 11, 16, 23] ! (i mod 4) = rfc_s (32 + i)" "[6, 10, 15, 21] ! (i mod 4) = rfc_s (48 + i)" if "i < 16"
proof -
  have "(16 + i) mod 4 = i mod 4" "(32 + i) mod 4 = i mod 4" "(48 + i) mod 4 = i mod 4" by presburger+
  moreover have "(16 + i) div 16 = 1" "(32 + i) div 16 = 2" "(48 + i) div 16 = 3" using that by simp_all
  ultimately show "[7, 12, 17, 22] ! (i mod 4) = rfc_s (0 + i)" "[5, 9, 14, 20] ! (i mod 4) = rfc_s (16 + i)"
    "[4, 11, 16, 23] ! (i mod 4) = rfc_s (32 + i)" "[6, 10, 15, 21] ! (i mod 4) = rfc_s (48 + i)"
    using that by (simp_all add: rfc_s_def)
qed

lemma md5_rounds_rfc:
  assumes "length b = 64" and "length R = 4"
  shows "md5_regs_of 0 (md5_rounds (md5_words b) R) = fold (rfc_step b) [0..<64] (md5_regs_of 0 R)" "length (md5_rounds (md5_words b) R) = 4"
proof -
  have w: "md5_words b ! (j mod 16) = le_word b (j mod 16)" for j using words_le [OF assms(1)] by simp
  have x: "md5_words b ! ((0 + 1 * i) mod 16) = le_word b (rfc_k (0 + i))" "md5_words b ! ((1 + 5 * i) mod 16) = le_word b (rfc_k (16 + i))"
    "md5_words b ! ((5 + 3 * i) mod 16) = le_word b (rfc_k (32 + i))" "md5_words b ! ((0 + 7 * i) mod 16) = le_word b (rfc_k (48 + i))"
    if "i < 16" for i unfolding rfc_k_rounds [OF that] w by (rule refl)+
  define R1 where "R1 = md5_loop 16 md5_F [7, 12, 17, 22] (md5_words b) md5_T 1 0 0 R"
  define R2 where "R2 = md5_loop 16 md5_G [5, 9, 14, 20] (md5_words b) (drop 16 md5_T) 5 0 1 R1"
  define R3 where "R3 = md5_loop 16 md5_H [4, 11, 16, 23] (md5_words b) (drop 32 md5_T) 3 0 5 R2"
  define R4 where "R4 = md5_loop 16 md5_I [6, 10, 15, 21] (md5_words b) (drop 48 md5_T) 7 0 0 R3"
  have 1: "md5_regs_of ((0 + 3 * 16) mod 4) R1 = fold (rfc_step b) [0 + (16 - 16)..<0 + 16] (md5_regs_of 0 R) \<and> length R1 = 4"
    unfolding R1_def by (rule md5_loop_steps [where ?p0.0 = 0, OF _ x(1) rfc_s_rounds(1)])
      (simp_all add: assms(2) rfc_f_def rfc_functions)
  have 2: "md5_regs_of ((0 + 3 * 16) mod 4) R2 = fold (rfc_step b) [16 + (16 - 16)..<16 + 16] (md5_regs_of 0 R1) \<and> length R2 = 4"
    unfolding R2_def by (rule md5_loop_steps [where ?p0.0 = 1, OF _ x(2) rfc_s_rounds(2)])
      (simp_all add: 1 rfc_f_def rfc_functions length_md5_T)
  have 3: "md5_regs_of ((0 + 3 * 16) mod 4) R3 = fold (rfc_step b) [32 + (16 - 16)..<32 + 16] (md5_regs_of 0 R2) \<and> length R3 = 4"
    unfolding R3_def by (rule md5_loop_steps [where ?p0.0 = 5, OF _ x(3) rfc_s_rounds(3)])
      (simp_all add: 2 rfc_f_def md5_H_def length_md5_T)
  have 4: "md5_regs_of ((0 + 3 * 16) mod 4) R4 = fold (rfc_step b) [48 + (16 - 16)..<48 + 16] (md5_regs_of 0 R3) \<and> length R4 = 4"
    unfolding R4_def by (rule md5_loop_steps [where ?p0.0 = 0, OF _ x(4) rfc_s_rounds(4)])
      (simp_all add: 3 rfc_f_def md5_I_def length_md5_T)
  have "[0..<64] = [0..<16] @ [16..<64]" "[16..<64] = [16..<32] @ [32..<64]" "[32..<64] = [32..<48] @ [48..<64]"
    by (rule upt_cut; simp)+
  then have "fold (rfc_step b) [0..<64] r = fold (rfc_step b) [48..<64] (fold (rfc_step b) [32..<48] (fold (rfc_step b) [16..<32] (fold (rfc_step b) [0..<16] r)))" for r
    by (simp only: fold_append o_apply)
  moreover have "md5_rounds (md5_words b) R = R4" unfolding md5_rounds_def Let_def R4_def R3_def R2_def R1_def by simp
  ultimately show "md5_regs_of 0 (md5_rounds (md5_words b) R) = fold (rfc_step b) [0..<64] (md5_regs_of 0 R)" "length (md5_rounds (md5_words b) R) = 4"
    using 1 2 3 4 by (simp_all del: upt_rec_numeral)
qed

lemma upt4: "[0..<4] = [0, 1, 2, 3 :: nat]"
  by code_simp

lemma compute_block:
  assumes "length (md5_buffer s) = 64" and "length (md5_state s) = 4"
  shows "md5_state (iks_md5_compute s) = rfc_compress (md5_state s) (md5_buffer s)"
proof -
  have e: "map (\<lambda>i. md5_state s ! i) [0..<4] = md5_state s" using map_nth [of "md5_state s"] assms(2) by simp
  define R where "R = md5_rounds (md5_words (md5_buffer s)) (md5_state s)"
  define r where "r = fold (rfc_step (md5_buffer s)) [0..<64] (md5_state s ! 0, md5_state s ! 1, md5_state s ! 2, md5_state s ! 3)"
  have n: "(0 + 1) mod 4 = (1 :: nat)" "(0 + 2) mod 4 = (2 :: nat)" "(0 + 3) mod 4 = (3 :: nat)" by simp_all
  have m: "md5_regs_of 0 R = (R ! 0, R ! 1, R ! 2, R ! 3)" for R unfolding md5_regs_of_def n by (rule refl)
  have "r = (R ! 0, R ! 1, R ! 2, R ! 3)" using md5_rounds_rfc(1) [OF assms] unfolding R_def r_def m by (rule sym)
  then show ?thesis unfolding iks_md5_compute_def rfc_compress_def Let_def e R_def [symmetric] r_def [symmetric]
    by (simp add: upt4)
qed

section \<open>Reading fragments\<close>

text \<open>The state has compressed the blocks of \<open>a\<close>; the last bytes \<open>r\<close>, at most a block and at least one byte, are in the buffer.\<close>

definition md5_holds_as :: "byte list \<Rightarrow> byte list \<Rightarrow> iksmd5 \<Rightarrow> bool" where
  "md5_holds_as a r s \<longleftrightarrow> length a mod 64 = 0 \<and> length r = md5_blen s \<and> length r \<le> 64
     \<and> length (md5_buffer s) = 64 \<and> take (md5_blen s) (md5_buffer s) = r
     \<and> md5_state s = foldl rfc_compress (md5_state iks_md5_reset) (blocks64 a)
     \<and> unat (md5_total1 s) * 2 ^ 32 + unat (md5_total0 s) = 8 * length a mod 2 ^ 64"

definition md5_holds :: "iksmd5 \<Rightarrow> byte list \<Rightarrow> bool" where
  "md5_holds s m \<longleftrightarrow> (\<exists>a r. m = a @ r \<and> md5_holds_as a r s \<and> (a \<noteq> [] \<longrightarrow> r \<noteq> []))"

lemma state_length: "length h = 4 \<Longrightarrow> length (foldl rfc_compress h bs) = 4"
  by (induction bs arbitrary: h) (simp_all add: rfc_compress_def split: prod.split)

lemma holds_as_state: "md5_holds_as a r s \<Longrightarrow> length (md5_state s) = 4"
  by (auto simp: md5_holds_as_def iks_md5_reset_def intro: state_length)

lemma compute_keeps:
  "md5_buffer (iks_md5_compute s) = md5_buffer s" "md5_blen (iks_md5_compute s) = md5_blen s"
  "md5_total0 (iks_md5_compute s) = md5_total0 s" "md5_total1 (iks_md5_compute s) = md5_total1 s"
  unfolding iks_md5_compute_def Let_def by simp_all

lemma count_keeps:
  "md5_buffer (md5_count n s) = md5_buffer s" "md5_blen (md5_count n s) = md5_blen s" "md5_state (md5_count n s) = md5_state s"
  by (simp_all add: md5_count_def Let_def)

lemma count_total:
  "unat (md5_total1 s) * 2 ^ 32 + unat (md5_total0 s) = x mod 2 ^ 64
    \<Longrightarrow> unat (md5_total1 (md5_count n s)) * 2 ^ 32 + unat (md5_total0 (md5_count n s)) = (x + unat n) mod 2 ^ 64"
  using counter_add [of "md5_total1 s" "md5_total0 s" x n] by (simp add: md5_count_def Let_def)

lemma unat_512: "unat (512 :: u32) = 512"
  by code_simp

text \<open>A full buffer is compressed, and the next bytes go to its front.\<close>

lemma compress_full:
  assumes "md5_holds_as a r s" and "length r = 64" and "length d \<le> 64"
  shows "md5_holds_as (a @ r) d (let t = md5_count 512 ((iks_md5_compute s)\<lparr>md5_blen := 0\<rparr>)
    in t\<lparr>md5_buffer := write_at 0 d (md5_buffer t), md5_blen := length d\<rparr>)"
proof -
  have h: "md5_buffer s = r" "md5_blen s = 64" using assms by (auto simp: md5_holds_as_def)
  have "blocks64 (a @ r) = blocks64 a @ [r]"
    using assms(1,2) by (simp add: md5_holds_as_def blocks64_append blocks64_single)
  then have st: "md5_state (iks_md5_compute s) = foldl rfc_compress (md5_state iks_md5_reset) (blocks64 (a @ r))"
    using compute_block [of s] holds_as_state [OF assms(1)] assms(1,2) h by (simp add: md5_holds_as_def)
  have tot: "unat (md5_total1 (md5_count 512 ((iks_md5_compute s)\<lparr>md5_blen := 0\<rparr>))) * 2 ^ 32
      + unat (md5_total0 (md5_count 512 ((iks_md5_compute s)\<lparr>md5_blen := 0\<rparr>))) = (8 * length a + 512) mod 2 ^ 64"
    using count_total [of "(iks_md5_compute s)\<lparr>md5_blen := 0\<rparr>" "8 * length a" 512, unfolded unat_512] assms(1)
    by (simp add: compute_keeps md5_holds_as_def)
  have "length (write_at 0 d r) = 64" "take (length d) (write_at 0 d r) = d" using assms(2,3) by (simp_all add: write_at_def)
  then show ?thesis
    using assms st tot h by (simp add: md5_holds_as_def Let_def count_keeps compute_keeps add.commute)
qed

lemma rest_holds:
  "md5_holds_as a r s \<Longrightarrow> (a \<noteq> [] \<longrightarrow> r \<noteq> []) \<Longrightarrow> data \<noteq> [] \<longrightarrow> length r = 64 \<Longrightarrow> md5_holds (md5_rest s data) (a @ r @ data)"
proof (induction s data arbitrary: a r rule: md5_rest.induct)
  case (1 s data)
  show ?case
  proof (cases "data = []")
    case True
    then show ?thesis using 1(2,3) by (auto simp: md5_rest.simps md5_holds_def)
  next
    case False
    define j where "j = (if length data < 64 then length data else 64)"
    define t where "t = md5_count 512 ((iks_md5_compute s)\<lparr>md5_blen := 0\<rparr>)"
    define u where "u = t\<lparr>md5_buffer := write_at 0 (take j data) (md5_buffer t), md5_blen := j\<rparr>"
    have l: "length r = 64" using False 1(4) by simp
    have j: "length (take j data) = j" "j \<le> 64" "0 < j" "drop j data \<noteq> [] \<longrightarrow> j = 64" using False by (auto simp: j_def)
    have "md5_holds_as (a @ r) (take j data) u"
      using compress_full [OF 1(2) l, of "take j data"] j by (simp add: u_def t_def Let_def)
    moreover have "take j data \<noteq> []" using j(1,3) by auto
    ultimately have "md5_holds (md5_rest u (drop j data)) ((a @ r) @ take j data @ drop j data)"
      using 1(1) [OF False t_def j_def, folded u_def, of "a @ r" "take j data"] j by simp
    moreover have "md5_rest s data = md5_rest u (drop j data)"
      using False by (simp add: md5_rest.simps [of s] u_def t_def j_def Let_def)
    ultimately show ?thesis by simp
  qed
qed

lemma absorb_holds:
  assumes "md5_holds s m"
  shows "md5_holds (md5_absorb s d) (m @ d)"
proof -
  obtain a r where ar: "m = a @ r" "md5_holds_as a r s" "a \<noteq> [] \<longrightarrow> r \<noteq> []" using assms by (auto simp: md5_holds_def)
  define j where "j = (if length d < 64 - md5_blen s then length d else 64 - md5_blen s)"
  define t where "t = s\<lparr>md5_buffer := write_at (md5_blen s) (take j d) (md5_buffer s), md5_blen := md5_blen s + j\<rparr>"
  have b: "md5_blen s = length r" "length r \<le> 64" "length (md5_buffer s) = 64" "take (length r) (md5_buffer s) = r"
    using ar(2) by (auto simp: md5_holds_as_def)
  have j: "length (take j d) = j" "length r + j \<le> 64" "drop j d \<noteq> [] \<longrightarrow> length r + j = 64" using b by (auto simp: j_def)
  have "take (length r + j) (write_at (length r) (take j d) (md5_buffer s)) = r @ take j d"
    using b j by (simp add: write_at_def)
  then have "md5_holds_as a (r @ take j d) t" using ar(2) b j by (simp add: md5_holds_as_def t_def)
  then have "md5_holds (md5_rest t (drop j d)) (a @ (r @ take j d) @ drop j d)"
    by (rule rest_holds) (use ar(3) j in auto)
  moreover have "md5_absorb s d = md5_rest t (drop j d)" by (simp add: md5_absorb_def t_def j_def Let_def)
  ultimately show ?thesis using ar(1) by simp
qed

section \<open>The padding\<close>

lemma le_bytes_4: "le_bytes 4 x = [of_nat x, of_nat (x div 256), of_nat (x div 65536), of_nat (x div 16777216)]"
proof -
  have "4 = Suc (Suc (Suc (Suc 0)))" by simp
  then show ?thesis by (simp only: le_bytes.simps) (simp add: div_mult2_eq [symmetric])
qed

lemma put_uint32_le: "put_uint32 n = le32 n"
proof -
  have d: "ucast (drop_bit k n) = (of_nat (unat n div 2 ^ k) :: byte)" for k
  proof -
    have "unat (drop_bit k n) = unat n div 2 ^ k" unfolding unat_drop_bit_eq by (simp add: drop_bit_eq_div)
    then show ?thesis by (metis of_nat_unat)
  qed
  have "ucast n = (of_nat (unat n) :: byte)" by simp
  then show ?thesis using d [of 8] d [of 16] d [of 24] unfolding put_uint32_def le_bytes_4 by simp
qed

lemma zeros_buffer:
  assumes "md5_blen s \<le> n" and "n \<le> 64" and "length (md5_buffer s) = 64"
  shows "take n (md5_buffer (md5_zeros n s)) = take (md5_blen s) (md5_buffer s) @ replicate (n - md5_blen s) 0"
    "length (md5_buffer (md5_zeros n s)) = 64"
  using assms by (simp_all add: md5_zeros_def write_at_def)

lemma zeros_keeps:
  "md5_state (md5_zeros n s) = md5_state s" "md5_total0 (md5_zeros n s) = md5_total0 s" "md5_total1 (md5_zeros n s) = md5_total1 s"
  by (simp_all add: md5_zeros_def)

lemma length_block:
  assumes "unat (md5_total1 t) * 2 ^ 32 + unat (md5_total0 t) = x" and "length (md5_buffer t) = 64"
  shows "write_at 60 (put_uint32 (md5_total1 t)) (write_at 56 (put_uint32 (md5_total0 t)) (md5_buffer t)) = take 56 (md5_buffer t) @ le_bytes 8 x"
proof -
  have l: "unat (md5_total0 t) < 2 ^ 32" using unat_u32_less [of "md5_total0 t"] by simp
  have "le_bytes 4 x = le_bytes 4 (unat (md5_total0 t))"
    using le_bytes_le_val [of "le_bytes 4 x" 4] le_bytes_le_val [of "le_bytes 4 (unat (md5_total0 t))" 4] assms(1) [symmetric]
    by (simp add: le_val_le_bytes)
  moreover have "x div 256 ^ 4 = unat (md5_total1 t)" using l assms(1) [symmetric] by simp
  ultimately have "le_bytes 8 x = le32 (md5_total0 t) @ le32 (md5_total1 t)" using le_bytes_add [of 4 4 x] by simp
  then show ?thesis using assms(2) by (simp add: put_uint32_le write_at_def)
qed

text \<open>The last block, after the bytes \<open>z\<close>.\<close>

lemma last_block:
  assumes "unat (md5_total1 t) * 2 ^ 32 + unat (md5_total0 t) = x" and "length (md5_buffer t) = 64" and "length (md5_state t) = 4"
    and "md5_blen t \<le> 56"
  shows "md5_state (let u = md5_zeros 56 t in iks_md5_compute (u\<lparr>md5_buffer := write_at 60 (put_uint32 (md5_total1 u)) (write_at 56 (put_uint32 (md5_total0 u)) (md5_buffer u))\<rparr>))
    = rfc_compress (md5_state t) (take (md5_blen t) (md5_buffer t) @ replicate (56 - md5_blen t) 0 @ le_bytes 8 x)"
proof -
  let ?u = "md5_zeros 56 t"
  have u: "take 56 (md5_buffer ?u) = take (md5_blen t) (md5_buffer t) @ replicate (56 - md5_blen t) 0" "length (md5_buffer ?u) = 64"
    using zeros_buffer [of t 56] assms by simp_all
  have w: "write_at 60 (put_uint32 (md5_total1 ?u)) (write_at 56 (put_uint32 (md5_total0 ?u)) (md5_buffer ?u)) = take 56 (md5_buffer ?u) @ le_bytes 8 x"
    by (rule length_block) (use assms u in \<open>simp_all add: zeros_keeps\<close>)
  show ?thesis unfolding Let_def w u(1) using compute_block [of "?u\<lparr>md5_buffer := (take (md5_blen t) (md5_buffer t) @ replicate (56 - md5_blen t) 0) @ le_bytes 8 x\<rparr>"]
      assms by (simp add: zeros_keeps)
qed

text \<open>The padding as the code makes it: without the first byte if the buffer was full.\<close>

definition md5_padding :: "byte list \<Rightarrow> byte list" where
  "md5_padding r = (if length r < 64 then pad_zeros r else replicate 56 0)"

lemma mark_buffer:
  fixes v :: nat and n :: u32
  assumes "md5_holds_as a r s" and "length r < 64"
  defines "t \<equiv> md5_mark v (md5_count n s)"
  shows "md5_blen t = length r + 1" "take (length r + 1) (md5_buffer t) = r @ [0x80]" "length (md5_buffer t) = 64"
  using assms by (auto simp: md5_holds_as_def md5_mark_def count_keeps take_Suc_conv_app_nth)

lemma full_buffer:
  fixes v :: nat and n :: u32
  assumes "md5_holds_as a r s" and "56 \<le> length r" and "64 < v"
  defines "B \<equiv> md5_buffer (md5_zeros 64 (md5_mark v (md5_count n s)))"
  shows "length B = 64" "r @ md5_padding r = B @ replicate 56 0"
proof -
  let ?t = "md5_mark v (md5_count n s)"
  have h: "md5_blen s = length r" "length r \<le> 64" "length (md5_buffer s) = 64" "take (length r) (md5_buffer s) = r"
    using assms(1) by (auto simp: md5_holds_as_def)
  have "length B = 64 \<and> r @ md5_padding r = B @ replicate 56 0"
  proof (cases "length r = 64")
    case True
    then have "B = r" using h assms(3) by (simp add: B_def md5_mark_def count_keeps md5_zeros_def write_at_def)
    then show ?thesis using True by (simp add: md5_padding_def)
  next
    case False
    then have l: "length r < 64" using h(2) by simp
    note m = mark_buffer [OF assms(1) l, of v n]
    have "length B = 64" unfolding B_def using zeros_buffer(2) [of ?t 64] m l by simp
    moreover have "take 64 B = r @ [0x80] @ replicate (63 - length r) 0" unfolding B_def using zeros_buffer(1) [of ?t 64] m l by simp
    moreover have "(119 - length r) mod 64 = (63 - length r) + 56" using assms(2) l by (simp add: mod_less)
    ultimately show ?thesis using l by (simp add: md5_padding_def pad_zeros_def replicate_add [symmetric])
  qed
  then show "length B = 64" "r @ md5_padding r = B @ replicate 56 0" by simp_all
qed

lemma finish_state:
  assumes "md5_holds_as a r s" and "64 < v"
  shows "md5_state (md5_finish v s)
    = foldl rfc_compress (md5_state iks_md5_reset) (blocks64 (a @ r @ md5_padding r @ le_bytes 8 (bit_length (a @ r))))"
proof -
  define n where "n = (of_nat (8 * md5_blen s) :: u32)"
  define t where "t = md5_mark v (md5_count n s)"
  have h: "md5_blen s = length r" "length r \<le> 64" "length (md5_buffer s) = 64" "length a mod 64 = 0"
    "md5_state s = foldl rfc_compress (md5_state iks_md5_reset) (blocks64 a)" using assms(1) by (auto simp: md5_holds_as_def)
  have n: "unat n = 8 * length r" unfolding n_def h(1) unat_of_nat using h(2) by simp
  have tot: "unat (md5_total1 t) * 2 ^ 32 + unat (md5_total0 t) = bit_length (a @ r)"
    using count_total [of s "8 * length a" n] assms(1) by (simp add: t_def md5_mark_def md5_holds_as_def n bit_length_def)
  have st: "md5_state t = md5_state s" "length (md5_state t) = 4" "length (md5_buffer t) = 64"
    using holds_as_state [OF assms(1)] h by (simp_all add: t_def md5_mark_def count_keeps)
  let ?l = "le_bytes 8 (bit_length (a @ r))" and ?p = "md5_padding r"
  have fin: "md5_state (md5_finish v s) = md5_state (let u = md5_zeros 56 (if md5_blen t > 56 then (iks_md5_compute (md5_zeros 64 t))\<lparr>md5_blen := 0\<rparr> else t)
      in iks_md5_compute (u\<lparr>md5_buffer := write_at 60 (put_uint32 (md5_total1 u)) (write_at 56 (put_uint32 (md5_total0 u)) (md5_buffer u))\<rparr>))"
    by (simp add: md5_finish_def t_def n_def Let_def)
  have bl: "blocks64 (a @ r @ ?p @ ?l) = blocks64 a @ blocks64 (r @ ?p @ ?l)" by (rule blocks64_append [OF h(4)])
  have b: "md5_blen t = (if length r < 64 then length r + 1 else v)" using h by (simp add: t_def md5_mark_def count_keeps)
  show ?thesis
  proof (cases "length r < 56")
    case True
    then have m: "md5_blen t = length r + 1" "take (length r + 1) (md5_buffer t) = r @ [0x80]" "\<not> md5_blen t > 56"
      using mark_buffer [OF assms(1)] by (simp_all add: t_def)
    have "(119 - length r) mod 64 = 55 - length r" using True by (simp add: le_mod_geq)
    then have "blocks64 (r @ ?p @ ?l) = [r @ [0x80] @ replicate (55 - length r) 0 @ ?l]"
      using True by (simp add: md5_padding_def pad_zeros_def blocks64_single)
    then show ?thesis unfolding fin bl using last_block [OF tot st(3,2)] m st(1) h(5) True by simp
  next
    case False
    let ?B = "md5_buffer (md5_zeros 64 t)" and ?u = "(iks_md5_compute (md5_zeros 64 t))\<lparr>md5_blen := 0\<rparr>"
    have B: "length ?B = 64" "r @ ?p @ ?l = ?B @ replicate 56 0 @ ?l"
      using full_buffer [OF assms(1) _ assms(2), of n] False by (simp_all add: t_def append_assoc [symmetric] del: append_assoc)
    have c: "md5_state ?u = rfc_compress (md5_state s) ?B" using compute_block [of "md5_zeros 64 t"] B st by (simp add: zeros_keeps)
    have "blocks64 (r @ ?p @ ?l) = [?B, replicate 56 0 @ ?l]" unfolding B(2) using B(1) by (simp add: blocks64_append blocks64_single)
    moreover have "length (md5_state ?u) = 4" unfolding c by (simp add: rfc_compress_def split: prod.split)
    moreover have "unat (md5_total1 ?u) * 2 ^ 32 + unat (md5_total0 ?u) = bit_length (a @ r)" "length (md5_buffer ?u) = 64" "md5_blen ?u \<le> 56"
      using tot B by (simp_all add: compute_keeps zeros_keeps)
    moreover have "md5_blen t > 56" using b False assms(2) by simp
    ultimately show ?thesis unfolding fin bl using last_block [of ?u "bit_length (a @ r)"] c h(5) by simp
  qed
qed

lemma md5_out: "length (md5_state s) = 4 \<Longrightarrow> iks_md5_digest s = concat (map le32 (md5_state s))"
proof -
  assume "length (md5_state s) = 4"
  then have "map (\<lambda>i. md5_state s ! i) [0, 1, 2, 3] = md5_state s" using map_nth [of "md5_state s"] by (simp add: upt4)
  then have "concat (map le32 (md5_state s)) = concat (map le32 (map (\<lambda>i. md5_state s ! i) [0, 1, 2, 3]))" by simp
  then show ?thesis by (simp add: iks_md5_digest_def put_uint32_le)
qed

lemma md5_finish_out:
  assumes "md5_holds s m" and "64 < v"
  shows "iks_md5_digest (md5_finish v s) = concat (map le32 (foldl rfc_compress (md5_state iks_md5_reset)
    (blocks64 (m @ (if m \<noteq> [] \<and> length m mod 64 = 0 then replicate 56 0 else pad_zeros m) @ le_bytes 8 (bit_length m)))))"
proof -
  obtain a r where ar: "m = a @ r" "md5_holds_as a r s" "a \<noteq> [] \<longrightarrow> r \<noteq> []" using assms(1) by (auto simp: md5_holds_def)
  have l: "length a mod 64 = 0" "length r \<le> 64" using ar(2) by (auto simp: md5_holds_as_def)
  have "length m mod 64 = length r mod 64" using l(1) ar(1) mod_add_left_eq [of "length a" 64 "length r"] by simp
  then have "md5_padding r = (if m \<noteq> [] \<and> length m mod 64 = 0 then replicate 56 0 else pad_zeros m)"
    using l(2) ar(1,3) by (cases "length r = 64"; cases "r = []") (auto simp: md5_padding_def pad_zeros_def)
  then have "md5_state (md5_finish v s) = foldl rfc_compress (md5_state iks_md5_reset)
      (blocks64 (m @ (if m \<noteq> [] \<and> length m mod 64 = 0 then replicate 56 0 else pad_zeros m) @ le_bytes 8 (bit_length m)))"
    using finish_state [OF ar(2) assms(2)] ar(1) by simp
  moreover have "length (foldl rfc_compress (md5_state iks_md5_reset) bs) = 4" for bs by (rule state_length) (simp add: iks_md5_reset_def)
  ultimately show ?thesis by (simp add: md5_out)
qed

lemma md5_reset_holds: "md5_holds iks_md5_reset []"
  by (auto simp: md5_holds_def md5_holds_as_def iks_md5_reset_def)

definition md5_fine :: "byte list \<Rightarrow> bool" where
  "md5_fine m \<longleftrightarrow> m = [] \<or> length m mod 64 \<noteq> 0"

interpretation md5: fragment_digest iks_md5_reset md5_absorb "md5_finish v" iks_md5_digest md5_holds "\<lambda>m. 64 < v \<and> md5_fine m" rfc_md5
proof unfold_locales
  show "md5_holds iks_md5_reset []" by (rule md5_reset_holds)
  show "md5_holds s m \<Longrightarrow> md5_holds (md5_absorb s d) (m @ d)" for s m d by (rule absorb_holds)
  show "md5_holds s m \<Longrightarrow> 64 < v \<and> md5_fine m \<Longrightarrow> iks_md5_digest (md5_finish v s) = rfc_md5 m" for s m
    using md5_finish_out [of s m v] by (auto simp: md5_fine_def rfc_md5_def iks_md5_reset_def)
qed

section \<open>Properties\<close>




text \<open>
  C40. A message whose length is a positive multiple of 64 gets a wrong digest: the byte that begins the padding is
  stored behind the buffer and lost, so that the digest is the one of the standard with a zero in its place,
  whatever value the store leaves in \<^verbatim>\<open>blen\<close>.
\<close>

theorem md5_full_block:
  assumes "64 < v" and "m \<noteq> []" and "length m mod 64 = 0"
  shows "iks_md5_digest (iks_md5_hash v iks_md5_reset m True) = concat (map le32 (foldl rfc_compress (md5_state iks_md5_reset)
    (blocks64 (m @ replicate 56 0 @ le_bytes 8 (bit_length m)))))"
  using md5_finish_out [OF absorb_holds [OF md5_reset_holds, of m] assms(1)] assms(2,3) by (simp add: iks_md5_hash_def)

theorem md5_full_block_witness:
  "iks_md5_digest (iks_md5_hash 65 iks_md5_reset (replicate 64 97) True) = concat (map le32 (foldl rfc_compress (md5_state iks_md5_reset)
    (blocks64 (replicate 64 97 @ replicate 56 0 @ le_bytes 8 512))))"
  using md5_full_block [of 65 "replicate 64 97"] by (simp add: bit_length_def)

end
