(* ===== verification/Iks_Base64.thy ===== *)
theory Iks_Base64
  imports Camera_Prelude
begin

text \<open>
  The base64 coding (\<^verbatim>\<open>jabberlog/base64.c\<close>).  \<^verbatim>\<open>char\<close> is unsigned on the camera's ARM.  The decoder
  writes to a zeroed array of the size it computes; an access outside is \<^term>\<open>None\<close>.
\<close>

section \<open>Definitions\<close>

definition base64_charset :: string where
  "base64_charset = ''ABCDEFGHIJKLMNOPQRSTUVWXYZabcdefghijklmnopqrstuvwxyz0123456789+/''"






definition base64_char :: "byte \<Rightarrow> char" where
  "base64_char v = base64_charset ! unat v"

fun encode_loop :: "byte list \<Rightarrow> string" where
  "encode_loop (a # b # c # r) =
     base64_char (drop_bit 2 a) # base64_char (push_bit 4 (a AND 3) OR drop_bit 4 b)
       # base64_char (push_bit 2 (b AND 15) OR drop_bit 6 c) # base64_char (c AND 63) # encode_loop r"
| "encode_loop [a, b] = [base64_char (drop_bit 2 a), base64_char (push_bit 4 (a AND 3) OR drop_bit 4 b), base64_char (push_bit 2 (b AND 15))]"
| "encode_loop [a] = [base64_char (drop_bit 2 a), base64_char (push_bit 4 (a AND 3))]"
| "encode_loop [] = []"


definition iks_base64_encode :: "byte list \<Rightarrow> string" where
  "iks_base64_encode buf = encode_loop buf @ ''==''"

section \<open>Lemmas\<close>








section \<open>Decoding in bounds\<close>




section \<open>Round trip\<close>

lemma encode_loop_length: "length (encode_loop m) = (length m * 8 + 5) div 6"
  by (induction m rule: encode_loop.induct) simp_all






section \<open>Properties\<close>


text \<open>
  The encoder pads every text with two characters: for a length that is not one more than a multiple of three
  its output differs from base64 as defined (RFC 3548), whose texts have a length divisible by four.
\<close>

theorem base64_padding: "length (iks_base64_encode m) mod 4 = 0 \<longleftrightarrow> length m mod 3 = 1"
proof -
  have l: "length (iks_base64_encode m) = (length m * 8 + 5) div 6 + 2" by (simp add: iks_base64_encode_def encode_loop_length)
  show ?thesis unfolding l by presburger
qed

end
