(* ===== verification/Spec2Isabelle.thy ===== *)
theory Spec2Isabelle
  imports Cron_Daemon Cron_Parent Ntp_Client Dhcp_Typing Iks_Sha Iks_Md5 Iks_Base64
begin

text \<open>
  Verification of the user-space daemons of the WVC2300 network camera firmware.

  \<^item> \<^theory_text>\<open>Camera_Prelude\<close>: C arithmetic, byte layouts and the C library's string functions.
  \<^item> \<^theory_text>\<open>Calendar\<close>: \<^verbatim>\<open>localtime\<close> and \<^verbatim>\<open>mktime\<close> on the proleptic Gregorian calendar.
  \<^item> \<^theory_text>\<open>Daylight\<close>: the time-zone table and the daylight-saving rules of \<^verbatim>\<open>NTP/fntp.c\<close>.
\<close>

section \<open>The NTP client and the cron daemon\<close>

text \<open>
  C8. The NTP client and the cron daemon disagree on the end of daylight saving.  The client applies the
  rules to standard time, the daemon to the clock.  So when an update finds a standard time in the last
  hour before the switching time of a North American zone (the daemon has put the clock back at the
  beginning of this hour), the client puts the clock forward by one hour again; and the daemon, whose
  flag is clear, leaves the clock there.
\<close>

theorem ntp_undoes_cron:
  assumes "tz_entry z = Some en" and "dst en = NA_DST" and "2007 \<le> y" and "y \<le> 2099"
    and "tzone st = z" and "new_time 0 now st = Some std"
    and "na_stop y - 3600 \<le> tv_sec std" and "tv_sec std < na_stop y"
    and "pro_get ops (conf d) = Some 0" and "time_fmt ops (conf d) = (True, z)"
  shows "new_time 1 now st = Some (shift_sec 3600 std)
    \<and> (clk d = tv_sec (shift_sec 3600 std) \<longrightarrow> dst_switch ops a b d = Some d)"
proof -
  have w: "na_start y \<le> t \<and> t < na_stop y + 86400" if "na_stop y - 3600 \<le> t" "t < na_stop y + 3600" for t
    using that na_bounds [of y] by linarith
  have "daylight_saving z (tv_sec std) = Some 1"
    using assms(1-4,7,8) w [of "tv_sec std"] na.saving_window [of y "tv_sec std"]
    by (simp add: daylight_saving_def)
  then have "new_time 1 now st = Some (shift_sec 3600 std)"
    using assms(5,6) by (simp add: new_time_def Let_def)
  moreover have "cron_daylight_saving z (tv_sec std + 3600) = Some 0"
    using assms(3,4,7,8) w [of "tv_sec std + 3600"] na.saving_window [of y "tv_sec std + 3600"]
    by (simp add: saving_na [OF assms(1,2)])
  ultimately show ?thesis
    using dst_switch_keep [OF assms(9,10)] by (simp add: shift_sec_def)
qed

theorem ntp_undoes_cron_witness:
  "new_time 1 \<lparr>tv_sec = na_stop 2007 - 1800, tv_usec = 0\<rparr> (sample_ntp\<lparr>tzone := 4\<rparr>)
     = Some \<lparr>tv_sec = na_stop 2007 + 1800, tv_usec = 0\<rparr>
   \<and> dst_switch mem_ops 0 0 (sample_daemon 4 0 (na_stop 2007 + 1800)) = Some (sample_daemon 4 0 (na_stop 2007 + 1800))"
proof -
  let ?now = "\<lparr>tv_sec = na_stop 2007 - 1800, tv_usec = 0\<rparr>"
  have z: "tz_entry 4 = Some (TimeZone ! 4)" "dst (TimeZone ! 4) = NA_DST"
    by (simp_all add: tz_entry_def TimeZone_def)
  have "offset_x2 (sample_ntp\<lparr>tzone := 4\<rparr>) = \<lparr>tv_sec = 0, tv_usec = 0\<rparr>"
    by (simp add: offset_x2_def sample_ntp_def tv_add_def tv_sub_def carry_def Let_def)
  moreover have "offset_double \<lparr>tv_sec = 0, tv_usec = 0\<rparr> = 0" "offset_timeval 0 = \<lparr>tv_sec = 0, tv_usec = 0\<rparr>"
    by code_simp+
  ultimately have "new_time 0 ?now (sample_ntp\<lparr>tzone := 4\<rparr>) = Some ?now"
    by (simp add: new_time_def gross_def tv_add_def carry_def Let_def)
  then show ?thesis
    using ntp_undoes_cron [OF z, of 2007 "sample_ntp\<lparr>tzone := 4\<rparr>" ?now ?now mem_ops
        "sample_daemon 4 0 (na_stop 2007 + 1800)" 0 0]
    by (simp add: sample_daemon_def mem_ops_def shift_sec_def)
qed

end
